(* ===== verification/Runv_Prelude.thy ===== *)
theory Runv_Prelude
  imports Main "HOL-Library.Word" "HOL-Library.AList"
begin

text \<open>
  The shared vocabulary of the development: the machine types of the Go source, Go maps as
  association lists with distinct keys, decimal printing (\<^verbatim>\<open>strconv.Itoa\<close>, the
  \<^verbatim>\<open>%d\<close> verb), \<^verbatim>\<open>strings.Split\<close> and \<^verbatim>\<open>strings.Join\<close> on a
  one-character separator, and the generic lemmas and rule collections the components use.

  A Go \<^verbatim>\<open>string\<close> is a \<^typ>\<open>string\<close> (a list of bytes). A Go \<^verbatim>\<open>int\<close> is a
  \<^typ>\<open>int\<close> or \<^typ>\<open>nat\<close>; fixed-width unsigned integers are words. A Go map is an
  association list: iteration over a map visits the entries in the order of the list, and
  since every theorem is about all lists, it covers every order in which Go may iterate.
\<close>

type_synonym byte = "8 word"
type_synonym uint16 = "16 word"
type_synonym uint32 = "32 word"
type_synonym uint64 = "64 word"

type_synonym ('k, 'v) gomap = "('k \<times> 'v) list"

named_theorems gomap_simps \<open>look-up after an update of a Go map\<close>
named_theorems inv_defs \<open>unfolding of the component invariants\<close>

section \<open>Go maps\<close>

abbreviation gget :: "('k, 'v) gomap \<Rightarrow> 'k \<Rightarrow> 'v option" where
  "gget \<equiv> map_of"

abbreviation gput :: "'k \<Rightarrow> 'v \<Rightarrow> ('k, 'v) gomap \<Rightarrow> ('k, 'v) gomap" where
  "gput \<equiv> AList.update"

abbreviation gdel :: "'k \<Rightarrow> ('k, 'v) gomap \<Rightarrow> ('k, 'v) gomap" where
  "gdel \<equiv> AList.delete"

abbreviation gkeys :: "('k, 'v) gomap \<Rightarrow> 'k list" where
  "gkeys m \<equiv> map fst m"

abbreviation gvals :: "('k, 'v) gomap \<Rightarrow> 'v list" where
  "gvals m \<equiv> map snd m"

abbreviation gwf :: "('k, 'v) gomap \<Rightarrow> bool" where
  "gwf m \<equiv> distinct (gkeys m)"

lemma gget_gput [simp, gomap_simps]: "gget (gput k v m) = (gget m)(k \<mapsto> v)"
  by (rule AList.update_conv')

lemma gget_gdel [simp, gomap_simps]: "gget (gdel k m) = (gget m)(k := None)"
  by (rule AList.delete_conv')

lemma gwf_gput [simp]: "gwf m \<Longrightarrow> gwf (gput k v m)"
  by (rule AList.distinct_update)

lemma gwf_gdel [simp]: "gwf m \<Longrightarrow> gwf (gdel k m)"
  by (simp add: AList.distinct_delete)

lemma gdel_absent [simp]: "gget m k = None \<Longrightarrow> gdel k m = m"
  by (simp add: AList.delete_eq map_of_eq_None_iff filter_id_conv) force

lemma gput_absent: "gget m k = None \<Longrightarrow> gput k v m = m @ [(k, v)]"
  by (induction m) (auto split: if_splits)

lemma gget_Some_iff: "gwf m \<Longrightarrow> gget m k = Some v \<longleftrightarrow> (k, v) \<in> set m"
  by (rule map_of_eq_Some_iff)

lemma gget_in_keys: "gget m k = Some v \<Longrightarrow> k \<in> set (gkeys m)"
  by (metis map_of_eq_None_iff image_set option.distinct(1))

lemma gget_None_keys: "gget m k = None \<longleftrightarrow> k \<notin> set (gkeys m)"
  by (simp add: map_of_eq_None_iff)

lemma dom_gget: "dom (gget m) = set (gkeys m)"
  by (simp add: dom_map_of_conv_image_fst)

lemma length_gput_absent: "gget m k = None \<Longrightarrow> length (gput k v m) = Suc (length m)"
  by (simp add: gput_absent)

lemma gkeys_gput: "set (gkeys (gput k v m)) = insert k (set (gkeys m))"
  by (metis dom_gget dom_fun_upd gget_gput option.distinct(1))

section \<open>Counting up in a word\<close>

lemma unat_Suc_less: "i < (n :: uint32) \<Longrightarrow> unat (i + 1) = Suc (unat i)"
proof -
  assume "i < n"
  then have "unat i + 1 < 2 ^ 32"
    using unsigned_less [of n, where ?'a = nat] by (simp add: word_less_nat_alt)
  then show ?thesis by (simp add: unat_word_ariths)
qed

lemma word_le_Suc_cases: "i < (n :: uint32) \<Longrightarrow> i \<le> k \<longleftrightarrow> k = i \<or> i + 1 \<le> k"
  using unat_Suc_less [of i n] by (auto simp: word_le_nat_alt word_unat_eq_iff)

section \<open>Decimal numerals\<close>

definition digit :: "nat \<Rightarrow> char" where
  "digit n = char_of (48 + n)"

text \<open>\<^verbatim>\<open>strconv.FormatUint(n, 10)\<close>.\<close>

fun utoa :: "nat \<Rightarrow> string" where
  "utoa n = (if n < 10 then [digit n] else utoa (n div 10) @ [digit (n mod 10)])"

declare utoa.simps [simp del]

text \<open>\<^verbatim>\<open>strconv.Itoa(i)\<close> and \<^verbatim>\<open>fmt.Sprintf("%d", i)\<close>.\<close>

definition itoa :: "int \<Rightarrow> string" where
  "itoa i = (if i < 0 then CHR ''-'' # utoa (nat (- i)) else utoa (nat i))"

definition undigit :: "char \<Rightarrow> nat" where
  "undigit c = of_char c - 48"

definition atou :: "string \<Rightarrow> nat" where
  "atou s = foldl (\<lambda>a c. 10 * a + undigit c) 0 s"

lemma undigit_digit [simp]: "n < 10 \<Longrightarrow> undigit (digit n) = n"
  by (simp add: undigit_def digit_def of_char_of)

lemma digit_inject: "m < 10 \<Longrightarrow> n < 10 \<Longrightarrow> digit m = digit n \<longleftrightarrow> m = n"
  by (metis undigit_digit)

lemma atou_append: "atou (s @ [c]) = 10 * atou s + undigit c"
  by (simp add: atou_def)

lemma atou_utoa [simp]: "atou (utoa n) = n"
proof (induction n rule: utoa.induct)
  case (1 n)
  show ?case
  proof (cases "n < 10")
    case True
    then show ?thesis by (simp add: utoa.simps [of n] atou_def)
  next
    case False
    with "1.IH" show ?thesis by (simp add: utoa.simps [of n] atou_append)
  qed
qed

lemma utoa_inject [simp]: "utoa m = utoa n \<longleftrightarrow> m = n"
  by (metis atou_utoa)

lemma utoa_not_Nil [simp]: "utoa n \<noteq> []"
  by (subst utoa.simps) simp

lemma digit_chars: "n < 10 \<Longrightarrow> of_char (digit n) \<in> {48..(57::nat)}"
  by (simp add: digit_def of_char_of)

lemma utoa_chars: "c \<in> set (utoa n) \<Longrightarrow> of_char c \<in> {48..(57::nat)}"
proof (induction n rule: utoa.induct)
  case (1 n)
  then show ?case
    using digit_chars [of n] digit_chars [of "n mod 10"]
    by (auto simp: utoa.simps [of n] split: if_splits)
qed

lemma itoa_nat [simp]: "itoa (int n) = utoa n"
  by (simp add: itoa_def)

lemma utoa_no_minus: "CHR ''-'' \<notin> set (utoa n)"
proof
  assume "CHR ''-'' \<in> set (utoa n)"
  from utoa_chars [OF this] show False by simp
qed

lemma utoa_neq_minus [simp]: "utoa n \<noteq> CHR ''-'' # s" "CHR ''-'' # s \<noteq> utoa n"
  using utoa_no_minus [of n] by (metis list.set_intros(1))+

lemma itoa_inject [simp]: "itoa i = itoa j \<longleftrightarrow> i = j"
  by (auto simp: itoa_def split: if_splits)

section \<open>Splitting and joining strings\<close>

text \<open>\<^verbatim>\<open>strings.Split(s, string(c))\<close>: always at least one piece.\<close>

fun split_on :: "char \<Rightarrow> string \<Rightarrow> string list" where
  "split_on c [] = [[]]"
| "split_on c (x # xs) =
     (if x = c then [] # split_on c xs
      else (case split_on c xs of p # ps \<Rightarrow> (x # p) # ps | [] \<Rightarrow> [[x]]))"

text \<open>\<^verbatim>\<open>strings.Join(ps, string(c))\<close>.\<close>

fun join_with :: "char \<Rightarrow> string list \<Rightarrow> string" where
  "join_with c [] = []"
| "join_with c [p] = p"
| "join_with c (p # q # ps) = p @ c # join_with c (q # ps)"

lemma split_on_not_Nil [simp]: "split_on c s \<noteq> []"
  by (induction s) (auto split: list.splits)

lemma split_on_no_sep: "c \<notin> set s \<Longrightarrow> split_on c s = [s]"
  by (induction s) auto

lemma split_on_app: "c \<notin> set p \<Longrightarrow> split_on c (p @ c # s) = p # split_on c s"
  by (induction p) (auto split: list.splits)

lemma split_on_pieces: "p \<in> set (split_on c s) \<Longrightarrow> c \<notin> set p"
  by (induction s arbitrary: p) (auto split: if_splits list.splits)

lemma join_split [simp]: "join_with c (split_on c s) = s"
proof (induction s)
  case Nil
  then show ?case by simp
next
  case (Cons x xs)
  obtain p ps where "split_on c xs = p # ps"
    using split_on_not_Nil by (metis neq_Nil_conv)
  with Cons show ?case
    by (cases ps) auto
qed

lemma split_join:
  "ps \<noteq> [] \<Longrightarrow> (\<And>p. p \<in> set ps \<Longrightarrow> c \<notin> set p) \<Longrightarrow> split_on c (join_with c ps) = ps"
proof (induction ps rule: induct_list012)
  case (3 p q ps)
  then show ?case by (simp add: split_on_app)
qed (auto simp: split_on_no_sep)

section \<open>Lists used as heaps\<close>

text \<open>
  Objects that the Go code shares by pointer live in a list; a pointer is an index and
  allocation appends. An update of one object leaves the others as they are.
\<close>

definition hupd :: "nat \<Rightarrow> ('a \<Rightarrow> 'a) \<Rightarrow> 'a list \<Rightarrow> 'a list" where
  "hupd p f h = (if p < length h then h[p := f (h ! p)] else h)"

lemma length_hupd [simp]: "length (hupd p f h) = length h"
  by (simp add: hupd_def)

lemma nth_hupd [simp]:
  "q < length h \<Longrightarrow> hupd p f h ! q = (if q = p then f (h ! q) else h ! q)"
  by (auto simp: hupd_def)

lemma hupd_append [simp]:
  "hupd p f (h @ [x]) = (if p = length h then h @ [f x] else hupd p f h @ [x])"
  by (auto simp: hupd_def nth_append list_update_append split: nat.splits)

end
