(* ===== verification/Allocator.thy ===== *)
theory Allocator
  imports Runv_Prelude
begin

text \<open>
  The contract that the vsock id allocator and the address allocator of a network share: hand out
  a fresh name, claim a given name, take a name back. Whoever allocates through the contract holds
  distinct names, which the locale proves once for every history of operations.
\<close>

datatype 'v alloc_op = Acquire | Claim 'v | Drop 'v

locale unique_allocator =
  fixes get :: "'a \<Rightarrow> 'a \<times> 'v option"
    and mark :: "'a \<Rightarrow> 'v \<Rightarrow> 'a \<times> bool"
    and release :: "'a \<Rightarrow> 'v \<Rightarrow> 'a"
    and key :: "'v \<Rightarrow> 'k"
    and used :: "'a \<Rightarrow> 'k set"
    and invar :: "'a \<Rightarrow> bool"
  assumes get_fresh: "invar a \<Longrightarrow> get a = (a', Some v) \<Longrightarrow> key v \<notin> used a"
    and get_used: "invar a \<Longrightarrow> get a = (a', Some v) \<Longrightarrow> used a' = insert (key v) (used a)"
    and get_invar: "invar a \<Longrightarrow> get a = (a', r) \<Longrightarrow> invar a'"
    and get_fail: "invar a \<Longrightarrow> get a = (a', None) \<Longrightarrow> used a' = used a"
    and mark_fresh: "invar a \<Longrightarrow> mark a v = (a', True) \<Longrightarrow> key v \<notin> used a"
    and mark_used: "invar a \<Longrightarrow> mark a v = (a', b) \<Longrightarrow>
      used a' = (if b then insert (key v) (used a) else used a)"
    and mark_invar: "invar a \<Longrightarrow> mark a v = (a', b) \<Longrightarrow> invar a'"
    and release_used: "invar a \<Longrightarrow> used (release a v) = used a - {key v}"
    and release_invar: "invar a \<Longrightarrow> invar (release a v)"
begin

text \<open>
  A holder acquires a name, claims the name it had before, or gives up a name it holds. The list
  holds the names in use by their holders.
\<close>

inductive step :: "'a \<times> 'v list \<Rightarrow> 'v alloc_op \<Rightarrow> 'a \<times> 'v list \<Rightarrow> bool" where
  acquire: "get a = (a', Some v) \<Longrightarrow> step (a, live) Acquire (a', v # live)"
| acquire_fail: "get a = (a', None) \<Longrightarrow> step (a, live) Acquire (a', live)"
| claim: "mark a v = (a', True) \<Longrightarrow> step (a, live) (Claim v) (a', v # live)"
| claim_fail: "mark a v = (a', False) \<Longrightarrow> step (a, live) (Claim v) (a', live)"
| drop: "v \<in> set live \<Longrightarrow> step (a, live) (Drop v) (release a v, remove1 v live)"

inductive run :: "'a \<times> 'v list \<Rightarrow> 'v alloc_op list \<Rightarrow> 'a \<times> 'v list \<Rightarrow> bool" where
  run_Nil: "run s [] s"
| run_Cons: "step s e s' \<Longrightarrow> run s' es s'' \<Longrightarrow> run s (e # es) s''"

definition live_inv :: "'a \<times> 'v list \<Rightarrow> bool" where
  "live_inv = (\<lambda>(a, live). invar a \<and> distinct (map key live) \<and> key ` set live \<subseteq> used a)"

lemma distinct_map_remove1: "distinct (map key xs) \<Longrightarrow> distinct (map key (remove1 v xs))"
  by (auto simp: distinct_map set_remove1_eq intro: inj_on_subset)

lemma key_remove1: "distinct (map key xs) \<Longrightarrow> v \<in> set xs \<Longrightarrow> key v \<notin> key ` set (remove1 v xs)"
  by (auto simp: distinct_map set_remove1_eq inj_on_def)

lemma live_inv_step: "step s e s' \<Longrightarrow> live_inv s \<Longrightarrow> live_inv s'"
proof (induction rule: step.induct)
  case (acquire a a' v live)
  then show ?case
    using get_fresh [of a a' v] get_used [of a a' v] get_invar [of a a' "Some v"]
    by (auto simp: live_inv_def)
next
  case (acquire_fail a a' live)
  then show ?case
    using get_fail [of a a'] get_invar [of a a' None] by (auto simp: live_inv_def)
next
  case (claim a v a' live)
  then show ?case
    using mark_fresh [of a v a'] mark_used [of a v a' True] mark_invar [of a v a' True]
    by (auto simp: live_inv_def)
next
  case (claim_fail a v a' live)
  then show ?case
    using mark_used [of a v a' False] mark_invar [of a v a' False] by (auto simp: live_inv_def)
next
  case (drop v live a)
  then show ?case
    using distinct_map_remove1 [of live v] key_remove1 [of live v] set_remove1_subset [of v live]
    by (auto simp: live_inv_def release_used release_invar image_subset_iff image_iff)
qed

lemma live_inv_run: "run s es s' \<Longrightarrow> live_inv s \<Longrightarrow> live_inv s'"
  by (induction rule: run.induct) (auto intro: live_inv_step)

lemma live_distinct:
  "invar a \<Longrightarrow> run (a, []) es (a', live) \<Longrightarrow> distinct (map key live) \<and> key ` set live \<subseteq> used a'"
  using live_inv_run [of "(a, [])" es "(a', live)"] by (auto simp: live_inv_def)

end

end
