(* ===== verification/Vsock.thy ===== *)
theory Vsock
  imports Allocator
begin

text \<open>
  The vsock context-id allocator of \<^verbatim>\<open>lib/vsock/vsock.go\<close>. The roaring bitmap it
  keeps is a set of 32-bit integers: \<^verbatim>\<open>CheckedAdd\<close> inserts and tells whether the element
  was new, \<^verbatim>\<open>Remove\<close> deletes. All arithmetic is 32-bit and wraps.

  The Go interface \<^verbatim>\<open>VsockCidAllocator\<close> is the locale \<open>unique_allocator\<close>: its clients are
  \<^verbatim>\<open>InitContext\<close> (acquires an id), \<^verbatim>\<open>loadHwStatus\<close> (claims the persisted id) and \<^verbatim>\<open>Close\<close> of
  the sandbox (gives it up).
\<close>

section \<open>The allocator\<close>

definition hyperDefaultVsockCid :: uint32 where
  "hyperDefaultVsockCid = 1024"

definition hyperDefaultVsockBitmapSize :: uint32 where
  "hyperDefaultVsockBitmapSize = 16384"

record DefaultVsockCidAllocator =
  vc_bitmap :: "uint32 set"
  vc_start :: uint32
  vc_size :: uint32
  vc_pivot :: uint32

definition NewDefaultVsockCidAllocator :: DefaultVsockCidAllocator where
  "NewDefaultVsockCidAllocator =
     \<lparr>vc_bitmap = {}, vc_start = hyperDefaultVsockCid,
      vc_size = hyperDefaultVsockBitmapSize, vc_pivot = hyperDefaultVsockCid\<rparr>"

text \<open>The candidate that iteration \<open>i\<close> of the loop of \<^verbatim>\<open>GetCid\<close> looks at.\<close>

definition cid_candidate :: "DefaultVsockCidAllocator \<Rightarrow> uint32 \<Rightarrow> uint32" where
  "cid_candidate vc i =
     (let cid = vc_pivot vc + i
      in if cid \<ge> vc_start vc + vc_size vc then cid - vc_size vc else cid)"

text \<open>
  The loop of \<^verbatim>\<open>GetCid\<close> from iteration \<open>i\<close>: the new allocator and \<open>Some cid\<close>, or \<open>None\<close> for the
  error \<^verbatim>\<open>No more available cid\<close>.
\<close>

function GetCid_loop ::
  "DefaultVsockCidAllocator \<Rightarrow> uint32 \<Rightarrow> DefaultVsockCidAllocator \<times> uint32 option" where
  "GetCid_loop vc i =
     (if i < vc_size vc
      then (let cid = cid_candidate vc i
            in if cid \<notin> vc_bitmap vc
               then (vc\<lparr>vc_bitmap := insert cid (vc_bitmap vc), vc_pivot := cid + 1\<rparr>, Some cid)
               else GetCid_loop vc (i + 1))
      else (vc, None))"
  by pat_completeness auto

termination
  by (relation "measure (\<lambda>(vc, i). unat (vc_size vc) - unat i)")
    (auto simp: unat_Suc_less word_less_nat_alt)

declare GetCid_loop.simps [simp del]

definition GetCid ::
  "DefaultVsockCidAllocator \<Rightarrow> DefaultVsockCidAllocator \<times> uint32 option" where
  "GetCid vc = GetCid_loop vc 0"

definition MarkCidInuse ::
  "DefaultVsockCidAllocator \<Rightarrow> uint32 \<Rightarrow> DefaultVsockCidAllocator \<times> bool" where
  "MarkCidInuse vc cid =
     (vc\<lparr>vc_bitmap := insert cid (vc_bitmap vc)\<rparr>, cid \<notin> vc_bitmap vc)"

definition ReleaseCid ::
  "DefaultVsockCidAllocator \<Rightarrow> uint32 \<Rightarrow> DefaultVsockCidAllocator" where
  "ReleaseCid vc cid = vc\<lparr>vc_bitmap := vc_bitmap vc - {cid}\<rparr>"

section \<open>Invariant: the pivot stays at the window\<close>

text \<open>
  The window \<open>[start, start + size)\<close> leaves room for one more \<open>size\<close> below \<open>2 ^ 32\<close>, so that
  \<open>pivot + i\<close> does not wrap, and the pivot lies in the window or just behind it.
\<close>

definition cid_inv :: "DefaultVsockCidAllocator \<Rightarrow> bool" where
  "cid_inv vc \<longleftrightarrow>
     unat (vc_start vc) + 2 * unat (vc_size vc) < 2 ^ 32 \<and>
     vc_start vc \<le> vc_pivot vc \<and> vc_pivot vc \<le> vc_start vc + vc_size vc"

definition cid_window :: "DefaultVsockCidAllocator \<Rightarrow> uint32 set" where
  "cid_window vc = {c. vc_start vc \<le> c \<and> c < vc_start vc + vc_size vc}"

lemma cid_inv_New: "cid_inv NewDefaultVsockCidAllocator"
  by (simp add: cid_inv_def NewDefaultVsockCidAllocator_def hyperDefaultVsockCid_def
      hyperDefaultVsockBitmapSize_def)

lemma cid_inv_unat:
  assumes "cid_inv vc"
  shows "unat (vc_start vc + vc_size vc) = unat (vc_start vc) + unat (vc_size vc)"
    and "unat (vc_start vc) \<le> unat (vc_pivot vc)"
    and "unat (vc_pivot vc) \<le> unat (vc_start vc) + unat (vc_size vc)"
  using assms by (auto simp: cid_inv_def word_le_nat_alt unat_word_ariths)

text \<open>The candidate as a natural number: the offset from the start, taken modulo the size.\<close>

lemma unat_cid_candidate:
  assumes inv: "cid_inv vc" and i: "i < vc_size vc"
  shows "unat (cid_candidate vc i) =
    unat (vc_start vc) + (unat (vc_pivot vc) - unat (vc_start vc) + unat i) mod unat (vc_size vc)"
proof -
  let ?s = "unat (vc_start vc)" and ?n = "unat (vc_size vc)" and ?p = "unat (vc_pivot vc)"
    and ?i = "unat i"
  note u = cid_inv_unat [OF inv]
  have i': "?i < ?n" using i by (simp add: word_less_nat_alt)
  have b: "?s + 2 * ?n < 2 ^ 32" using inv by (simp add: cid_inv_def)
  have sum: "unat (vc_pivot vc + i) = ?p + ?i"
    using u b i' by (simp add: unat_word_ariths)
  show ?thesis
  proof (cases "vc_pivot vc + i \<ge> vc_start vc + vc_size vc")
    case True
    then have ge: "?s + ?n \<le> ?p + ?i" using sum u by (simp add: word_le_nat_alt)
    then have "vc_size vc \<le> vc_pivot vc + i" using sum by (simp add: word_le_nat_alt)
    then have "unat (vc_pivot vc + i - vc_size vc) = ?p + ?i - ?n"
      using sum by (simp add: unat_sub)
    moreover have "(?p - ?s + ?i) mod ?n = ?p + ?i - ?s - ?n"
      using ge u i' by (simp add: mod_if)
    ultimately show ?thesis
      using True ge by (simp add: cid_candidate_def)
  next
    case False
    then have "?p + ?i < ?s + ?n" using sum u by (simp add: word_le_nat_alt)
    then show ?thesis
      using False u sum by (simp add: cid_candidate_def)
  qed
qed

lemma cid_candidate_window:
  "cid_inv vc \<Longrightarrow> i < vc_size vc \<Longrightarrow> cid_candidate vc i \<in> cid_window vc"
  using unat_cid_candidate [of vc i] cid_inv_unat [of vc]
  by (auto simp: cid_window_def word_le_nat_alt word_less_nat_alt)

text \<open>Every id of the window is the candidate of some iteration.\<close>

lemma cid_candidate_surj:
  assumes inv: "cid_inv vc" and c: "c \<in> cid_window vc"
  shows "\<exists>i < vc_size vc. cid_candidate vc i = c"
proof -
  let ?s = "unat (vc_start vc)" and ?n = "unat (vc_size vc)" and ?p = "unat (vc_pivot vc)"
  note u = cid_inv_unat [OF inv]
  have lo: "?s \<le> unat c" and hi: "unat c < ?s + ?n"
    using c u by (auto simp: cid_window_def word_le_nat_alt word_less_nat_alt)
  define k where "k = (unat c + ?n - ?p) mod ?n"
  have k: "k < ?n" unfolding k_def using lo hi by (intro mod_less_divisor) linarith
  moreover have "?n < 2 ^ 32" using unsigned_less [of "vc_size vc"] by simp
  ultimately have uk: "unat (of_nat k :: uint32) = k"
    by (simp add: unat_of_nat)
  have le: "?p \<le> unat c + ?n" using u lo by linarith
  have "(?p - ?s + k) mod ?n = (?p - ?s + (unat c + ?n - ?p)) mod ?n"
    by (simp add: k_def mod_simps)
  also have "?p - ?s + (unat c + ?n - ?p) = unat c - ?s + ?n"
    using le u(2) lo by linarith
  also have "(unat c - ?s + ?n) mod ?n = unat c - ?s"
    using lo hi by (simp only: mod_add_self2) (simp add: less_diff_conv2)
  finally have "unat (cid_candidate vc (of_nat k)) = unat c"
    using unat_cid_candidate [OF inv, of "of_nat k"] k uk lo
    by (simp add: word_less_nat_alt)
  then show ?thesis
    using k uk by (intro exI [of _ "of_nat k"]) (simp add: word_less_nat_alt word_unat_eq_iff)
qed

section \<open>What the loop returns\<close>

lemma GetCid_loop_Some:
  "GetCid_loop vc i = (vc', Some c) \<Longrightarrow>
   \<exists>j. i \<le> j \<and> j < vc_size vc \<and> c = cid_candidate vc j \<and> c \<notin> vc_bitmap vc \<and>
     (\<forall>k. i \<le> k \<and> k < j \<longrightarrow> cid_candidate vc k \<in> vc_bitmap vc) \<and>
     vc' = vc\<lparr>vc_bitmap := insert c (vc_bitmap vc), vc_pivot := c + 1\<rparr>"
proof (induction vc i rule: GetCid_loop.induct)
  case (1 vc i)
  show ?case
  proof (cases "i < vc_size vc \<and> cid_candidate vc i \<in> vc_bitmap vc")
    case True
    then have "GetCid_loop vc (i + 1) = (vc', Some c)"
      using "1.prems" by (simp add: GetCid_loop.simps [of vc i] Let_def)
    then obtain j where j: "i + 1 \<le> j" "j < vc_size vc" "c = cid_candidate vc j"
        "c \<notin> vc_bitmap vc" "\<forall>k. i + 1 \<le> k \<and> k < j \<longrightarrow> cid_candidate vc k \<in> vc_bitmap vc"
        "vc' = vc\<lparr>vc_bitmap := insert c (vc_bitmap vc), vc_pivot := c + 1\<rparr>"
      using "1.IH" [OF _ refl] True by blast
    have cases: "i \<le> k \<longleftrightarrow> k = i \<or> i + 1 \<le> k" for k
      using True word_le_Suc_cases by blast
    have "\<forall>k. i \<le> k \<and> k < j \<longrightarrow> cid_candidate vc k \<in> vc_bitmap vc"
      using True j(5) unfolding cases by blast
    moreover have "i \<le> j" using j(1) unfolding cases by blast
    ultimately show ?thesis using j by blast
  next
    case False
    then show ?thesis using "1.prems"
      by (auto simp: GetCid_loop.simps [of vc i] Let_def split: if_splits intro!: exI [of _ i])
  qed
qed

lemma GetCid_loop_None:
  "GetCid_loop vc i = (vc', None) \<Longrightarrow>
   vc' = vc \<and> (\<forall>k. i \<le> k \<and> k < vc_size vc \<longrightarrow> cid_candidate vc k \<in> vc_bitmap vc)"
proof (induction vc i rule: GetCid_loop.induct)
  case (1 vc i)
  show ?case
  proof (cases "i < vc_size vc")
    case True
    then have mem: "cid_candidate vc i \<in> vc_bitmap vc"
      and "GetCid_loop vc (i + 1) = (vc', None)"
      using "1.prems" by (auto simp: GetCid_loop.simps [of vc i] Let_def split: if_splits)
    with "1.IH" [OF True refl] have IH: "vc' = vc"
      "\<forall>k. i + 1 \<le> k \<and> k < vc_size vc \<longrightarrow> cid_candidate vc k \<in> vc_bitmap vc"
      by auto
    have "\<forall>k. i \<le> k \<and> k < vc_size vc \<longrightarrow> cid_candidate vc k \<in> vc_bitmap vc"
      using mem IH(2) unfolding word_le_Suc_cases [OF True] by blast
    with IH(1) show ?thesis by blast
  next
    case False
    then show ?thesis using "1.prems" by (auto simp: GetCid_loop.simps [of vc i])
  qed
qed

lemma GetCid_Some:
  assumes "cid_inv vc" "GetCid vc = (vc', Some c)"
  shows "c \<in> cid_window vc" "c \<notin> vc_bitmap vc" "vc_bitmap vc' = insert c (vc_bitmap vc)"
    "cid_inv vc'" "cid_window vc' = cid_window vc"
proof -
  from GetCid_loop_Some [OF assms(2) [unfolded GetCid_def]] obtain j where
    j: "j < vc_size vc" "c = cid_candidate vc j" "c \<notin> vc_bitmap vc"
    and vc': "vc' = vc\<lparr>vc_bitmap := insert c (vc_bitmap vc), vc_pivot := c + 1\<rparr>" by blast
  show w: "c \<in> cid_window vc" using cid_candidate_window [OF assms(1) j(1)] j(2) by simp
  show "c \<notin> vc_bitmap vc" "vc_bitmap vc' = insert c (vc_bitmap vc)"
    "cid_window vc' = cid_window vc"
    using j(3) vc' by (auto simp: cid_window_def)
  have "unat (c + 1) = Suc (unat c)" using w unat_Suc_less by (auto simp: cid_window_def)
  then show "cid_inv vc'"
    using w assms(1) vc' cid_inv_unat [OF assms(1)]
    by (auto simp: cid_inv_def cid_window_def word_le_nat_alt word_less_nat_alt)
qed

lemma GetCid_None:
  assumes "cid_inv vc" "GetCid vc = (vc', None)"
  shows "vc' = vc" "cid_window vc \<subseteq> vc_bitmap vc"
  using GetCid_loop_None [OF assms(2) [unfolded GetCid_def]] cid_candidate_surj [OF assms(1)]
  by (auto simp: word_le_nat_alt)

section \<open>The interface\<close>

interpretation vsock: unique_allocator GetCid MarkCidInuse ReleaseCid "\<lambda>c. c" vc_bitmap cid_inv
proof (unfold_locales, goal_cases)
  case (1 a a' c)
  then show ?case by (rule GetCid_Some(2))
next
  case (2 a a' c)
  then show ?case by (rule GetCid_Some(3))
next
  case (3 a a' r)
  then show ?case
    by (cases r) (metis GetCid_None(1), metis GetCid_Some(4))
next
  case (4 a a')
  then show ?case by (metis GetCid_None(1))
qed (auto simp: MarkCidInuse_def ReleaseCid_def cid_inv_def)

section \<open>Properties\<close>

text \<open>
  C8: \<^verbatim>\<open>GetCid\<close> fails exactly when every id of the window is in use; otherwise it returns an id of
  the window that was free, marks it, moves the pivot behind it and keeps the window, and no id
  that the cyclic search passes on its way from the pivot was free.
\<close>

theorem GetCid_correct:
  assumes "cid_inv vc"
  shows "case GetCid vc of
      (vc', None) \<Rightarrow> vc' = vc \<and> cid_window vc \<subseteq> vc_bitmap vc
    | (vc', Some c) \<Rightarrow>
        c \<in> cid_window vc - vc_bitmap vc \<and> vc_bitmap vc' = insert c (vc_bitmap vc) \<and>
        vc_pivot vc' = c + 1 \<and> cid_inv vc' \<and> cid_window vc' = cid_window vc \<and>
        (\<exists>j < vc_size vc. c = cid_candidate vc j \<and>
           (\<forall>k < j. cid_candidate vc k \<in> vc_bitmap vc))"
proof (cases "GetCid vc")
  case (Pair vc' r)
  show ?thesis
  proof (cases r)
    case None
    with Pair GetCid_None [OF assms, of vc'] show ?thesis by simp
  next
    case (Some c)
    with Pair have get: "GetCid vc = (vc', Some c)" by simp
    with GetCid_loop_Some [of vc 0 vc' c] GetCid_Some [OF assms get] Pair Some
    show ?thesis by (auto simp: GetCid_def)
  qed
qed

theorem GetCid_correct_witness:
  "cid_inv NewDefaultVsockCidAllocator \<and>
   snd (GetCid NewDefaultVsockCidAllocator) = Some 1024 \<and>
   (1024 :: uint32) \<in> cid_window NewDefaultVsockCidAllocator"
proof -
  have get: "snd (GetCid NewDefaultVsockCidAllocator) = Some 1024"
    by (simp add: GetCid_def GetCid_loop.simps cid_candidate_def NewDefaultVsockCidAllocator_def
        hyperDefaultVsockCid_def hyperDefaultVsockBitmapSize_def)
  show ?thesis
    using GetCid_correct [OF cid_inv_New] get cid_inv_New
    by (auto split: prod.splits)
qed

text \<open>
  C7: however sandboxes start, are reloaded from their persisted id and close, the vsock ids of
  the sandboxes that are alive are pairwise distinct and all marked in the allocator.
\<close>

theorem live_cids_distinct:
  assumes "vsock.run (NewDefaultVsockCidAllocator, []) es (vc, live)"
  shows "distinct live \<and> set live \<subseteq> vc_bitmap vc"
  using vsock.live_distinct [OF cid_inv_New assms] by simp

theorem live_cids_distinct_witness:
  "\<exists>vc. vsock.run (NewDefaultVsockCidAllocator, []) [Acquire, Acquire, Drop 1024, Claim 7]
     (vc, [7, 1025]) \<and> {7, 1025} \<subseteq> vc_bitmap vc"
proof -
  let ?a = "\<lambda>b p. \<lparr>vc_bitmap = b, vc_start = 1024, vc_size = 16384, vc_pivot = p\<rparr>"
  have new: "NewDefaultVsockCidAllocator = ?a {} 1024"
    by (simp add: NewDefaultVsockCidAllocator_def hyperDefaultVsockCid_def
        hyperDefaultVsockBitmapSize_def)
  have run: "vsock.run (NewDefaultVsockCidAllocator, [])
      [Acquire, Acquire, Drop 1024, Claim 7] (?a {7, 1025} 1026, [7, 1025])"
    unfolding new
  proof (intro vsock.run_Cons vsock.run_Nil)
    show "vsock.step (?a {} 1024, []) Acquire (?a {1024} 1025, [1024])"
      by (rule vsock.acquire) (simp add: GetCid_def GetCid_loop.simps cid_candidate_def)
    show "vsock.step (?a {1024} 1025, [1024]) Acquire (?a {1025, 1024} 1026, [1025, 1024])"
      by (rule vsock.acquire) (simp add: GetCid_def GetCid_loop.simps cid_candidate_def)
    show "vsock.step (?a {1025, 1024} 1026, [1025, 1024]) (Drop 1024) (?a {1025} 1026, [1025])"
      using vsock.drop [of 1024 "[1025, 1024]" "?a {1025, 1024} 1026"]
      by (simp add: ReleaseCid_def insert_Diff_if)
    show "vsock.step (?a {1025} 1026, [1025]) (Claim 7) (?a {7, 1025} 1026, [7, 1025])"
      by (rule vsock.claim) (simp add: MarkCidInuse_def)
  qed (rule vsock.run_Nil)
  then show ?thesis using live_cids_distinct [OF run] by auto
qed

end
