(* ===== verification/Utf8.thy ===== *)
theory Utf8
  imports Runv_Prelude
begin

text \<open>
  What the source uses of Go's UTF-8 handling: \<^verbatim>\<open>utf8.DecodeRune\<close>, ranging over a string,
  \<^verbatim>\<open>bytes.IndexAny\<close>, and the conversion of a string to its runes. An invalid byte decodes to
  the replacement rune with width 1.
\<close>

type_synonym rune = nat

definition RuneError :: rune where
  "RuneError = 65533"

definition cont_byte :: "byte \<Rightarrow> bool" where
  "cont_byte b \<longleftrightarrow> 128 \<le> unat b \<and> unat b \<le> 191"

text \<open>The range of the second byte that a first byte of a three or four byte rune admits.\<close>

definition second_ok :: "nat \<Rightarrow> nat \<Rightarrow> bool" where
  "second_ok b0 b1 =
     (if b0 = 224 then 160 \<le> b1 \<and> b1 \<le> 191
      else if b0 = 237 then 128 \<le> b1 \<and> b1 \<le> 159
      else if b0 = 240 then 144 \<le> b1 \<and> b1 \<le> 191
      else if b0 = 244 then 128 \<le> b1 \<and> b1 \<le> 143
      else 128 \<le> b1 \<and> b1 \<le> 191)"

text \<open>\<^verbatim>\<open>utf8.DecodeRune\<close>: the rune and its width.\<close>

fun DecodeRune :: "byte list \<Rightarrow> rune \<times> nat" where
  "DecodeRune [] = (RuneError, 0)"
| "DecodeRune (b # bs) =
     (let b0 = unat b in
      if b0 < 128 then (b0, 1)
      else if 194 \<le> b0 \<and> b0 \<le> 223 then
        (case bs of c1 # _ \<Rightarrow>
           if cont_byte c1 then ((b0 mod 32) * 64 + unat c1 mod 64, 2) else (RuneError, 1)
         | _ \<Rightarrow> (RuneError, 1))
      else if 224 \<le> b0 \<and> b0 \<le> 239 then
        (case bs of c1 # c2 # _ \<Rightarrow>
           if second_ok b0 (unat c1) \<and> cont_byte c2
           then ((b0 mod 16) * 4096 + (unat c1 mod 64) * 64 + unat c2 mod 64, 3)
           else (RuneError, 1)
         | _ \<Rightarrow> (RuneError, 1))
      else if 240 \<le> b0 \<and> b0 \<le> 244 then
        (case bs of c1 # c2 # c3 # _ \<Rightarrow>
           if second_ok b0 (unat c1) \<and> cont_byte c2 \<and> cont_byte c3
           then ((b0 mod 8) * 262144 + (unat c1 mod 64) * 4096 + (unat c2 mod 64) * 64
                 + unat c3 mod 64, 4)
           else (RuneError, 1)
         | _ \<Rightarrow> (RuneError, 1))
      else (RuneError, 1))"

lemma DecodeRune_width_pos: "bs \<noteq> [] \<Longrightarrow> 0 < snd (DecodeRune bs)"
  by (cases bs) (auto simp: Let_def split: list.splits)

lemma DecodeRune_width_le: "snd (DecodeRune bs) \<le> length bs"
  by (cases bs) (auto simp: Let_def split: list.splits)

lemma DecodeRune_shrinks: "(r, w) = DecodeRune bs \<Longrightarrow> bs \<noteq> [] \<Longrightarrow> length bs - w < length bs"
  using DecodeRune_width_pos [of bs] by (metis diff_less length_greater_0_conv snd_conv)

lemma DecodeRune_ascii [simp]: "unat b < 128 \<Longrightarrow> DecodeRune (b # bs) = (unat b, 1)"
  by simp

lemma DecodeRune_255 [simp]: "DecodeRune (255 # bs) = (RuneError, 1)"
  by simp

text \<open>\<^verbatim>\<open>[]rune(s)\<close>: the runes of a string in order.\<close>

function runes :: "byte list \<Rightarrow> rune list" where
  "runes bs = (if bs = [] then [] else
     (let (r, w) = DecodeRune bs in r # runes (drop w bs)))"
  by pat_completeness auto
termination
  by (relation "measure length") (auto dest: DecodeRune_shrinks)

declare runes.simps [simp del]

text \<open>
  \<^verbatim>\<open>bytes.IndexAny(s, chars)\<close> with the runes of \<open>chars\<close>: the byte index of the first rune of
  \<open>s\<close> that is among them.
\<close>

function IndexAny :: "byte list \<Rightarrow> rune set \<Rightarrow> nat option" where
  "IndexAny s chars = (if s = [] then None else
     (let (r, w) = DecodeRune s in
      if r \<in> chars then Some 0 else map_option (\<lambda>i. w + i) (IndexAny (drop w s) chars)))"
  by pat_completeness auto
termination
  by (relation "measure (\<lambda>(s, c). length s)") (auto dest: DecodeRune_shrinks)

declare IndexAny.simps [simp del]

end
