(* ===== verification/Telnet.thy ===== *)
theory Telnet
  imports Utf8
begin

text \<open>
  The telnet connection of \<^verbatim>\<open>lib/telnet/conn.go\<close>, which the console watcher reads the guest
  console through. The peer is a list of chunks, one per \<^verbatim>\<open>Read\<close> of the underlying
  connection, with end of file behind the last; \<^verbatim>\<open>bufio.Reader\<close> holds the unread bytes of
  the current chunk. Writing sends bytes until the peer's budget is used up, when the write fails
  with the number of bytes it could send.
\<close>

section \<open>The underlying connection\<close>

datatype tn_error = EOF | WriteFailed | UnknownCommand byte

definition CR :: byte where "CR = 13"
definition LF :: byte where "LF = 10"
definition cmdGA :: byte where "cmdGA = 249"
definition cmdWill :: byte where "cmdWill = 251"
definition cmdWont :: byte where "cmdWont = 252"
definition cmdDo :: byte where "cmdDo = 253"
definition cmdDont :: byte where "cmdDont = 254"
definition cmdIAC :: byte where "cmdIAC = 255"
definition optEcho :: byte where "optEcho = 1"
definition optSuppressGoAhead :: byte where "optSuppressGoAhead = 3"

lemmas tn_consts = CR_def LF_def cmdGA_def cmdWill_def cmdWont_def cmdDo_def cmdDont_def
  cmdIAC_def optEcho_def optSuppressGoAhead_def

record tn_conn =
  tn_buf :: "byte list"
  tn_chunks :: "byte list list"
  tn_out :: "byte list"
  tn_budget :: "nat option"
  unixWriteMode :: bool
  cliSuppressGoAhead :: bool
  cliEcho :: bool

definition NewConn :: "byte list list \<Rightarrow> nat option \<Rightarrow> tn_conn" where
  "NewConn chunks budget =
     \<lparr>tn_buf = [], tn_chunks = chunks, tn_out = [], tn_budget = budget,
      unixWriteMode = False, cliSuppressGoAhead = False, cliEcho = False\<rparr>"

definition SetUnixWriteMode :: "bool \<Rightarrow> tn_conn \<Rightarrow> tn_conn" where
  "SetUnixWriteMode uwm c = c\<lparr>unixWriteMode := uwm\<rparr>"

text \<open>All bytes the peer has still to deliver.\<close>

definition tn_input :: "tn_conn \<Rightarrow> byte list" where
  "tn_input c = tn_buf c @ concat (tn_chunks c)"

text \<open>\<^verbatim>\<open>bufio.Reader.ReadByte\<close>: refill the buffer with the next non-empty chunk when it is empty.\<close>

fun refill :: "byte list \<Rightarrow> byte list list \<Rightarrow> byte list \<times> byte list list" where
  "refill [] (ch # chs) = refill ch chs"
| "refill buf chs = (buf, chs)"

definition r_ReadByte :: "tn_conn \<Rightarrow> tn_conn \<times> (tn_error + byte)" where
  "r_ReadByte c =
     (case refill (tn_buf c) (tn_chunks c) of
        ([], chs) \<Rightarrow> (c\<lparr>tn_buf := [], tn_chunks := chs\<rparr>, Inl EOF)
      | (b # bs, chs) \<Rightarrow> (c\<lparr>tn_buf := bs, tn_chunks := chs\<rparr>, Inr b))"

text \<open>\<^verbatim>\<open>net.Conn.Write\<close>: the connection, the number of bytes sent, the error.\<close>

definition conn_Write :: "byte list \<Rightarrow> tn_conn \<Rightarrow> tn_conn \<times> nat \<times> tn_error option" where
  "conn_Write bs c =
     (case tn_budget c of
        None \<Rightarrow> (c\<lparr>tn_out := tn_out c @ bs\<rparr>, length bs, None)
      | Some k \<Rightarrow>
          if length bs \<le> k
          then (c\<lparr>tn_out := tn_out c @ bs, tn_budget := Some (k - length bs)\<rparr>, length bs, None)
          else (c\<lparr>tn_out := tn_out c @ take k bs, tn_budget := Some 0\<rparr>, k, Some WriteFailed))"

section \<open>Option negotiation\<close>

definition tn_send :: "byte \<Rightarrow> byte \<Rightarrow> tn_conn \<Rightarrow> tn_conn \<times> tn_error option" where
  "tn_send cmd option c = (let (c', _, err) = conn_Write [cmdIAC, cmd, option] c in (c', err))"

definition tn_do :: "byte \<Rightarrow> tn_conn \<Rightarrow> tn_conn \<times> tn_error option" where
  "tn_do option c = tn_send cmdDo option c"

definition tn_dont :: "byte \<Rightarrow> tn_conn \<Rightarrow> tn_conn \<times> tn_error option" where
  "tn_dont option c = tn_send cmdDont option c"

definition tn_will :: "byte \<Rightarrow> tn_conn \<Rightarrow> tn_conn \<times> tn_error option" where
  "tn_will option c = tn_send cmdWill option c"

definition tn_wont :: "byte \<Rightarrow> tn_conn \<Rightarrow> tn_conn \<times> tn_error option" where
  "tn_wont option c = tn_send cmdWont option c"

definition SetEcho :: "bool \<Rightarrow> tn_conn \<Rightarrow> tn_conn \<times> tn_error option" where
  "SetEcho echo c = (if echo then tn_do optEcho c else tn_dont optEcho c)"

text \<open>The answer to command \<open>cmd\<close> for option \<open>o\<close>, once the option byte is read.\<close>

definition cmd_option :: "byte \<Rightarrow> byte \<Rightarrow> tn_conn \<Rightarrow> tn_conn \<times> tn_error option" where
  "cmd_option cmd opt c =
     (if opt = optEcho then
        (if cmd = cmdDo then
           (if \<not> cliEcho c then tn_will opt (c\<lparr>cliEcho := True\<rparr>) else (c, None))
         else if cmd = cmdDont then
           (if cliEcho c then tn_wont opt (c\<lparr>cliEcho := False\<rparr>) else (c, None))
         else if cmd = cmdWill then tn_do opt c
         else if cmd = cmdWont then tn_dont opt c
         else (c, None))
      else if opt = optSuppressGoAhead then
        (if cmd = cmdDo then
           (if \<not> cliSuppressGoAhead c then tn_will opt (c\<lparr>cliSuppressGoAhead := True\<rparr>) else (c, None))
         else if cmd = cmdDont then
           (if cliSuppressGoAhead c then tn_wont opt (c\<lparr>cliSuppressGoAhead := False\<rparr>) else (c, None))
         else if cmd = cmdWill then tn_do opt c
         else if cmd = cmdWont then tn_dont opt c
         else (c, None))
      else
        (if cmd = cmdDo then tn_wont opt c
         else if cmd = cmdDont then (c, None)
         else if cmd = cmdWill \<or> cmd = cmdWont then tn_dont opt c
         else (c, None)))"

definition tn_cmd :: "byte \<Rightarrow> tn_conn \<Rightarrow> tn_conn \<times> tn_error option" where
  "tn_cmd cmd c =
     (if cmd = cmdGA then (c, None)
      else if cmd \<notin> {cmdDo, cmdDont, cmdWill, cmdWont} then (c, Some (UnknownCommand cmd))
      else (case r_ReadByte c of
              (c', Inl e) \<Rightarrow> (c', Some e)
            | (c', Inr opt) \<Rightarrow> cmd_option cmd opt c'))"

section \<open>Reading\<close>

text \<open>
  \<^verbatim>\<open>tryReadByte\<close>: an error, a byte of data, or \<open>Inr None\<close> to ask the caller to retry after a
  command has been handled.
\<close>

definition tryReadByte :: "tn_conn \<Rightarrow> tn_conn \<times> (tn_error + byte option)" where
  "tryReadByte c =
     (case r_ReadByte c of
        (c1, Inl e) \<Rightarrow> (c1, Inl e)
      | (c1, Inr b) \<Rightarrow>
          if b \<noteq> cmdIAC then (c1, Inr (Some b))
          else (case r_ReadByte c1 of
                  (c2, Inl e) \<Rightarrow> (c2, Inl e)
                | (c2, Inr b2) \<Rightarrow>
                    if b2 \<noteq> cmdIAC then
                      (case tn_cmd b2 c2 of
                         (c3, Some e) \<Rightarrow> (c3, Inl e)
                       | (c3, None) \<Rightarrow> (c3, Inr None))
                    else (c2, Inr (Some b2))))"

lemma refill_eq: "refill buf chs = (b, cs) \<Longrightarrow> b @ concat cs = buf @ concat chs"
  by (induction buf chs rule: refill.induct) auto

lemma refill_Nil: "refill buf chs = ([], cs) \<Longrightarrow> cs = [] \<and> buf = [] \<and> concat chs = []"
  by (induction buf chs rule: refill.induct) auto

lemma r_ReadByte_Inr:
  "r_ReadByte c = (c', Inr b) \<Longrightarrow> tn_input c = b # tn_input c'"
  using refill_eq [of "tn_buf c" "tn_chunks c"]
  by (auto simp: r_ReadByte_def tn_input_def split: prod.splits list.splits)

lemma r_ReadByte_Inl:
  "r_ReadByte c = (c', Inl e) \<Longrightarrow> tn_input c = [] \<and> tn_input c' = [] \<and> e = EOF"
  using refill_Nil [of "tn_buf c" "tn_chunks c"]
  by (auto simp: r_ReadByte_def tn_input_def split: prod.splits list.splits)

lemma r_ReadByte_frame:
  "r_ReadByte c = (c', r) \<Longrightarrow> tn_out c' = tn_out c \<and> tn_budget c' = tn_budget c \<and>
     cliEcho c' = cliEcho c \<and> cliSuppressGoAhead c' = cliSuppressGoAhead c \<and>
     unixWriteMode c' = unixWriteMode c"
  by (auto simp: r_ReadByte_def split: prod.splits list.splits)

lemma conn_Write_input [simp]: "tn_input (fst (conn_Write bs c)) = tn_input c"
  by (auto simp: conn_Write_def tn_input_def split: option.splits)

lemma tn_send_input [simp]: "tn_input (fst (tn_send k opt c)) = tn_input c"
  by (simp add: tn_send_def case_prod_beta)

lemma tn_input_flags [simp]:
  "tn_input (c\<lparr>cliEcho := x\<rparr>) = tn_input c"
  "tn_input (c\<lparr>cliSuppressGoAhead := x\<rparr>) = tn_input c"
  by (auto simp: tn_input_def)

lemma cmd_option_input [simp]: "tn_input (fst (cmd_option k opt c)) = tn_input c"
  by (simp add: cmd_option_def tn_do_def tn_dont_def tn_will_def tn_wont_def)

lemma tn_cmd_input: "length (tn_input (fst (tn_cmd k c))) \<le> length (tn_input c)"
proof (cases "r_ReadByte c")
  case (Pair c' r)
  then show ?thesis
    using r_ReadByte_Inr [of c c'] r_ReadByte_Inl [of c c']
    by (cases r) (auto simp: tn_cmd_def)
qed

lemma tryReadByte_shrinks:
  assumes "tryReadByte c = (c', Inr r)"
  shows "length (tn_input c') < length (tn_input c)"
proof -
  obtain c1 b where b: "r_ReadByte c = (c1, Inr b)"
    using assms by (auto simp: tryReadByte_def split: prod.splits sum.splits)
  note l1 = r_ReadByte_Inr [OF b]
  show ?thesis
  proof (cases "b = cmdIAC")
    case False
    then show ?thesis using assms b l1 by (auto simp: tryReadByte_def)
  next
    case True
    then obtain c2 b2 where b2: "r_ReadByte c1 = (c2, Inr b2)"
      using assms b by (auto simp: tryReadByte_def split: prod.splits sum.splits)
    note l2 = r_ReadByte_Inr [OF b2]
    show ?thesis
      using assms b b2 True l1 l2 tn_cmd_input [of b2 c2]
      by (auto simp: tryReadByte_def split: prod.splits option.splits if_splits)
  qed
qed

function tn_ReadByte :: "tn_conn \<Rightarrow> tn_conn \<times> (tn_error + byte)" where
  "tn_ReadByte c =
     (case tryReadByte c of
        (c', Inl e) \<Rightarrow> (c', Inl e)
      | (c', Inr (Some b)) \<Rightarrow> (c', Inr b)
      | (c', Inr None) \<Rightarrow> tn_ReadByte c')"
  by pat_completeness auto
termination
  by (relation "measure (length \<circ> tn_input)") (auto dest: tryReadByte_shrinks [OF sym])

declare tn_ReadByte.simps [simp del]

lemma tn_ReadByte_shrinks:
  "tn_ReadByte c = (c', Inr b) \<Longrightarrow> length (tn_input c') < length (tn_input c)"
proof (induction c rule: tn_ReadByte.induct)
  case (1 c)
  obtain c1 r where t: "tryReadByte c = (c1, r)" by force
  show ?case
  proof (cases r)
    case (Inl e)
    with t "1.prems" show ?thesis by (simp add: tn_ReadByte.simps [of c])
  next
    case (Inr o')
    with t tryReadByte_shrinks have less: "length (tn_input c1) < length (tn_input c)" by blast
    show ?thesis
      using "1.prems" "1.IH" [OF t [symmetric] Inr] t Inr less
      by (cases o') (auto simp: tn_ReadByte.simps [of c])
  qed
qed

text \<open>\<^verbatim>\<open>Read\<close> into a buffer of \<open>k\<close> bytes: the bytes stored and the error.\<close>

fun tn_Read :: "nat \<Rightarrow> byte list \<Rightarrow> tn_conn \<Rightarrow> tn_conn \<times> byte list \<times> tn_error option" where
  "tn_Read 0 acc c = (c, acc, None)"
| "tn_Read (Suc k) acc c =
     (case tn_ReadByte c of
        (c', Inl e) \<Rightarrow> (c', acc, Some e)
      | (c', Inr b) \<Rightarrow>
          if tn_buf c' = [] then (c', acc @ [b], None) else tn_Read k (acc @ [b]) c')"

function tn_ReadBytes :: "byte \<Rightarrow> byte list \<Rightarrow> tn_conn \<Rightarrow> tn_conn \<times> (tn_error + byte list)" where
  "tn_ReadBytes delim line c =
     (case tn_ReadByte c of
        (c', Inl e) \<Rightarrow> (c', Inl e)
      | (c', Inr b) \<Rightarrow>
          if b = delim then (c', Inr (line @ [b])) else tn_ReadBytes delim (line @ [b]) c')"
  by pat_completeness auto
termination
  by (relation "measure (\<lambda>(d, l, c). length (tn_input c))") (auto dest: tn_ReadByte_shrinks [OF sym])

declare tn_ReadBytes.simps [simp del]

function SkipBytes :: "byte \<Rightarrow> tn_conn \<Rightarrow> tn_conn \<times> tn_error option" where
  "SkipBytes delim c =
     (case tn_ReadByte c of
        (c', Inl e) \<Rightarrow> (c', Some e)
      | (c', Inr b) \<Rightarrow> if b = delim then (c', None) else SkipBytes delim c')"
  by pat_completeness auto
termination
  by (relation "measure (\<lambda>(d, c). length (tn_input c))") (auto dest: tn_ReadByte_shrinks [OF sym])

declare SkipBytes.simps [simp del]

text \<open>
  One round of \<^verbatim>\<open>readUntil\<close> over the delimiters: \<open>p\<close> holds what is left to match of each; the
  index of the first delimiter that is complete, or the new \<open>p\<close>.
\<close>

fun match_step :: "byte list list \<Rightarrow> byte list list \<Rightarrow> byte \<Rightarrow> nat \<Rightarrow> nat + byte list list" where
  "match_step (d # ds) ((x # s) # ps) b i =
     (if x = b then (if s = [] then Inl i else map_sum id ((#) s) (match_step ds ps b (Suc i)))
      else map_sum id ((#) d) (match_step ds ps b (Suc i)))"
| "match_step _ _ b i = Inr []"

function readUntil_loop ::
  "bool \<Rightarrow> byte list list \<Rightarrow> byte list list \<Rightarrow> byte list \<Rightarrow> tn_conn
   \<Rightarrow> tn_conn \<times> (tn_error + byte list \<times> nat)" where
  "readUntil_loop rd delims p line c =
     (case tn_ReadByte c of
        (c', Inl e) \<Rightarrow> (c', Inl e)
      | (c', Inr b) \<Rightarrow>
          (let line' = (if rd then line @ [b] else line) in
           case match_step delims p b 0 of
             Inl i \<Rightarrow> (c', Inr (line', i))
           | Inr p' \<Rightarrow> readUntil_loop rd delims p' line' c'))"
  by pat_completeness auto
termination
  by (relation "measure (\<lambda>(r, d, p, l, c). length (tn_input c))")
    (auto dest: tn_ReadByte_shrinks [OF sym])

declare readUntil_loop.simps [simp del]

definition readUntil ::
  "bool \<Rightarrow> byte list list \<Rightarrow> tn_conn \<Rightarrow> tn_conn \<times> (tn_error + byte list \<times> nat)" where
  "readUntil rd delims c =
     (if delims = [] \<or> [] \<in> set delims then (c, Inr ([], 0))
      else readUntil_loop rd delims delims [] c)"

definition ReadUntilIndex :: "byte list list \<Rightarrow> tn_conn \<Rightarrow> tn_conn \<times> (tn_error + byte list \<times> nat)" where
  "ReadUntilIndex delims c = readUntil True delims c"

definition ReadUntil :: "byte list list \<Rightarrow> tn_conn \<Rightarrow> tn_conn \<times> (tn_error + byte list)" where
  "ReadUntil delims c = apsnd (map_sum id fst) (readUntil True delims c)"

definition SkipUntilIndex :: "byte list list \<Rightarrow> tn_conn \<Rightarrow> tn_conn \<times> (tn_error + nat)" where
  "SkipUntilIndex delims c = apsnd (map_sum id snd) (readUntil False delims c)"

section \<open>Writing\<close>

definition write_search :: "tn_conn \<Rightarrow> rune set" where
  "write_search c = (if unixWriteMode c then {RuneError, 10} else {RuneError})"

lemma IndexAny_less: "IndexAny s chars = Some i \<Longrightarrow> i < length s"
proof (induction s chars arbitrary: i rule: IndexAny.induct)
  case (1 s chars)
  obtain r w where rw: "DecodeRune s = (r, w)" by force
  show ?case
  proof (cases "s = [] \<or> r \<in> chars")
    case True
    with "1.prems" rw show ?thesis by (auto simp: IndexAny.simps [of s chars] split: if_splits)
  next
    case False
    then obtain j where j: "IndexAny (drop w s) chars = Some j" and i: "i = w + j"
      using "1.prems" rw by (auto simp: IndexAny.simps [of s chars])
    from "1.IH" [OF _ rw [symmetric] refl _ j] False have "j < length s - w" by simp
    with i show ?thesis by linarith
  qed
qed

text \<open>
  \<^verbatim>\<open>Write\<close>, from the iteration with \<open>buf\<close> left to write and \<open>n\<close> bytes counted. A byte the
  search stops at that is neither a line feed nor IAC is not written, and \<open>k\<close> still holds
  the count of the write before.
\<close>

function tn_Write_loop :: "rune set \<Rightarrow> byte list \<Rightarrow> nat \<Rightarrow> tn_conn \<Rightarrow> tn_conn \<times> nat \<times> tn_error option" where
  "tn_Write_loop search buf n c =
     (if buf = [] then (c, n, None) else
      (case IndexAny buf search of
         None \<Rightarrow> (case conn_Write buf c of (c1, k, err) \<Rightarrow> (c1, n + k, err))
       | Some i \<Rightarrow>
           (case conn_Write (take i buf) c of
              (c1, k, Some e) \<Rightarrow> (c1, n + k, Some e)
            | (c1, k, None) \<Rightarrow>
                (case (if buf ! i = LF then conn_Write [CR, LF] c1
                       else if buf ! i = cmdIAC then conn_Write [cmdIAC, cmdIAC] c1
                       else (c1, k, None)) of
                   (c2, k2, Some e) \<Rightarrow> (c2, n + k + k2, Some e)
                 | (c2, k2, None) \<Rightarrow> tn_Write_loop search (drop (Suc i) buf) (n + k + k2) c2))))"
  by pat_completeness auto
termination
  by (relation "measure (\<lambda>(s, buf, n, c). length buf)") (auto dest: IndexAny_less)

declare tn_Write_loop.simps [simp del]

definition tn_Write :: "byte list \<Rightarrow> tn_conn \<Rightarrow> tn_conn \<times> nat \<times> tn_error option" where
  "tn_Write buf c = tn_Write_loop (write_search c) buf 0 c"

section \<open>What the reader sees\<close>

lemma r_ReadByte_input:
  "tn_input c = b # rest \<Longrightarrow> \<exists>c'. r_ReadByte c = (c', Inr b) \<and> tn_input c' = rest"
  using r_ReadByte_Inr [of c] r_ReadByte_Inl [of c]
  by (cases "r_ReadByte c"; cases "snd (r_ReadByte c)") auto

lemma r_ReadByte_EOF:
  "tn_input c = [] \<Longrightarrow> \<exists>c'. r_ReadByte c = (c', Inl EOF) \<and> tn_input c' = []"
  using r_ReadByte_Inr [of c] r_ReadByte_Inl [of c]
  by (cases "r_ReadByte c"; cases "snd (r_ReadByte c)") auto

lemma tn_ReadByte_plain:
  assumes "tn_input c = b # rest" "b \<noteq> cmdIAC"
  shows "\<exists>c'. tn_ReadByte c = (c', Inr b) \<and> tn_input c' = rest"
  using r_ReadByte_input [OF assms(1)] assms(2)
  by (auto simp: tn_ReadByte.simps [of c] tryReadByte_def)

lemma tn_ReadByte_IAC:
  assumes "tn_input c = cmdIAC # cmdIAC # rest"
  shows "\<exists>c'. tn_ReadByte c = (c', Inr cmdIAC) \<and> tn_input c' = rest"
proof -
  obtain c1 where c1: "r_ReadByte c = (c1, Inr cmdIAC)" "tn_input c1 = cmdIAC # rest"
    using r_ReadByte_input [OF assms] by blast
  obtain c2 where c2: "r_ReadByte c1 = (c2, Inr cmdIAC)" "tn_input c2 = rest"
    using r_ReadByte_input [OF c1(2)] by blast
  show ?thesis using c1 c2 by (simp add: tn_ReadByte.simps [of c] tryReadByte_def)
qed

lemma tn_ReadByte_EOF:
  "tn_input c = [] \<Longrightarrow> \<exists>c'. tn_ReadByte c = (c', Inl EOF)"
  using r_ReadByte_EOF [of c] by (auto simp: tn_ReadByte.simps [of c] tryReadByte_def)

text \<open>Reading bytes until the connection reports an error: the data and the error.\<close>

function drain :: "tn_conn \<Rightarrow> byte list \<times> tn_error" where
  "drain c = (case tn_ReadByte c of
      (c', Inl e) \<Rightarrow> ([], e)
    | (c', Inr b) \<Rightarrow> apfst ((#) b) (drain c'))"
  by pat_completeness auto
termination
  by (relation "measure (length \<circ> tn_input)") (auto dest: tn_ReadByte_shrinks [OF sym])

declare drain.simps [simp del]

text \<open>Doubling every IAC byte, the telnet encoding of binary data.\<close>

definition iac_escape :: "byte list \<Rightarrow> byte list" where
  "iac_escape data = concat (map (\<lambda>b. if b = cmdIAC then [cmdIAC, cmdIAC] else [b]) data)"

lemma iac_escape_simps [simp]:
  "iac_escape [] = []"
  "iac_escape (b # bs) = (if b = cmdIAC then [cmdIAC, cmdIAC] else [b]) @ iac_escape bs"
  "iac_escape (xs @ ys) = iac_escape xs @ iac_escape ys"
  by (auto simp: iac_escape_def)

lemma drain_escape: "tn_input c = iac_escape data \<Longrightarrow> drain c = (data, EOF)"
proof (induction data arbitrary: c)
  case Nil
  then show ?case using tn_ReadByte_EOF [of c] by (auto simp: drain.simps [of c])
next
  case (Cons b data)
  have "\<exists>c'. tn_ReadByte c = (c', Inr b) \<and> tn_input c' = iac_escape data"
    using Cons.prems tn_ReadByte_IAC [of c] tn_ReadByte_plain [of c b]
    by (cases "b = cmdIAC") auto
  then show ?case using Cons.IH by (auto simp: drain.simps [of c])
qed

section \<open>What the writer sends\<close>

text \<open>Data in which the search of \<^verbatim>\<open>Write\<close> stops only at IAC: ASCII and IAC bytes.\<close>

definition ascii_or_iac :: "byte list \<Rightarrow> bool" where
  "ascii_or_iac data \<longleftrightarrow> list_all (\<lambda>b. unat b < 128 \<or> b = cmdIAC) data"

lemma IndexAny_ascii_Cons:
  "unat b < 128 \<Longrightarrow> IndexAny (b # bs) {RuneError} = map_option Suc (IndexAny bs {RuneError})"
  by (subst IndexAny.simps) (cases "IndexAny bs {RuneError}"; simp add: RuneError_def)

lemma IndexAny_iac_Cons: "IndexAny (cmdIAC # bs) {RuneError} = Some 0"
  by (subst IndexAny.simps) (simp add: cmdIAC_def del: DecodeRune.simps)

lemma IndexAny_clean_None:
  "ascii_or_iac buf \<Longrightarrow> IndexAny buf {RuneError} = None \<Longrightarrow> iac_escape buf = buf"
proof (induction buf)
  case (Cons b bs)
  then show ?case
    by (cases "b = cmdIAC")
      (auto simp: ascii_or_iac_def IndexAny_ascii_Cons IndexAny_iac_Cons)
qed simp

lemma IndexAny_clean_Some:
  "ascii_or_iac buf \<Longrightarrow> IndexAny buf {RuneError} = Some i \<Longrightarrow>
   buf ! i = cmdIAC \<and> iac_escape (take i buf) = take i buf"
proof (induction buf arbitrary: i)
  case (Cons b bs)
  then show ?case
    by (cases "b = cmdIAC")
      (auto simp: ascii_or_iac_def IndexAny_ascii_Cons IndexAny_iac_Cons)
qed (simp add: IndexAny.simps)

lemma ascii_or_iac_drop: "ascii_or_iac buf \<Longrightarrow> ascii_or_iac (drop k buf)"
  by (auto simp: ascii_or_iac_def list_all_iff dest: in_set_dropD)

lemma iac_escape_split:
  assumes "ascii_or_iac buf" "IndexAny buf {RuneError} = Some i"
  shows "iac_escape buf = take i buf @ [cmdIAC, cmdIAC] @ iac_escape (drop (Suc i) buf)"
proof -
  have i: "i < length buf" using assms(2) by (rule IndexAny_less)
  have "iac_escape buf = iac_escape (take i buf @ buf ! i # drop (Suc i) buf)"
    using i by (simp add: id_take_nth_drop [symmetric])
  then show ?thesis using IndexAny_clean_Some [OF assms] by simp
qed

lemma tn_Write_clean:
  assumes "ascii_or_iac buf" "tn_budget c = None"
  shows "tn_Write_loop {RuneError} buf n c =
    (c\<lparr>tn_out := tn_out c @ iac_escape buf\<rparr>, n + length (iac_escape buf), None)"
  using assms
proof (induction "{RuneError}" buf n c rule: tn_Write_loop.induct)
  case (1 buf n c)
  show ?case
  proof (cases "IndexAny buf {RuneError}")
    case None
    with "1.prems" show ?thesis
      by (cases "buf = []")
        (simp_all add: tn_Write_loop.simps conn_Write_def IndexAny_clean_None)
  next
    case (Some i)
    have ne: "buf \<noteq> []" and at: "buf ! i = cmdIAC"
      using Some IndexAny_less [OF Some] IndexAny_clean_Some [OF "1.prems"(1) Some] by auto
    have i: "min (length buf) i = i" using IndexAny_less [OF Some] by simp
    show ?thesis
      using "1.hyps" [OF ne Some] "1.prems" ne at Some ascii_or_iac_drop [OF "1.prems"(1), of "Suc i"]
      by (simp add: tn_Write_loop.simps [of _ buf] conn_Write_def iac_escape_split [OF "1.prems"(1) Some]
          i tn_consts)
  qed
qed

section \<open>Delimiters\<close>

text \<open>What \<open>p\<close> keeps of a delimiter is its rest behind a prefix that the line ends with.\<close>

definition partial_match :: "byte list \<Rightarrow> byte list \<Rightarrow> byte list \<Rightarrow> bool" where
  "partial_match line d s \<longleftrightarrow>
     (\<exists>k < length d. s = drop k d \<and> (\<exists>pre. line = pre @ take k d))"

lemma partial_match_start: "d \<noteq> [] \<Longrightarrow> partial_match line d d"
  by (auto simp: partial_match_def intro!: exI [of _ 0])

lemma partial_match_next:
  assumes "partial_match line d (b # s)"
  shows "if s = [] then \<exists>pre. line @ [b] = pre @ d else partial_match (line @ [b]) d s"
proof -
  obtain k pre where k: "k < length d" "b # s = drop k d" "line = pre @ take k d"
    using assms by (auto simp: partial_match_def)
  then have bs: "b = d ! k" "s = drop (Suc k) d"
    by (metis Cons_nth_drop_Suc list.inject)+
  have line: "line @ [b] = pre @ take (Suc k) d"
    using k(1,3) bs(1) by (simp add: take_Suc_conv_app_nth)
  show ?thesis
  proof (cases "s = []")
    case True
    then have "take (Suc k) d = d" using bs(2) by simp
    with line True show ?thesis by auto
  next
    case False
    then have "Suc k < length d" using bs(2) by (metis drop_all leI)
    with line bs(2) False show ?thesis by (auto simp: partial_match_def)
  qed
qed

lemma match_step_Inl:
  "match_step ds p b i = Inl j \<Longrightarrow> list_all2 (partial_match line) ds p \<Longrightarrow>
   i \<le> j \<and> j - i < length ds \<and> (\<exists>pre. line @ [b] = pre @ ds ! (j - i))"
proof (induction ds p b i arbitrary: j rule: match_step.induct)
  case (1 d ds x s ps b i)
  show ?case
  proof (cases "x = b \<and> s = []")
    case True
    with "1.prems" partial_match_next [of line d b s] show ?thesis by auto
  next
    case False
    then have "match_step ds ps b (Suc i) = Inl j"
      using "1.prems"(1) by (auto split: if_splits sum.splits simp: map_sum_def)
    with "1.IH" "1.prems"(2) False
    have "Suc i \<le> j \<and> j - Suc i < length ds \<and> (\<exists>pre. line @ [b] = pre @ ds ! (j - Suc i))"
      by (cases "x = b") auto
    then show ?thesis by (auto simp: nth_Cons' Suc_diff_Suc)
  qed
qed auto

lemma match_step_Inr:
  "match_step ds p b i = Inr p' \<Longrightarrow> list_all2 (partial_match line) ds p \<Longrightarrow>
   list_all2 (partial_match (line @ [b])) ds p'"
proof (induction ds p b i arbitrary: p' rule: match_step.induct)
  case (1 d ds x s ps b i)
  have d: "d \<noteq> []" using "1.prems"(2) by (auto simp: partial_match_def)
  obtain q where q: "match_step ds ps b (Suc i) = Inr q"
    and p': "p' = (if x = b then s else d) # q" "x = b \<Longrightarrow> s \<noteq> []"
    using "1.prems"(1) by (auto split: if_splits sum.splits simp: map_sum_def)
  have "list_all2 (partial_match (line @ [b])) ds q"
    using "1.IH" "1.prems"(2) q p'(2) by (cases "x = b") auto
  with "1.prems"(2) partial_match_next [of line d b s] partial_match_start [OF d] p'
  show ?case by auto
qed (auto simp: partial_match_def list_all2_Cons2)

lemma readUntil_loop_step:
  assumes "tn_input c = b # rest" "b \<noteq> cmdIAC"
  shows "\<exists>c'. tn_input c' = rest \<and> readUntil_loop rd ds p line c =
    (case match_step ds p b 0 of
       Inl i \<Rightarrow> (c', Inr (if rd then line @ [b] else line, i))
     | Inr p' \<Rightarrow> readUntil_loop rd ds p' (if rd then line @ [b] else line) c')"
proof -
  obtain c' where "tn_ReadByte c = (c', Inr b)" "tn_input c' = rest"
    using tn_ReadByte_plain [OF assms] by blast
  then show ?thesis
    by (intro exI [of _ c']) (simp add: readUntil_loop.simps [of rd ds p line c] Let_def)
qed

lemma readUntil_loop_EOF:
  "tn_input c = [] \<Longrightarrow> snd (readUntil_loop rd ds p line c) = Inl EOF"
  using tn_ReadByte_EOF [of c] by (auto simp: readUntil_loop.simps [of rd ds p line c])

lemma tn_input_NewConn [simp]: "tn_input (NewConn chunks budget) = concat chunks"
  by (simp add: tn_input_def NewConn_def)

lemma readUntil_loop_sound:
  "readUntil_loop True ds p line c = (c', Inr (line', i)) \<Longrightarrow>
   list_all2 (partial_match line) ds p \<Longrightarrow> i < length ds \<and> (\<exists>pre. line' = pre @ ds ! i)"
proof (induction True ds p line c rule: readUntil_loop.induct)
  case (1 ds p line c)
  obtain c1 r where r: "tn_ReadByte c = (c1, r)" by force
  show ?case
  proof (cases r)
    case (Inl e)
    with r "1.prems" show ?thesis by (simp add: readUntil_loop.simps [of _ ds p line c])
  next
    case (Inr b)
    show ?thesis
    proof (cases "match_step ds p b 0")
      case (Inl j)
      with r Inr "1.prems" match_step_Inl [OF Inl "1.prems"(2)] show ?thesis
        by (auto simp: readUntil_loop.simps [of _ ds p line c])
    next
      case (Inr q)
      with r \<open>r = Inr b\<close> "1.prems"
      have "readUntil_loop True ds q (line @ [b]) c1 = (c', Inr (line', i))"
        by (simp add: readUntil_loop.simps [of _ ds p line c])
      with "1.hyps" [OF r [symmetric] \<open>r = Inr b\<close> _ Inr, of "line @ [b]"]
        match_step_Inr [OF Inr "1.prems"(2)]
      show ?thesis by simp
    qed
  qed
qed

section \<open>Properties\<close>

text \<open>
  C28: on a connection that takes all its bytes and is not in unix write mode, \<^verbatim>\<open>Write\<close> of data made
  of ASCII and IAC bytes sends the data with every IAC doubled, without error, and a reader whose
  input is what was sent, in whatever chunks it arrives, reads exactly the data back.
\<close>

theorem Write_ReadByte_roundtrip:
  assumes "ascii_or_iac data" "tn_budget c = None" "\<not> unixWriteMode c" "tn_out c = []"
    and "tn_Write data c = (c', n, err)" "concat chunks = tn_out c'"
  shows "err = None \<and> n = length (iac_escape data) \<and> drain (NewConn chunks budget) = (data, EOF)"
proof -
  have "tn_out c' = iac_escape data" "n = length (iac_escape data)" "err = None"
    using assms(3-5) tn_Write_clean [OF assms(1,2), of 0]
    by (auto simp: tn_Write_def write_search_def)
  then show ?thesis using assms(6) drain_escape by simp
qed

theorem Write_ReadByte_roundtrip_witness:
  "drain (NewConn [[104, 255], [], [255, 105]] None) = ([104, 255, 105], EOF)"
proof -
  have "tn_Write [104, 255, 105] (NewConn [] None) =
      (NewConn [] None\<lparr>tn_out := [104, 255, 255, 105]\<rparr>, 4, None)"
    using tn_Write_clean [of "[104, 255, 105]" "NewConn [] None" 0]
    by (simp add: tn_Write_def write_search_def ascii_or_iac_def NewConn_def cmdIAC_def)
  from Write_ReadByte_roundtrip [OF _ _ _ _ this, of "[[104, 255], [], [255, 105]]" None]
  show ?thesis by (simp add: ascii_or_iac_def NewConn_def cmdIAC_def)
qed

text \<open>
  When \<^verbatim>\<open>readUntil\<close> returns with the index of a delimiter, the data it read ends with that
  delimiter.
\<close>

lemma readUntil_sound:
  assumes "delims \<noteq> []" "[] \<notin> set delims" "ReadUntilIndex delims c = (c', Inr (line, i))"
  shows "i < length delims \<and> (\<exists>pre. line = pre @ delims ! i)"
proof -
  have "list_all2 (partial_match []) delims delims"
    using assms(2) by (auto simp: list_all2_conv_all_nth in_set_conv_nth intro!: partial_match_start)
  with assms show ?thesis
    by (auto simp: ReadUntilIndex_def readUntil_def dest: readUntil_loop_sound)
qed

text \<open>
  \<^verbatim>\<open>readUntil\<close> misses a delimiter whose first byte is repeated before it: it restarts the match
  behind the byte that failed instead of at it. Reading \<open>aab\<close> until \<open>ab\<close> runs into the end of the
  input, although the input ends with the delimiter.
\<close>

lemma readUntil_misses:
  assumes "a \<noteq> b" "a \<noteq> cmdIAC" "b \<noteq> cmdIAC" "tn_input c = [a, a, b]"
  shows "snd (ReadUntilIndex [[a, b]] c) = Inl EOF"
proof -
  obtain c1 where c1: "tn_input c1 = [a, b]"
    "readUntil_loop True [[a, b]] [[a, b]] [] c = readUntil_loop True [[a, b]] [[b]] [a] c1"
    using readUntil_loop_step [OF assms(4,2), of True "[[a, b]]" "[[a, b]]" "[]"] by auto
  obtain c2 where c2: "tn_input c2 = [b]"
    "readUntil_loop True [[a, b]] [[b]] [a] c1 = readUntil_loop True [[a, b]] [[a, b]] [a, a] c2"
    using readUntil_loop_step [OF c1(1) assms(2), of True "[[a, b]]" "[[b]]" "[a]"] assms(1) by auto
  obtain c3 where c3: "tn_input c3 = []"
    "readUntil_loop True [[a, b]] [[a, b]] [a, a] c2 = readUntil_loop True [[a, b]] [[a, b]] [a, a, b] c3"
    using readUntil_loop_step [OF c2(1) assms(3), of True "[[a, b]]" "[[a, b]]" "[a, a]"] assms(1)
    by auto
  show ?thesis
    using c1(2) c2(2) c3(2) readUntil_loop_EOF [OF c3(1)]
    by (simp add: ReadUntilIndex_def readUntil_def)
qed

text \<open>
  \<^verbatim>\<open>Write\<close> drops a byte that is not valid UTF-8 on its own and is not IAC: nothing is sent,
  the count is zero and no error is reported.
\<close>

lemma Write_drops_byte:
  assumes "128 \<le> unat b" "b \<noteq> cmdIAC" "tn_budget c = None"
  shows "tn_Write [b] c = (c, 0, None)"
proof -
  have "DecodeRune [b] = (RuneError, 1)" using assms(1) by (auto simp: Let_def)
  then have "IndexAny [b] (write_search c) = Some 0"
    by (subst IndexAny.simps) (simp add: write_search_def del: DecodeRune.simps)
  moreover have "b \<noteq> LF" using assms(1) by (auto simp: LF_def)
  ultimately show ?thesis
    using assms(2,3) by (simp add: tn_Write_def tn_Write_loop.simps conn_Write_def)
qed

end
