(* ===== verification/BytesPipe.thy ===== *)
theory BytesPipe
  imports Runv_Prelude
begin

text \<open>
  The byte pipe of \<^verbatim>\<open>lib/utils/buffer.go\<close> and \<^verbatim>\<open>lib/utils/bytespipe.go\<close>, which carries
  the output of a container process from the agent to its reader. A \<^verbatim>\<open>fixedBuffer\<close> is its
  backing array (of \<^verbatim>\<open>cap(buf)\<close> bytes), a write position and a read position. The buffer
  pools are part of the state; a buffer taken from a pool keeps the bytes of its last use in its
  array. A writer that has to wait for a reader returns with what it has still to write
  (\<open>WWait\<close>), and a reader of an empty open pipe returns \<open>RWait\<close>: the resume operations are the
  code behind the condition variable. Loops take fuel; enough fuel is proved to give a result.
\<close>

section \<open>Fixed buffers\<close>

datatype pipe_error = ErrClosed | PipeEOF | ErrShortWrite | errBufferFull | OtherError string

record fixedBuffer =
  fb_buf :: "byte list"
  fb_pos :: nat
  fb_lastRead :: nat

definition fb_Cap :: "fixedBuffer \<Rightarrow> nat" where
  "fb_Cap b = length (fb_buf b)"

definition fb_Len :: "fixedBuffer \<Rightarrow> nat" where
  "fb_Len b = fb_pos b - fb_lastRead b"

definition fb_Write :: "byte list \<Rightarrow> fixedBuffer \<Rightarrow> fixedBuffer \<times> nat \<times> pipe_error option" where
  "fb_Write p b =
     (let n = min (fb_Cap b - fb_pos b) (length p);
          b' = b\<lparr>fb_buf := take (fb_pos b) (fb_buf b) @ take n p @ drop (fb_pos b + n) (fb_buf b),
                 fb_pos := fb_pos b + n\<rparr>
      in if n < length p
         then (if fb_pos b' = fb_Cap b' then (b', n, Some errBufferFull)
               else (b', n, Some ErrShortWrite))
         else (b', n, None))"

definition fb_String :: "fixedBuffer \<Rightarrow> byte list" where
  "fb_String b = drop (fb_lastRead b) (take (fb_pos b) (fb_buf b))"

definition fb_Read :: "nat \<Rightarrow> fixedBuffer \<Rightarrow> fixedBuffer \<times> byte list" where
  "fb_Read k b =
     (let d = take k (fb_String b) in (b\<lparr>fb_lastRead := fb_lastRead b + length d\<rparr>, d))"

definition fb_Reset :: "fixedBuffer \<Rightarrow> fixedBuffer" where
  "fb_Reset b = b\<lparr>fb_pos := 0, fb_lastRead := 0\<rparr>"

definition fb_inv :: "fixedBuffer \<Rightarrow> bool" where
  "fb_inv b \<longleftrightarrow> fb_lastRead b \<le> fb_pos b \<and> fb_pos b \<le> fb_Cap b \<and> 64 \<le> fb_Cap b"

lemma fb_String_length: "fb_inv b \<Longrightarrow> length (fb_String b) = fb_Len b"
  by (simp add: fb_inv_def fb_String_def fb_Len_def fb_Cap_def)

lemma fb_Write_inv:
  assumes "fb_inv b" "fb_Write p b = (b', n, e)"
  shows "fb_inv b'" "fb_Cap b' = fb_Cap b" "n \<le> length p"
    and "fb_String b' = fb_String b @ take n p" "fb_Len b' = fb_Len b + n"
    and "e = (if n < length p then Some errBufferFull else None)"
    and "n = min (fb_Cap b - fb_pos b) (length p)"
proof -
  let ?n = "min (fb_Cap b - fb_pos b) (length p)"
  have n: "n = ?n" and b': "b' = b\<lparr>fb_buf := take (fb_pos b) (fb_buf b) @ take ?n p @ drop (fb_pos b + ?n) (fb_buf b),
                 fb_pos := fb_pos b + ?n\<rparr>"
    using assms(2) by (auto simp: fb_Write_def Let_def split: if_splits)
  show "n = ?n" "n \<le> length p" using n by auto
  show cap: "fb_Cap b' = fb_Cap b" using b' assms(1) by (auto simp: fb_Cap_def fb_inv_def min_def)
  show "fb_inv b'" using assms(1) cap b' by (auto simp: fb_inv_def)
  show "fb_String b' = fb_String b @ take n p"
    using assms(1) b' n by (auto simp: fb_String_def fb_inv_def fb_Cap_def)
  show "fb_Len b' = fb_Len b + n" using assms(1) b' n by (simp add: fb_Len_def fb_inv_def)
  show "e = (if n < length p then Some errBufferFull else None)"
    using assms cap by (auto simp: fb_Write_def Let_def fb_Cap_def fb_inv_def min_def split: if_splits)
qed

lemma fb_Read_inv:
  assumes "fb_inv b" "fb_Read k b = (b', d)"
  shows "fb_inv b'" "d @ fb_String b' = fb_String b" "length d = min k (fb_Len b)"
    and "fb_Len b' = fb_Len b - length d" "d = take k (fb_String b)"
proof -
  have d: "d = take k (fb_String b)" and b': "b' = b\<lparr>fb_lastRead := fb_lastRead b + length d\<rparr>"
    using assms(2) by (auto simp: fb_Read_def)
  show "d = take k (fb_String b)" by (rule d)
  show l: "length d = min k (fb_Len b)" using d fb_String_length [OF assms(1)] by simp
  show "fb_Len b' = fb_Len b - length d" using b' by (simp add: fb_Len_def)
  show "fb_inv b'" using assms(1) b' l by (auto simp: fb_inv_def fb_Len_def fb_Cap_def)
  have "fb_String b' = drop (length d) (fb_String b)"
    using b' by (simp add: fb_String_def add.commute)
  then show "d @ fb_String b' = fb_String b"
    using d by (metis append_take_drop_id length_take min.cobounded1 min.commute min_def take_all_iff drop_all)
qed

lemma fb_Reset_inv: "fb_inv b \<Longrightarrow> fb_inv (fb_Reset b)"
  by (simp add: fb_inv_def fb_Reset_def fb_Cap_def)

section \<open>The pools and the pipe\<close>

definition maxCap :: nat where "maxCap = 1000000"
definition minCap :: nat where "minCap = 64"
definition blockThreshold :: nat where "blockThreshold = 1000000"

record bytes_pipe =
  bp_buf :: "fixedBuffer list"
  bp_bufLen :: nat
  bp_closeErr :: "pipe_error option"
  bp_pools :: "(nat, fixedBuffer list) gomap"

definition returnBuffer :: "fixedBuffer \<Rightarrow> (nat, fixedBuffer list) gomap \<Rightarrow> (nat, fixedBuffer list) gomap" where
  "returnBuffer b pools =
     (case gget pools (fb_Cap (fb_Reset b)) of
        None \<Rightarrow> pools
      | Some free \<Rightarrow> gput (fb_Cap (fb_Reset b)) (fb_Reset b # free) pools)"

definition getBuffer :: "nat \<Rightarrow> (nat, fixedBuffer list) gomap \<Rightarrow> fixedBuffer \<times> (nat, fixedBuffer list) gomap" where
  "getBuffer sz pools =
     (case gget pools sz of
        Some (b # free) \<Rightarrow> (b, gput sz free pools)
      | _ \<Rightarrow> (\<lparr>fb_buf = replicate sz 0, fb_pos = 0, fb_lastRead = 0\<rparr>, gput sz [] pools))"

definition NewBytesPipe :: "(nat, fixedBuffer list) gomap \<Rightarrow> bytes_pipe" where
  "NewBytesPipe pools =
     (let (b, pools') = getBuffer minCap pools
      in \<lparr>bp_buf = [b], bp_bufLen = 0, bp_closeErr = None, bp_pools = pools'\<rparr>)"

definition add_buffer :: "nat \<Rightarrow> bytes_pipe \<Rightarrow> bytes_pipe" where
  "add_buffer sz bp =
     (let (b, pools) = getBuffer sz (bp_pools bp)
      in bp\<lparr>bp_buf := bp_buf bp @ [b], bp_pools := pools\<rparr>)"

datatype write_res = WDone nat "pipe_error option" | WWait "byte list" nat nat

definition next_cap :: "nat \<Rightarrow> nat" where
  "next_cap cap = (if cap * 2 > maxCap then maxCap else cap * 2)"

text \<open>
  The loop \<^verbatim>\<open>loop0\<close> of \<^verbatim>\<open>Write\<close>. \<open>WWait p written cap\<close>: the writer waits on the condition with
  \<open>p\<close> left to write; \<open>cap\<close> is the capacity of the buffer it filled last.
\<close>

fun bp_Write_loop :: "nat \<Rightarrow> byte list \<Rightarrow> nat \<Rightarrow> bytes_pipe \<Rightarrow> (bytes_pipe \<times> write_res) option" where
  "bp_Write_loop 0 p written bp = None"
| "bp_Write_loop (Suc fuel) p written bp =
     (if bp_closeErr bp \<noteq> None then Some (bp, WDone written (Some ErrClosed)) else
      let bp1 = (if bp_buf bp = [] then add_buffer 64 bp else bp);
          b = last (bp_buf bp1);
          (b', n, err) = fb_Write p b;
          bp2 = bp1\<lparr>bp_buf := butlast (bp_buf bp1) @ [b'], bp_bufLen := bp_bufLen bp1 + n\<rparr>
      in if err \<noteq> None \<and> err \<noteq> Some errBufferFull then Some (bp2, WDone (written + n) err)
         else if length p = n then Some (bp2, WDone (written + n) None)
         else if bp_bufLen bp2 \<ge> blockThreshold
         then Some (bp2, WWait (drop n p) (written + n) (fb_Cap b'))
         else bp_Write_loop fuel (drop n p) (written + n) (add_buffer (next_cap (fb_Cap b')) bp2))"

definition bp_Write :: "byte list \<Rightarrow> bytes_pipe \<Rightarrow> (bytes_pipe \<times> write_res) option" where
  "bp_Write p bp = bp_Write_loop (Suc (Suc (length p))) p 0 bp"

text \<open>The writer woken up from its wait.\<close>

definition bp_Write_resume ::
  "byte list \<Rightarrow> nat \<Rightarrow> nat \<Rightarrow> bytes_pipe \<Rightarrow> (bytes_pipe \<times> write_res) option" where
  "bp_Write_resume p written cap bp =
     (if bp_closeErr bp \<noteq> None then bp_Write_loop (Suc (Suc (length p))) p written bp
      else if bp_bufLen bp \<ge> blockThreshold then Some (bp, WWait p written cap)
      else bp_Write_loop (Suc (Suc (length p))) p written (add_buffer (next_cap cap) bp))"

definition CloseWithError :: "pipe_error option \<Rightarrow> bytes_pipe \<Rightarrow> bytes_pipe" where
  "CloseWithError err bp =
     bp\<lparr>bp_closeErr := (case err of Some e \<Rightarrow> Some e | None \<Rightarrow> Some PipeEOF)\<rparr>"

definition bp_Close :: "bytes_pipe \<Rightarrow> bytes_pipe" where
  "bp_Close bp = CloseWithError None bp"

datatype read_res = RDone "byte list" "pipe_error option" | RWait

text \<open>The copying loop of \<^verbatim>\<open>Read\<close> with \<open>k\<close> bytes of room left. \<open>None\<close>: out of fuel, or the index panic.\<close>

fun bp_Read_loop :: "nat \<Rightarrow> nat \<Rightarrow> byte list \<Rightarrow> bytes_pipe \<Rightarrow> (bytes_pipe \<times> byte list) option" where
  "bp_Read_loop 0 k acc bp = None"
| "bp_Read_loop (Suc fuel) k acc bp =
     (if bp_bufLen bp > 0 then
        (case bp_buf bp of
           [] \<Rightarrow> None
         | b # bs \<Rightarrow>
             (let (b', d) = fb_Read k b;
                  bp1 = bp\<lparr>bp_bufLen := bp_bufLen bp - length d, bp_buf := b' # bs\<rparr>;
                  bp2 = (if fb_Len b' = 0
                         then bp1\<lparr>bp_buf := bs, bp_pools := returnBuffer b' (bp_pools bp1)\<rparr>
                         else bp1)
              in if k = length d then Some (bp2, acc @ d)
                 else bp_Read_loop fuel (k - length d) (acc @ d) bp2))
      else Some (bp, acc))"

definition read_body :: "nat \<Rightarrow> bytes_pipe \<Rightarrow> (bytes_pipe \<times> read_res) option" where
  "read_body k bp =
     map_option (\<lambda>(bp', d). (bp', RDone d None)) (bp_Read_loop (Suc (length (bp_buf bp))) k [] bp)"

definition bp_Read :: "nat \<Rightarrow> bytes_pipe \<Rightarrow> (bytes_pipe \<times> read_res) option" where
  "bp_Read k bp =
     (if bp_bufLen bp = 0 then
        (case bp_closeErr bp of
           Some e \<Rightarrow> Some (bp, RDone [] (Some e))
         | None \<Rightarrow> Some (bp, RWait))
      else read_body k bp)"

text \<open>The reader woken up from its wait.\<close>

definition bp_Read_resume :: "nat \<Rightarrow> bytes_pipe \<Rightarrow> (bytes_pipe \<times> read_res) option" where
  "bp_Read_resume k bp =
     (if bp_bufLen bp = 0 \<and> bp_closeErr bp \<noteq> None then Some (bp, RDone [] (bp_closeErr bp))
      else read_body k bp)"

declare bp_Write_loop.simps(2) [simp del] bp_Read_loop.simps(2) [simp del]

lemma bp_Write_loop_closed:
  "bp_closeErr bp \<noteq> None \<Longrightarrow>
   bp_Write_loop (Suc fuel) p written bp = Some (bp, WDone written (Some ErrClosed))"
  by (simp add: bp_Write_loop.simps(2))

section \<open>Invariant and contents\<close>

definition pools_inv :: "(nat, fixedBuffer list) gomap \<Rightarrow> bool" where
  "pools_inv pools \<longleftrightarrow>
     (\<forall>n free b. gget pools n = Some free \<longrightarrow> b \<in> set free \<longrightarrow>
        fb_inv b \<and> fb_Cap b = n \<and> fb_pos b = 0 \<and> fb_lastRead b = 0)"

definition bp_inv :: "bytes_pipe \<Rightarrow> bool" where
  "bp_inv bp \<longleftrightarrow>
     list_all fb_inv (bp_buf bp) \<and> bp_bufLen bp = sum_list (map fb_Len (bp_buf bp)) \<and>
     pools_inv (bp_pools bp)"

text \<open>The bytes written and not yet read.\<close>

definition contents :: "bytes_pipe \<Rightarrow> byte list" where
  "contents bp = concat (map fb_String (bp_buf bp))"

lemma contents_length: "bp_inv bp \<Longrightarrow> length (contents bp) = bp_bufLen bp"
proof -
  have "list_all fb_inv bs \<Longrightarrow> length (concat (map fb_String bs)) = sum_list (map fb_Len bs)" for bs
    by (induction bs) (auto simp: fb_String_length)
  then show "bp_inv bp \<Longrightarrow> ?thesis" by (simp add: bp_inv_def contents_def)
qed

lemma returnBuffer_inv: "pools_inv pools \<Longrightarrow> fb_inv b \<Longrightarrow> pools_inv (returnBuffer b pools)"
  using fb_Reset_inv [of b]
  by (auto simp: returnBuffer_def pools_inv_def fb_Reset_def fb_Cap_def split: option.splits)

lemma getBuffer_inv:
  assumes "pools_inv pools" "64 \<le> sz" "getBuffer sz pools = (b, pools')"
  shows "fb_inv b \<and> fb_Cap b = sz \<and> fb_pos b = 0 \<and> fb_lastRead b = 0 \<and> pools_inv pools'"
proof (cases "\<exists>b0 free. gget pools sz = Some (b0 # free)")
  case True
  then obtain b0 free where *: "gget pools sz = Some (b0 # free)" by blast
  with assms(3) have "b = b0" "pools' = gput sz free pools" by (auto simp: getBuffer_def)
  moreover have "fb_inv b0 \<and> fb_Cap b0 = sz \<and> fb_pos b0 = 0 \<and> fb_lastRead b0 = 0"
    using * assms(1) unfolding pools_inv_def by (metis list.set_intros(1))
  moreover have "pools_inv (gput sz free pools)"
    using * assms(1) unfolding pools_inv_def by (auto split: if_splits)
  ultimately show ?thesis by simp
next
  case False
  then have "b = \<lparr>fb_buf = replicate sz 0, fb_pos = 0, fb_lastRead = 0\<rparr>"
    "pools' = gput sz [] pools"
    using assms(3) by (auto simp: getBuffer_def split: option.splits list.splits)
  then show ?thesis
    using assms(1,2) by (auto simp: fb_inv_def fb_Cap_def pools_inv_def split: if_splits)
qed

lemma bp_inv_New: "pools_inv pools \<Longrightarrow> bp_inv (NewBytesPipe pools)"
  and contents_New: "pools_inv pools \<Longrightarrow> contents (NewBytesPipe pools) = []"
  using getBuffer_inv [of pools minCap]
  by (auto simp: NewBytesPipe_def bp_inv_def contents_def minCap_def fb_Len_def fb_String_def
      split: prod.splits)

definition room :: "bytes_pipe \<Rightarrow> bool" where
  "room bp \<longleftrightarrow> bp_buf bp = [] \<or> fb_pos (last (bp_buf bp)) < fb_Cap (last (bp_buf bp))"

lemma add_buffer_inv:
  assumes "bp_inv bp" "64 \<le> sz"
  shows "bp_inv (add_buffer sz bp)" "contents (add_buffer sz bp) = contents bp"
    "bp_bufLen (add_buffer sz bp) = bp_bufLen bp" "bp_closeErr (add_buffer sz bp) = bp_closeErr bp"
    "bp_buf (add_buffer sz bp) \<noteq> []" "room (add_buffer sz bp)"
proof -
  obtain b pools where g: "getBuffer sz (bp_pools bp) = (b, pools)" by force
  then have "add_buffer sz bp = bp\<lparr>bp_buf := bp_buf bp @ [b], bp_pools := pools\<rparr>"
    by (simp add: add_buffer_def)
  moreover have "fb_inv b \<and> fb_Cap b = sz \<and> fb_pos b = 0 \<and> fb_lastRead b = 0 \<and> pools_inv pools"
    using getBuffer_inv [OF _ assms(2) g] assms(1) by (simp add: bp_inv_def)
  ultimately show "bp_inv (add_buffer sz bp)" "contents (add_buffer sz bp) = contents bp"
    "bp_bufLen (add_buffer sz bp) = bp_bufLen bp" "bp_closeErr (add_buffer sz bp) = bp_closeErr bp"
    "bp_buf (add_buffer sz bp) \<noteq> []" "room (add_buffer sz bp)"
    using assms by (auto simp: bp_inv_def contents_def fb_Len_def fb_String_def room_def)
qed

lemma next_cap_ge: "64 \<le> cap \<Longrightarrow> 64 \<le> next_cap cap"
  by (simp add: next_cap_def maxCap_def)

section \<open>Writing appends, reading removes from the front\<close>

text \<open>Writing into the last buffer.\<close>

lemma write_last_inv:
  assumes "bp_inv bp" "bp_buf bp \<noteq> []" "fb_Write p (last (bp_buf bp)) = (b', n, e)"
  shows "bp_inv (bp\<lparr>bp_buf := butlast (bp_buf bp) @ [b'], bp_bufLen := bp_bufLen bp + n\<rparr>)"
    "contents (bp\<lparr>bp_buf := butlast (bp_buf bp) @ [b'], bp_bufLen := bp_bufLen bp + n\<rparr>)
     = contents bp @ take n p"
proof -
  obtain bs b where bs: "bp_buf bp = bs @ [b]" using assms(2) by (metis rev_exhaust)
  then have b: "fb_inv b" "fb_Write p b = (b', n, e)" using assms by (auto simp: bp_inv_def)
  show "bp_inv (bp\<lparr>bp_buf := butlast (bp_buf bp) @ [b'], bp_bufLen := bp_bufLen bp + n\<rparr>)"
    "contents (bp\<lparr>bp_buf := butlast (bp_buf bp) @ [b'], bp_bufLen := bp_bufLen bp + n\<rparr>)
     = contents bp @ take n p"
    using assms(1) bs fb_Write_inv [OF b] by (auto simp: bp_inv_def contents_def)
qed

definition write_ok :: "byte list \<Rightarrow> nat \<Rightarrow> bytes_pipe \<Rightarrow> bytes_pipe \<times> write_res \<Rightarrow> bool" where
  "write_ok p written bp = (\<lambda>(bp', r).
     bp_inv bp' \<and> bp_closeErr bp' = bp_closeErr bp \<and>
     (case r of
        WDone n e \<Rightarrow> e = None \<and> n = written + length p \<and> contents bp' = contents bp @ p
      | WWait rest n cap \<Rightarrow> \<exists>m < length p. n = written + m \<and> rest = drop m p \<and> 64 \<le> cap \<and>
          contents bp' = contents bp @ take m p \<and> blockThreshold \<le> bp_bufLen bp'))"

lemma write_ok_shift:
  assumes "write_ok (drop n p) (written + n) bp1 r" "contents bp1 = contents bp @ take n p"
    and "bp_closeErr bp1 = bp_closeErr bp" "n \<le> length p"
  shows "write_ok p written bp r"
proof (cases r)
  case (Pair bp' w)
  show ?thesis
  proof (cases w)
    case (WDone k e)
    with assms Pair show ?thesis by (simp add: write_ok_def)
  next
    case (WWait rest k cap)
    with assms(1) Pair obtain m where m: "m < length p - n" "k = written + n + m"
      "rest = drop m (drop n p)" "contents bp' = contents bp1 @ take m (drop n p)"
      by (auto simp: write_ok_def)
    then have "n + m < length p" "rest = drop (n + m) p" "contents bp' = contents bp @ take (n + m) p"
      using assms(2) by (auto simp: take_add) (simp add: add.commute)
    with assms Pair WWait m(2) show ?thesis
      by (auto simp: write_ok_def intro!: exI [of _ "n + m"])
  qed
qed

lemma bp_Write_loop_correct:
  "bp_inv bp \<Longrightarrow> bp_closeErr bp = None \<Longrightarrow> length p + (if room bp then 1 else 2) \<le> fuel \<Longrightarrow>
   \<exists>r. bp_Write_loop fuel p written bp = Some r \<and> write_ok p written bp r"
proof (induction fuel arbitrary: p written bp)
  case 0
  then show ?case by (simp split: if_splits)
next
  case (Suc fuel)
  define bp1 where "bp1 = (if bp_buf bp = [] then add_buffer 64 bp else bp)"
  have bp1: "bp_inv bp1" "contents bp1 = contents bp" "bp_closeErr bp1 = None" "bp_buf bp1 \<noteq> []"
    "room bp1 = room bp"
    using Suc.prems add_buffer_inv [of bp 64] by (auto simp: bp1_def room_def)
  obtain b' n e where w: "fb_Write p (last (bp_buf bp1)) = (b', n, e)" by (metis prod_cases3)
  define bp2 where "bp2 = bp1\<lparr>bp_buf := butlast (bp_buf bp1) @ [b'], bp_bufLen := bp_bufLen bp1 + n\<rparr>"
  have inv_last: "fb_inv (last (bp_buf bp1))"
    using bp1(1,4) by (metis bp_inv_def last_in_set list_all_iff)
  note fw = fb_Write_inv [OF inv_last w]
  have bp2: "bp_inv bp2" "contents bp2 = contents bp @ take n p" "bp_closeErr bp2 = None"
    using write_last_inv [OF bp1(1,4) w] bp1 by (auto simp: bp2_def)
  have unfold: "bp_Write_loop (Suc fuel) p written bp =
    (if length p = n then Some (bp2, WDone (written + n) None)
     else if bp_bufLen bp2 \<ge> blockThreshold
     then Some (bp2, WWait (drop n p) (written + n) (fb_Cap b'))
     else bp_Write_loop fuel (drop n p) (written + n) (add_buffer (next_cap (fb_Cap b')) bp2))"
    using Suc.prems(2) fw(6) by (simp add: bp_Write_loop.simps(2) Let_def bp1_def [symmetric] w bp2_def [symmetric])
  have cap: "64 \<le> fb_Cap b'" using fw(1) by (simp add: fb_inv_def)
  consider "length p = n" | "length p \<noteq> n" "bp_bufLen bp2 \<ge> blockThreshold"
    | "length p \<noteq> n" "bp_bufLen bp2 < blockThreshold" by linarith
  then show ?case
  proof cases
    case 1
    then show ?thesis using bp2 Suc.prems(2) unfold by (simp add: write_ok_def)
  next
    case 2
    then show ?thesis using bp2 Suc.prems(2) unfold fw(3) cap by (auto simp: write_ok_def)
  next
    case 3
    let ?bp3 = "add_buffer (next_cap (fb_Cap b')) bp2"
    note bp3 = add_buffer_inv [OF bp2(1) next_cap_ge [OF cap]]
    have "room bp \<Longrightarrow> 0 < n"
      using fw(7) 3(1) fw(3) bp1(4,5) by (auto simp: room_def min_def)
    then have "length (drop n p) + 1 \<le> fuel"
      using Suc.prems(3) 3(1) fw(3) by (auto split: if_splits)
    then obtain r where "bp_Write_loop fuel (drop n p) (written + n) ?bp3 = Some r"
      "write_ok (drop n p) (written + n) ?bp3 r"
      using Suc.IH [OF bp3(1), of "drop n p" "written + n"] bp3(4,6) bp2(3) by auto
    moreover from this(2) have "write_ok p written bp r"
      by (rule write_ok_shift) (use bp2 bp3 Suc.prems(2) fw(3) in simp_all)
    ultimately show ?thesis using 3 unfold by simp
  qed
qed

lemma bp_Read_loop_correct:
  "bp_inv bp \<Longrightarrow> length (bp_buf bp) < fuel \<Longrightarrow>
   \<exists>bp'. bp_Read_loop fuel k acc bp = Some (bp', acc @ take k (contents bp)) \<and> bp_inv bp' \<and>
     contents bp' = drop k (contents bp) \<and> bp_closeErr bp' = bp_closeErr bp"
proof (induction fuel arbitrary: k acc bp)
  case 0
  then show ?case by simp
next
  case (Suc fuel)
  show ?case
  proof (cases "bp_bufLen bp > 0")
    case False
    then have "contents bp = []" using contents_length [OF Suc.prems(1)] by simp
    with False Suc.prems show ?thesis by (simp add: bp_Read_loop.simps(2))
  next
    case True
    then obtain b bs where bs: "bp_buf bp = b # bs"
      using Suc.prems(1) by (cases "bp_buf bp") (auto simp: bp_inv_def)
    obtain b' d where r: "fb_Read k b = (b', d)" by force
    have b: "fb_inv b" using Suc.prems(1) bs by (simp add: bp_inv_def)
    note fr = fb_Read_inv [OF b r]
    define bp2 where "bp2 = (if fb_Len b' = 0
        then bp\<lparr>bp_bufLen := bp_bufLen bp - length d, bp_buf := bs, bp_pools := returnBuffer b' (bp_pools bp)\<rparr>
        else bp\<lparr>bp_bufLen := bp_bufLen bp - length d, bp_buf := b' # bs\<rparr>)"
    have unfold: "bp_Read_loop (Suc fuel) k acc bp =
        (if k = length d then Some (bp2, acc @ d) else bp_Read_loop fuel (k - length d) (acc @ d) bp2)"
      using True bs by (simp add: bp_Read_loop.simps(2) r bp2_def Let_def)
    have empty: "fb_String b' = []" if "fb_Len b' = 0"
      using fb_String_length [OF fr(1)] that by simp
    have bp2: "bp_inv bp2" "d @ contents bp2 = contents bp" "bp_closeErr bp2 = bp_closeErr bp"
      using Suc.prems(1) bs fr empty returnBuffer_inv [of "bp_pools bp" b']
      by (auto simp: bp2_def bp_inv_def contents_def)
    show ?thesis
    proof (cases "k = length d")
      case True
      with bp2 unfold show ?thesis by (auto simp flip: bp2(2))
    next
      case False
      then have len: "length d < k" and "fb_Len b' = 0" using fr(3,4) by auto
      then have "length (bp_buf bp2) < fuel" using Suc.prems(2) bs by (simp add: bp2_def)
      from Suc.IH [OF bp2(1) this, of "k - length d" "acc @ d"] bp2(3) False unfold len
      show ?thesis by (auto simp flip: bp2(2))
    qed
  qed
qed

lemma read_body_correct:
  "bp_inv bp \<Longrightarrow>
   \<exists>bp'. read_body k bp = Some (bp', RDone (take k (contents bp)) None) \<and> bp_inv bp' \<and>
     contents bp' = drop k (contents bp) \<and> bp_closeErr bp' = bp_closeErr bp"
  using bp_Read_loop_correct [of bp "Suc (length (bp_buf bp))" k "[]"]
  by (auto simp: read_body_def)

lemma bp_Write_correct:
  assumes "bp_inv bp" "bp_closeErr bp = None"
  shows "\<exists>r. bp_Write p bp = Some r \<and> write_ok p 0 bp r"
  using bp_Write_loop_correct [OF assms, of p "Suc (Suc (length p))" 0] by (simp add: bp_Write_def)

lemma bp_Write_closed:
  "bp_closeErr bp \<noteq> None \<Longrightarrow> bp_Write p bp = Some (bp, WDone 0 (Some ErrClosed))"
  by (simp add: bp_Write_def bp_Write_loop_closed)

section \<open>The pipe with its waiting writers\<close>

text \<open>
  One operation on the pipe by some goroutine. \<open>OpResume i\<close> wakes the \<open>i\<close>-th waiting writer. Each
  step gives the bytes it accepted from a writer and the bytes it returned to a reader.
\<close>

datatype pipe_op = OpWrite "byte list" | OpResume nat | OpRead nat | OpReadResume nat | OpClose

type_synonym pipe_state = "bytes_pipe \<times> (byte list \<times> nat \<times> nat) list"

definition write_out ::
  "nat \<Rightarrow> byte list \<Rightarrow> (byte list \<times> nat \<times> nat) list \<Rightarrow> bytes_pipe \<times> write_res
   \<Rightarrow> pipe_state \<times> byte list \<times> byte list" where
  "write_out before p ws = (\<lambda>(bp, r). case r of
      WDone n e \<Rightarrow> ((bp, ws), take (n - before) p, [])
    | WWait rest n cap \<Rightarrow> ((bp, ws @ [(rest, n, cap)]), take (n - before) p, []))"

definition read_out ::
  "(byte list \<times> nat \<times> nat) list \<Rightarrow> bytes_pipe \<times> read_res \<Rightarrow> pipe_state \<times> byte list \<times> byte list" where
  "read_out ws = (\<lambda>(bp, r). ((bp, ws), [], case r of RDone d e \<Rightarrow> d | RWait \<Rightarrow> []))"

fun pipe_step :: "pipe_state \<Rightarrow> pipe_op \<Rightarrow> (pipe_state \<times> byte list \<times> byte list) option" where
  "pipe_step (bp, ws) (OpWrite p) = map_option (write_out 0 p ws) (bp_Write p bp)"
| "pipe_step (bp, ws) (OpResume i) =
     (if i < length ws
      then (case ws ! i of (p, n, cap) \<Rightarrow>
              map_option (write_out n p (take i ws @ drop (Suc i) ws)) (bp_Write_resume p n cap bp))
      else Some ((bp, ws), [], []))"
| "pipe_step (bp, ws) (OpRead k) = map_option (read_out ws) (bp_Read k bp)"
| "pipe_step (bp, ws) (OpReadResume k) = map_option (read_out ws) (bp_Read_resume k bp)"
| "pipe_step (bp, ws) OpClose = Some ((bp_Close bp, ws), [], [])"

definition pipe_inv :: "pipe_state \<Rightarrow> bool" where
  "pipe_inv = (\<lambda>(bp, ws). bp_inv bp \<and> list_all (\<lambda>(p, n, cap). 64 \<le> cap) ws)"

lemma pipe_step_write:
  assumes "write_ok p n bp r" "bp_inv bp" "list_all (\<lambda>(p, n, cap). 64 \<le> cap) ws"
  shows "\<exists>s' i out. write_out n p ws r = (s', i, out) \<and> pipe_inv s' \<and>
    contents bp @ i = out @ contents (fst s')"
  using assms by (auto simp: write_ok_def write_out_def pipe_inv_def split: write_res.splits prod.splits)

lemma list_all_remove: "list_all P xs \<Longrightarrow> list_all P (take i xs @ drop (Suc i) xs)"
  by (auto simp: list_all_iff dest: in_set_takeD in_set_dropD)

lemma pipe_step_resume:
  assumes "bp_inv bp" "list_all (\<lambda>(p, n, cap). 64 \<le> cap) ws" "64 \<le> cap"
  shows "\<exists>s' i out. map_option (write_out n p ws) (bp_Write_resume p n cap bp) = Some (s', i, out) \<and>
    pipe_inv s' \<and> contents bp @ i = out @ contents (fst s')"
proof -
  note add = add_buffer_inv [OF assms(1) next_cap_ge [OF assms(3)]]
  show ?thesis
  proof (cases "bp_closeErr bp \<noteq> None \<or> bp_bufLen bp \<ge> blockThreshold")
    case True
    then show ?thesis using assms
      by (auto simp: bp_Write_resume_def write_out_def pipe_inv_def bp_Write_loop_closed)
  next
    case False
    then obtain r where "bp_Write_resume p n cap bp = Some r"
      "write_ok p n (add_buffer (next_cap cap) bp) r"
      using bp_Write_loop_correct [OF add(1), of p "Suc (Suc (length p))" n] add(4,6)
      by (auto simp: bp_Write_resume_def)
    with pipe_step_write [OF this(2) add(1) assms(2)] add(2) show ?thesis by auto
  qed
qed

lemma pipe_step_correct:
  assumes "pipe_inv s"
  shows "\<exists>s' i out. pipe_step s op = Some (s', i, out) \<and> pipe_inv s' \<and>
    contents (fst s) @ i = out @ contents (fst s')"
proof -
  obtain bp ws where s: "s = (bp, ws)" by force
  have inv: "bp_inv bp" and ws: "list_all (\<lambda>(p, n, cap). 64 \<le> cap) ws"
    using assms s by (auto simp: pipe_inv_def)
  show ?thesis
  proof (cases op)
    case (OpWrite p)
    show ?thesis
    proof (cases "bp_closeErr bp")
      case None
      with bp_Write_correct [OF inv, of p] obtain r where r: "bp_Write p bp = Some r" "write_ok p 0 bp r"
        by blast
      with pipe_step_write [OF r(2) inv ws] OpWrite s show ?thesis by auto
    qed (use assms OpWrite s in \<open>simp add: bp_Write_closed write_out_def\<close>)
  next
    case (OpResume i)
    show ?thesis
    proof (cases "i < length ws")
      case True
      obtain p n cap where wi: "ws ! i = (p, n, cap)" by (metis prod_cases3)
      with True ws have "64 \<le> cap" by (auto simp: list_all_length)
      with pipe_step_resume [OF inv list_all_remove [OF ws], of cap n p i] OpResume s True wi
      show ?thesis by auto
    qed (use assms OpResume s in simp)
  next
    case (OpRead k)
    with s read_body_correct [OF inv, of k] ws inv show ?thesis
      by (auto simp: bp_Read_def read_out_def pipe_inv_def split: option.splits)
  next
    case (OpReadResume k)
    with s read_body_correct [OF inv, of k] ws inv show ?thesis
      by (auto simp: bp_Read_resume_def read_out_def pipe_inv_def)
  next
    case OpClose
    with s ws inv show ?thesis
      by (simp add: bp_Close_def CloseWithError_def pipe_inv_def bp_inv_def contents_def)
  qed
qed

section \<open>Byte streams\<close>

text \<open>
  The contract of a stream between a writer and a reader: every step returns, keeps the invariant
  and neither loses, invents nor reorders bytes. It lifts to every interleaving of steps.
\<close>

locale byte_stream =
  fixes step :: "'s \<Rightarrow> 'op \<Rightarrow> ('s \<times> byte list \<times> byte list) option"
    and held :: "'s \<Rightarrow> byte list"
    and invar :: "'s \<Rightarrow> bool"
  assumes step_conserves: "invar s \<Longrightarrow>
    \<exists>s' i out. step s op = Some (s', i, out) \<and> invar s' \<and> held s @ i = out @ held s'"
begin

fun run :: "'s \<Rightarrow> 'op list \<Rightarrow> ('s \<times> byte list \<times> byte list) option" where
  "run s [] = Some (s, [], [])"
| "run s (op # ops) =
     (case step s op of None \<Rightarrow> None
      | Some (s1, i1, o1) \<Rightarrow>
          map_option (\<lambda>(s2, i2, o2). (s2, i1 @ i2, o1 @ o2)) (run s1 ops))"

lemma run_conserves:
  "invar s \<Longrightarrow> \<exists>s' i out. run s ops = Some (s', i, out) \<and> invar s' \<and> held s @ i = out @ held s'"
proof (induction ops arbitrary: s)
  case Nil
  then show ?case by simp
next
  case (Cons op ops)
  obtain s1 i1 o1 where 1: "step s op = Some (s1, i1, o1)" "invar s1" "held s @ i1 = o1 @ held s1"
    using step_conserves [OF Cons.prems] by blast
  obtain s2 i2 o2 where 2: "run s1 ops = Some (s2, i2, o2)" "invar s2" "held s1 @ i2 = o2 @ held s2"
    using Cons.IH [OF 1(2)] by blast
  have "held s @ i1 @ i2 = (o1 @ o2) @ held s2"
    using 1(3) 2(3) by (metis append.assoc)
  with 1 2 show ?case by simp
qed

end

interpretation bytes_pipe: byte_stream pipe_step "\<lambda>s. contents (fst s)" pipe_inv
  by unfold_locales (rule pipe_step_correct)

section \<open>Properties\<close>

text \<open>
  C9: in every interleaving of writes, reads, closes and wake-ups on a new pipe, no step panics or
  runs out of fuel, and the bytes accepted from the writers are exactly the bytes returned to the
  readers followed by the bytes still buffered, in order.
\<close>

theorem bytes_pipe_fifo:
  "\<exists>s' i out. bytes_pipe.run (NewBytesPipe [], []) ops = Some (s', i, out) \<and>
     pipe_inv s' \<and> i = out @ contents (fst s')"
proof -
  have "pipe_inv (NewBytesPipe [], [])"
    using bp_inv_New [of "[]"] by (simp add: pipe_inv_def pools_inv_def)
  from bytes_pipe.run_conserves [OF this, of ops] contents_New [of "[]"]
  show ?thesis by (simp add: pools_inv_def)
qed

text \<open>
  A write to an open pipe returns with everything written, unless the pipe holds at least
  \<^verbatim>\<open>blockThreshold\<close> bytes; then the writer waits with exactly the unwritten rest. A write to
  a closed pipe writes nothing and reports \<^verbatim>\<open>ErrClosed\<close>.
\<close>

lemma bytes_pipe_write:
  assumes "bp_inv bp"
  shows "\<exists>bp' r. bp_Write p bp = Some (bp', r) \<and> bp_inv bp' \<and>
    (if bp_closeErr bp \<noteq> None then bp' = bp \<and> r = WDone 0 (Some ErrClosed)
     else (case r of
        WDone n e \<Rightarrow> n = length p \<and> e = None \<and> contents bp' = contents bp @ p
      | WWait rest n cap \<Rightarrow> n < length p \<and> rest = drop n p \<and>
          contents bp' = contents bp @ take n p \<and> blockThreshold \<le> length (contents bp')))"
proof (cases "bp_closeErr bp")
  case None
  with bp_Write_correct [OF assms, of p] obtain bp' r
    where "bp_Write p bp = Some (bp', r)" "write_ok p 0 bp (bp', r)" by force
  with None contents_length [of bp'] show ?thesis
    by (cases r) (auto simp: write_ok_def)
next
  case (Some e)
  with assms show ?thesis by (simp add: bp_Write_closed)
qed

end
