(* ===== verification/IpAllocator.thy ===== *)
theory IpAllocator
  imports Allocator
begin

text \<open>
  The address allocator of \<^verbatim>\<open>hypervisor/network/ipallocator/ipallocator.go\<close>. A
  \<^verbatim>\<open>net.IP\<close> is its byte slice (nil is the empty slice), a \<^verbatim>\<open>big.Int\<close> an \<^typ>\<open>int\<close>, and the
  set of allocated addresses is keyed by their textual form, as in the source; the textual forms
  and the conversions of the package \<^verbatim>\<open>net\<close> are written out. \<open>None\<close> is a run-time panic.
\<close>

unbundle bit_operations_syntax

section \<open>Addresses\<close>

type_synonym IP = "byte list"

record IPNet =
  net_IP :: IP
  net_Mask :: "byte list"

definition v4InV6Prefix :: "byte list" where
  "v4InV6Prefix = replicate 10 0 @ [255, 255]"

definition To4 :: "IP \<Rightarrow> IP option" where
  "To4 ip = (if length ip = 4 then Some ip
     else if length ip = 16 \<and> take 12 ip = v4InV6Prefix then Some (drop 12 ip) else None)"

definition To16 :: "IP \<Rightarrow> IP option" where
  "To16 ip = (if length ip = 4 then Some (v4InV6Prefix @ ip)
     else if length ip = 16 then Some ip else None)"

text \<open>\<^verbatim>\<open>IP.Mask\<close>.\<close>

definition ip_Mask :: "IP \<Rightarrow> byte list \<Rightarrow> IP" where
  "ip_Mask ip msk =
     (let msk' = (if length msk = 16 \<and> length ip = 4 \<and> take 12 msk = replicate 12 255
                   then drop 12 msk else msk);
          ip' = (if length msk' = 4 \<and> length ip = 16 \<and> take 12 ip = v4InV6Prefix
                 then drop 12 ip else ip)
      in if length ip' \<noteq> length msk' then [] else map2 (AND) ip' msk')"

definition hex_digit :: "nat \<Rightarrow> char" where
  "hex_digit n = (if n < 10 then char_of (48 + n) else char_of (87 + n))"

fun hex :: "nat \<Rightarrow> string" where
  "hex n = (if n < 16 then [hex_digit n] else hex (n div 16) @ [hex_digit (n mod 16)])"

declare hex.simps [simp del]

definition hexString :: "byte list \<Rightarrow> string" where
  "hexString bs = concat (map (\<lambda>b. [hex_digit (unat b div 16), hex_digit (unat b mod 16)]) bs)"

definition dotted :: "byte list \<Rightarrow> string" where
  "dotted bs = join_with CHR ''.'' (map (utoa \<circ> unat) bs)"

fun groups16 :: "byte list \<Rightarrow> nat list" where
  "groups16 (a # b # bs) = (unat a * 256 + unat b) # groups16 bs"
| "groups16 _ = []"

definition zeros_at :: "nat list \<Rightarrow> nat \<Rightarrow> nat" where
  "zeros_at gs i = length (takeWhile (\<lambda>g. g = 0) (drop i gs))"

text \<open>The first longest run of zero groups, if longer than one group: its start and length.\<close>

definition zero_run :: "nat list \<Rightarrow> (nat \<times> nat) option" where
  "zero_run gs =
     (let best = foldl (\<lambda>(i0, n0) i. if zeros_at gs i > n0 then (i, zeros_at gs i) else (i0, n0))
                   (0, 0) [0..<length gs]
      in if snd best > 1 then Some best else None)"

definition v6_string :: "IP \<Rightarrow> string" where
  "v6_string ip =
     (let gs = groups16 ip in
      case zero_run gs of
        None \<Rightarrow> join_with CHR '':'' (map hex gs)
      | Some (i, n) \<Rightarrow>
          join_with CHR '':'' (map hex (take i gs)) @ ''::'' @ join_with CHR '':'' (map hex (drop (i + n) gs)))"

text \<open>\<^verbatim>\<open>IP.String\<close>.\<close>

definition ip_String :: "IP \<Rightarrow> string" where
  "ip_String ip =
     (if ip = [] then ''<nil>''
      else case To4 ip of
        Some ip4 \<Rightarrow> dotted ip4
      | None \<Rightarrow> if length ip \<noteq> 16 then CHR ''?'' # hexString ip else v6_string ip)"

text \<open>\<^verbatim>\<open>IPMask.Size\<close> of a mask of leading ones: the number of ones, \<open>None\<close> for any other mask.\<close>

definition mask_bits :: "byte list \<Rightarrow> bool list" where
  "mask_bits m = concat (map (\<lambda>b. map (\<lambda>i. bit b (7 - i)) [0..<8]) m)"

definition simpleMaskLength :: "byte list \<Rightarrow> nat option" where
  "simpleMaskLength m =
     (let bs = mask_bits m; n = length (takeWhile id bs)
      in if \<exists>b \<in> set (drop n bs). b then None else Some n)"

text \<open>\<^verbatim>\<open>IPNet.String\<close>.\<close>

definition net_String :: "IPNet \<Rightarrow> string" where
  "net_String n =
     (let ip = (case To4 (net_IP n) of Some ip4 \<Rightarrow> ip4 | None \<Rightarrow> net_IP n);
          m = net_Mask n
      in if length ip \<noteq> 4 \<and> length ip \<noteq> 16 then ''<nil>''
         else if length m = 4 \<and> length ip \<noteq> 4 then ''<nil>''
         else if length m \<noteq> 4 \<and> length m \<noteq> 16 then ''<nil>''
         else (let m' = (if length m = 16 \<and> length ip = 4 then drop 12 m else m)
               in case simpleMaskLength m' of
                    None \<Rightarrow> ip_String ip @ ''/'' @ hexString m'
                  | Some l \<Rightarrow> ip_String ip @ ''/'' @ utoa l))"

section \<open>The allocator\<close>

record allocatedMap =
  am_p :: "string set"
  am_last :: int
  am_begin :: int
  am_end :: int

datatype ip_error = ErrNoAvailableIPs | ErrIPAlreadyAllocated | ErrIPOutOfRange
  | ErrNetworkAlreadyRegistered | ErrBadSubnet

definition bytes_int :: "byte list \<Rightarrow> int" where
  "bytes_int bs = foldl (\<lambda>a b. a * 256 + uint b) 0 bs"

definition ipToBigInt :: "IP \<Rightarrow> int option" where
  "ipToBigInt ip =
     (case To4 ip of Some ip4 \<Rightarrow> Some (bytes_int ip4)
      | None \<Rightarrow> (case To16 ip of Some ip6 \<Rightarrow> Some (bytes_int ip6) | None \<Rightarrow> None))"

text \<open>\<^verbatim>\<open>big.Int.Bytes\<close>: the absolute value, big-endian, without leading zero bytes.\<close>

fun nat_bytes :: "nat \<Rightarrow> byte list" where
  "nat_bytes n = (if n = 0 then [] else nat_bytes (n div 256) @ [of_nat (n mod 256)])"

declare nat_bytes.simps [simp del]

definition bigIntToIP :: "int \<Rightarrow> IP" where
  "bigIntToIP v = nat_bytes (nat \<bar>v\<bar>)"

definition NetworkRange :: "IPNet \<Rightarrow> (IP \<times> IP) option" where
  "NetworkRange network =
     (case (case To4 (net_IP network) of Some ip \<Rightarrow> Some ip | None \<Rightarrow> To16 (net_IP network)) of
        None \<Rightarrow> Some ([], [])
      | Some netIP \<Rightarrow>
          if length (net_Mask network) < length netIP then None
          else Some (ip_Mask netIP (net_Mask network),
                     map2 (\<lambda>a m. a OR NOT m) netIP (take (length netIP) (net_Mask network))))"

definition newAllocatedMap :: "IPNet \<Rightarrow> allocatedMap option" where
  "newAllocatedMap network =
     (case NetworkRange network of
        None \<Rightarrow> None
      | Some (firstIP, lastIP) \<Rightarrow>
          (case (ipToBigInt firstIP, ipToBigInt lastIP) of
             (Some f, Some l) \<Rightarrow>
               Some \<lparr>am_p = {}, am_last = f + 1 - 1, am_begin = f + 1, am_end = l - 1\<rparr>
           | _ \<Rightarrow> None))"

type_synonym IPAllocator = "(string, allocatedMap) gomap"

definition RegisterSubnet :: "IPAllocator \<Rightarrow> IPNet \<Rightarrow> IPNet \<Rightarrow> (IPAllocator \<times> ip_error option) option" where
  "RegisterSubnet a network subnet =
     (let key = net_String network in
      if gget a key \<noteq> None then Some (a, Some ErrNetworkAlreadyRegistered)
      else case newAllocatedMap network of
        None \<Rightarrow> None
      | Some n \<Rightarrow>
          (case NetworkRange subnet of
             None \<Rightarrow> None
           | Some (beginIP, endIP) \<Rightarrow>
               (case (ipToBigInt beginIP, ipToBigInt endIP) of
                  (Some f, Some l) \<Rightarrow>
                    (let b = f + 1; e = l - 1 in
                     if \<not> (b \<ge> am_begin n \<and> e \<le> am_end n \<and> b < e) then Some (a, Some ErrBadSubnet)
                     else Some (gput key (n\<lparr>am_begin := b, am_end := e, am_last := b - 1\<rparr>) a, None))
                | _ \<Rightarrow> None)))"

definition checkIP :: "allocatedMap \<Rightarrow> IP \<Rightarrow> (allocatedMap \<times> (ip_error + IP)) option" where
  "checkIP am ip =
     (if ip_String ip \<in> am_p am then Some (am, Inl ErrIPAlreadyAllocated)
      else case ipToBigInt ip of
        None \<Rightarrow> None
      | Some pos \<Rightarrow>
          if pos < am_begin am \<or> pos > am_end am then Some (am, Inl ErrIPOutOfRange)
          else Some (am\<lparr>am_p := insert (ip_String ip) (am_p am)\<rparr>, Inr ip))"

text \<open>The loop of \<^verbatim>\<open>getNextIP\<close> with \<open>k\<close> iterations left, at position \<open>pos\<close>.\<close>

fun getNextIP_loop :: "nat \<Rightarrow> int \<Rightarrow> allocatedMap \<Rightarrow> allocatedMap \<times> (ip_error + IP)" where
  "getNextIP_loop 0 pos am = (am, Inl ErrNoAvailableIPs)"
| "getNextIP_loop (Suc k) pos am =
     (let pos' = (if pos + 1 > am_end am then am_begin am else pos + 1) in
      if ip_String (bigIntToIP pos') \<in> am_p am then getNextIP_loop k pos' am
      else (am\<lparr>am_p := insert (ip_String (bigIntToIP pos')) (am_p am), am_last := pos'\<rparr>,
            Inr (bigIntToIP pos')))"

definition getNextIP :: "allocatedMap \<Rightarrow> allocatedMap \<times> (ip_error + IP)" where
  "getNextIP am = getNextIP_loop (nat (am_end am - am_begin am + 1)) (am_last am) am"

definition RequestIP ::
  "IPAllocator \<Rightarrow> IPNet option \<Rightarrow> IP option \<Rightarrow> (IPAllocator \<times> (ip_error + IP)) option" where
  "RequestIP a network ip =
     (case network of
        None \<Rightarrow> Some (a, Inl ErrBadSubnet)
      | Some n \<Rightarrow>
          (let key = net_String n in
           case (case gget a key of Some am \<Rightarrow> Some am | None \<Rightarrow> newAllocatedMap n) of
             None \<Rightarrow> None
           | Some am \<Rightarrow>
               (case ip of
                  None \<Rightarrow> (let (am', r) = getNextIP am in Some (gput key am' a, r))
                | Some addr \<Rightarrow> map_option (\<lambda>(am', r). (gput key am' a, r)) (checkIP am addr))))"

definition ReleaseIP :: "IPAllocator \<Rightarrow> IPNet option \<Rightarrow> IP \<Rightarrow> IPAllocator" where
  "ReleaseIP a network ip =
     (case network of
        None \<Rightarrow> a
      | Some n \<Rightarrow>
          (case gget a (net_String n) of
             None \<Rightarrow> a
           | Some am \<Rightarrow> gput (net_String n) (am\<lparr>am_p := am_p am - {ip_String ip}\<rparr>) a))"

section \<open>The cyclic search\<close>

text \<open>
  The last address handed out lies in the range, or just before it. The range of a network of one
  or two addresses is empty.
\<close>

definition am_inv :: "allocatedMap \<Rightarrow> bool" where
  "am_inv am \<longleftrightarrow> (am_begin am \<le> am_end am \<longrightarrow>
     am_begin am - 1 \<le> am_last am \<and> am_last am \<le> am_end am)"

text \<open>The position that iteration \<open>k\<close> of the search looks at.\<close>

definition am_candidate :: "allocatedMap \<Rightarrow> int \<Rightarrow> int \<Rightarrow> int" where
  "am_candidate am pos k = am_begin am + (pos - am_begin am + 1 + k) mod (am_end am - am_begin am + 1)"

definition am_taken :: "allocatedMap \<Rightarrow> int \<Rightarrow> bool" where
  "am_taken am pos \<longleftrightarrow> ip_String (bigIntToIP pos) \<in> am_p am"

lemma am_candidate_0:
  assumes "am_begin am \<le> am_end am" "am_begin am - 1 \<le> pos" "pos \<le> am_end am"
  shows "am_candidate am pos 0 = (if pos + 1 > am_end am then am_begin am else pos + 1)"
  using assms by (auto simp: am_candidate_def mod_pos_pos_trivial dest: order_antisym)

lemma am_candidate_Suc:
  "am_candidate am (am_candidate am pos 0) k = am_candidate am pos (k + 1)"
proof -
  let ?n = "am_end am - am_begin am + 1" and ?x = "pos - am_begin am + 1"
  have "(?x mod ?n + 1 + k) mod ?n = (?x + (1 + k)) mod ?n"
    by (metis add.assoc mod_add_left_eq)
  then show ?thesis by (simp add: am_candidate_def ac_simps)
qed

lemma am_candidate_range:
  "am_begin am \<le> am_end am \<Longrightarrow>
   am_begin am \<le> am_candidate am pos k \<and> am_candidate am pos k \<le> am_end am"
  using pos_mod_bound [of "am_end am - am_begin am + 1" "pos - am_begin am + 1 + k"]
  by (auto simp: am_candidate_def)

lemma am_candidate_surj:
  assumes "am_begin am \<le> q" "q \<le> am_end am"
  shows "\<exists>k. 0 \<le> k \<and> k < am_end am - am_begin am + 1 \<and> am_candidate am pos k = q"
proof -
  let ?n = "am_end am - am_begin am + 1"
  let ?k = "(q - pos - 1) mod ?n"
  have n: "0 < ?n" using assms by simp
  have "(pos - am_begin am + 1 + ?k) mod ?n = (q - am_begin am) mod ?n"
    by (simp add: mod_simps)
  then have "am_candidate am pos ?k = q"
    using assms by (simp add: am_candidate_def mod_pos_pos_trivial)
  then show ?thesis using pos_mod_bound [OF n] pos_mod_sign [OF n] by blast
qed

lemma getNextIP_loop_Inl:
  assumes "am_begin am \<le> am_end am"
  shows "getNextIP_loop k pos am = (am', Inl e) \<Longrightarrow>
    am_begin am - 1 \<le> pos \<Longrightarrow> pos \<le> am_end am \<Longrightarrow>
    am' = am \<and> e = ErrNoAvailableIPs \<and> (\<forall>i. 0 \<le> i \<and> i < int k \<longrightarrow> am_taken am (am_candidate am pos i))"
proof (induction k arbitrary: pos)
  case (Suc k)
  let ?q = "am_candidate am pos 0"
  have q: "?q = (if pos + 1 > am_end am then am_begin am else pos + 1)"
    using am_candidate_0 assms Suc.prems by blast
  have taken: "am_taken am ?q" and rest: "getNextIP_loop k ?q am = (am', Inl e)"
    using Suc.prems(1) unfolding q by (auto simp: am_taken_def Let_def split: if_splits)
  have "am_begin am - 1 \<le> ?q" "?q \<le> am_end am"
    using am_candidate_range [OF assms, of pos 0] by auto
  note IH = Suc.IH [OF rest this]
  have "am_taken am (am_candidate am pos i)" if "0 \<le> i" "i < int (Suc k)" for i
  proof (cases "i = 0")
    case False
    then have "am_taken am (am_candidate am ?q (i - 1))" using IH that by auto
    then show ?thesis by (simp add: am_candidate_Suc)
  qed (use taken in simp)
  with IH show ?case by blast
qed auto

lemma getNextIP_loop_Inr:
  assumes "am_begin am \<le> am_end am"
  shows "getNextIP_loop k pos am = (am', Inr ip) \<Longrightarrow>
    am_begin am - 1 \<le> pos \<Longrightarrow> pos \<le> am_end am \<Longrightarrow>
    \<exists>j. 0 \<le> j \<and> j < int k \<and> ip = bigIntToIP (am_candidate am pos j) \<and>
      \<not> am_taken am (am_candidate am pos j) \<and>
      (\<forall>i. 0 \<le> i \<and> i < j \<longrightarrow> am_taken am (am_candidate am pos i)) \<and>
      am' = am\<lparr>am_p := insert (ip_String ip) (am_p am), am_last := am_candidate am pos j\<rparr>"
proof (induction k arbitrary: pos)
  case (Suc k)
  let ?q = "am_candidate am pos 0"
  have q: "?q = (if pos + 1 > am_end am then am_begin am else pos + 1)"
    using am_candidate_0 assms Suc.prems by blast
  show ?case
  proof (cases "am_taken am ?q")
    case True
    then have rest: "getNextIP_loop k ?q am = (am', Inr ip)"
      using Suc.prems(1) unfolding q by (auto simp: am_taken_def Let_def split: if_splits)
    have "am_begin am - 1 \<le> ?q" "?q \<le> am_end am"
      using am_candidate_range [OF assms, of pos 0] by auto
    from Suc.IH [OF rest this] obtain j where j: "0 \<le> j" "j < int k"
        "ip = bigIntToIP (am_candidate am pos (j + 1))"
        "\<not> am_taken am (am_candidate am pos (j + 1))"
        "\<forall>i. 0 \<le> i \<and> i < j \<longrightarrow> am_taken am (am_candidate am pos (i + 1))"
        "am' = am\<lparr>am_p := insert (ip_String ip) (am_p am), am_last := am_candidate am pos (j + 1)\<rparr>"
      unfolding am_candidate_Suc by blast
    have "am_taken am (am_candidate am pos i)" if "0 \<le> i" "i < j + 1" for i
      using j(5) [rule_format, of "i - 1"] that True by (cases "i = 0") auto
    with j show ?thesis by (intro exI [of _ "j + 1"]) auto
  next
    case False
    then show ?thesis
      using Suc.prems(1) q by (intro exI [of _ 0]) (auto simp: am_taken_def Let_def split: if_splits)
  qed
qed simp

lemma getNextIP_empty: "am_end am < am_begin am \<Longrightarrow> getNextIP am = (am, Inl ErrNoAvailableIPs)"
  by (simp add: getNextIP_def)

lemma getNextIP_Inl:
  assumes "am_inv am" "getNextIP am = (am', Inl e)"
  shows "am' = am" "e = ErrNoAvailableIPs"
    "am_begin am \<le> q \<Longrightarrow> q \<le> am_end am \<Longrightarrow> am_taken am q"
  using getNextIP_loop_Inl [OF _ assms(2) [unfolded getNextIP_def]] getNextIP_empty [of am]
    am_candidate_surj [of am q "am_last am"] assms
  by (cases "am_begin am \<le> am_end am"; auto simp: am_inv_def)+

lemma getNextIP_Inr:
  assumes inv: "am_inv am" and get: "getNextIP am = (am', Inr ip)"
  shows "\<exists>j. 0 \<le> j \<and> j \<le> am_end am - am_begin am \<and>
      ip = bigIntToIP (am_candidate am (am_last am) j) \<and>
      \<not> am_taken am (am_candidate am (am_last am) j) \<and>
      (\<forall>i. 0 \<le> i \<and> i < j \<longrightarrow> am_taken am (am_candidate am (am_last am) i)) \<and>
      am' = am\<lparr>am_p := insert (ip_String ip) (am_p am), am_last := am_candidate am (am_last am) j\<rparr>"
    and "am_begin am \<le> am_end am"
proof -
  show le: "am_begin am \<le> am_end am"
    using getNextIP_empty [of am] get by (cases "am_begin am \<le> am_end am") auto
  with inv getNextIP_loop_Inr [OF le get [unfolded getNextIP_def]] show "\<exists>j. 0 \<le> j \<and> j \<le> am_end am - am_begin am \<and>
      ip = bigIntToIP (am_candidate am (am_last am) j) \<and>
      \<not> am_taken am (am_candidate am (am_last am) j) \<and>
      (\<forall>i. 0 \<le> i \<and> i < j \<longrightarrow> am_taken am (am_candidate am (am_last am) i)) \<and>
      am' = am\<lparr>am_p := insert (ip_String ip) (am_p am), am_last := am_candidate am (am_last am) j\<rparr>"
    by (auto simp: am_inv_def)
qed

lemma getNextIP_inv: "am_inv am \<Longrightarrow> getNextIP am = (am', r) \<Longrightarrow> am_inv am'"
proof (cases r)
  case (Inr ip)
  assume inv: "am_inv am" and "getNextIP am = (am', r)"
  with Inr have get: "getNextIP am = (am', Inr ip)" by simp
  note range = am_candidate_range [OF getNextIP_Inr(2) [OF inv get], of "am_last am"]
  from getNextIP_Inr(1) [OF inv get] show ?thesis
    by (elim exE conjE) (simp add: am_inv_def range order_trans [OF _ conjunct1 [OF range]])
qed (use getNextIP_Inl in blast)

lemma checkIP_inv: "am_inv am \<Longrightarrow> checkIP am ip = Some (am', r) \<Longrightarrow> am_inv am'"
  by (auto simp: checkIP_def am_inv_def split: if_splits option.splits)

section \<open>Integers and addresses\<close>

lemma bytes_int_append: "bytes_int (bs @ [b]) = bytes_int bs * 256 + uint b"
  by (simp add: bytes_int_def)

lemma bytes_int_nat_bytes: "bytes_int (nat_bytes n) = int n"
proof (induction n rule: nat_bytes.induct)
  case (1 n)
  have "uint (of_nat (n mod 256) :: byte) = int (n mod 256)"
    by (simp add: uint_word_of_int unsigned_of_nat take_bit_eq_mod)
  moreover have "int (n div 256) * 256 + int (n mod 256) = int n"
    by (metis div_mult_mod_eq of_nat_add of_nat_mult of_nat_numeral)
  ultimately show ?case
    using 1 by (cases "n = 0") (simp_all add: nat_bytes.simps [of n] bytes_int_append nat_bytes.simps [of 0] bytes_int_def [of "[]"])
qed

lemma length_nat_bytes: "256 ^ k \<le> n \<Longrightarrow> n < 256 ^ Suc k \<Longrightarrow> length (nat_bytes n) = Suc k"
proof (induction k arbitrary: n)
  case 0
  then show ?case by (simp add: nat_bytes.simps [of n] nat_bytes.simps [of 0])
next
  case (Suc k)
  have "256 ^ k \<le> n div 256" using Suc.prems(1) by (simp add: div_le_mono less_eq_div_iff_mult_less_eq)
  moreover have "n div 256 < 256 ^ Suc k" using Suc.prems(2) by (simp add: less_mult_imp_div_less)
  moreover have "n \<noteq> 0" using Suc.prems(1) by (metis leD zero_less_numeral zero_less_power)
  ultimately show ?case using Suc.IH by (simp add: nat_bytes.simps [of n])
qed

lemma length_nat_bytes_iff: "length (nat_bytes n) = Suc k \<longleftrightarrow> 256 ^ k \<le> n \<and> n < 256 ^ Suc k"
proof -
  have ex: "n \<noteq> 0 \<Longrightarrow> \<exists>j. 256 ^ j \<le> n \<and> n < 256 ^ Suc j"
  proof (induction n rule: nat_bytes.induct)
    case (1 n)
    show ?case
    proof (cases "n div 256 = 0")
      case True
      then show ?thesis using 1 by (intro exI [of _ 0]) auto
    next
      case False
      with 1 obtain j where "256 ^ j \<le> n div 256" "n div 256 < 256 ^ Suc j" by blast
      then show ?thesis by (intro exI [of _ "Suc j"]) (auto simp: less_eq_div_iff_mult_less_eq div_less_iff_less_mult algebra_simps)
    qed
  qed
  show ?thesis
  proof (cases "n = 0")
    case False
    with ex obtain j where "256 ^ j \<le> n" "n < 256 ^ Suc j" by blast
    then show ?thesis using length_nat_bytes [of j n] length_nat_bytes [of k n] by auto
  qed (simp add: nat_bytes.simps)
qed

lemma hd_nat_bytes: "n \<noteq> 0 \<Longrightarrow> nat_bytes n \<noteq> [] \<and> hd (nat_bytes n) \<noteq> 0"
proof (induction n rule: nat_bytes.induct)
  case (1 n)
  show ?case
  proof (cases "n div 256 = 0")
    case True
    then have "(of_nat n :: byte) \<noteq> 0"
      using "1.prems" by (auto simp: word_of_nat_eq_0_iff dest: nat_dvd_not_less)
    then show ?thesis using "1.prems" True by (simp add: nat_bytes.simps [of n] nat_bytes.simps [of 0])
  next
    case False
    then show ?thesis using 1 by (simp add: nat_bytes.simps [of n])
  qed
qed

lemma ipToBigInt_bigIntToIP:
  assumes "length (bigIntToIP v) = 4 \<or> length (bigIntToIP v) = 16"
  shows "ipToBigInt (bigIntToIP v) = Some \<bar>v\<bar>"
proof -
  have "nat \<bar>v\<bar> \<noteq> 0" using assms by (auto simp: bigIntToIP_def nat_bytes.simps [of 0])
  then have "hd (take 12 (bigIntToIP v)) \<noteq> 0"
    using hd_nat_bytes [of "nat \<bar>v\<bar>"] by (simp add: bigIntToIP_def hd_take)
  moreover have "hd v4InV6Prefix = 0" by (simp add: v4InV6Prefix_def)
  ultimately have "take 12 (bigIntToIP v) \<noteq> v4InV6Prefix" by metis
  then show ?thesis
    using assms by (auto simp: ipToBigInt_def To4_def To16_def bigIntToIP_def bytes_int_nat_bytes)
qed

lemma length_bigIntToIP:
  assumes "0 \<le> v"
  shows "length (bigIntToIP v) = Suc k \<longleftrightarrow> 256 ^ k \<le> v \<and> v < 256 ^ Suc k"
proof -
  have "(256 ^ k \<le> nat v \<longleftrightarrow> 256 ^ k \<le> v) \<and> (nat v < 256 ^ Suc k \<longleftrightarrow> v < 256 ^ Suc k)"
    using assms by (simp add: le_nat_iff nat_less_iff)
  then show ?thesis using assms by (simp add: bigIntToIP_def length_nat_bytes_iff)
qed

section \<open>The interface\<close>

text \<open>
  One network of the allocator, with the lock held: \<^verbatim>\<open>RequestIP\<close> without an address, with an
  address, and \<^verbatim>\<open>ReleaseIP\<close>. A request that panics leaves the map alone.
\<close>

definition am_get :: "allocatedMap \<Rightarrow> allocatedMap \<times> IP option" where
  "am_get am = (case getNextIP am of (am', Inr ip) \<Rightarrow> (am', Some ip) | (am', Inl _) \<Rightarrow> (am', None))"

definition am_claim :: "allocatedMap \<Rightarrow> IP \<Rightarrow> allocatedMap \<times> bool" where
  "am_claim am ip =
     (case checkIP am ip of None \<Rightarrow> (am, False) | Some (am', r) \<Rightarrow> (am', \<exists>x. r = Inr x))"

definition am_release :: "allocatedMap \<Rightarrow> IP \<Rightarrow> allocatedMap" where
  "am_release am ip = am\<lparr>am_p := am_p am - {ip_String ip}\<rparr>"

lemma am_get_Some: "am_get am = (am', Some ip) \<longleftrightarrow> getNextIP am = (am', Inr ip)"
  by (auto simp: am_get_def split: prod.splits sum.splits)

lemma am_get_None: "am_get am = (am', None) \<longleftrightarrow> (\<exists>e. getNextIP am = (am', Inl e))"
  by (auto simp: am_get_def split: prod.splits sum.splits)

interpretation ips: unique_allocator am_get am_claim am_release ip_String am_p am_inv
proof (unfold_locales, goal_cases)
  case (1 a a' ip)
  then show ?case using getNextIP_Inr(1) [of a a' ip] by (auto simp: am_get_Some am_taken_def)
next
  case (2 a a' ip)
  then show ?case using getNextIP_Inr(1) [of a a' ip] by (auto simp: am_get_Some)
next
  case (3 a a' r)
  then show ?case by (cases r) (auto simp: am_get_Some am_get_None intro: getNextIP_inv)
next
  case (4 a a')
  then show ?case using getNextIP_Inl(1) by (auto simp: am_get_None)
next
  case (7 a ip a' b)
  then show ?case
    by (auto simp: am_claim_def split: option.splits prod.splits intro: checkIP_inv)
qed (auto simp: am_claim_def am_release_def am_inv_def checkIP_def split: if_splits option.splits)

section \<open>Properties\<close>

text \<open>Every network of the allocator is well formed, and what the operations keep of it.\<close>

definition ipa_inv :: "IPAllocator \<Rightarrow> bool" where
  "ipa_inv a \<longleftrightarrow> (\<forall>key am. gget a key = Some am \<longrightarrow> am_inv am)"

lemma newAllocatedMap_inv: "newAllocatedMap n = Some am \<Longrightarrow> am_inv am \<and> am_p am = {}"
  by (auto simp: newAllocatedMap_def am_inv_def split: option.splits)

lemma RegisterSubnet_inv: "ipa_inv a \<Longrightarrow> RegisterSubnet a n sub = Some (a', e) \<Longrightarrow> ipa_inv a'"
  by (auto simp: RegisterSubnet_def ipa_inv_def am_inv_def Let_def
      split: if_splits option.splits prod.splits)

lemma ReleaseIP_inv: "ipa_inv a \<Longrightarrow> ipa_inv (ReleaseIP a n ip)"
  by (auto simp: ReleaseIP_def ipa_inv_def am_inv_def split: option.splits)

text \<open>The map that a request on a network works on.\<close>

definition network_map :: "IPAllocator \<Rightarrow> IPNet \<Rightarrow> allocatedMap option" where
  "network_map a n = (case gget a (net_String n) of Some am \<Rightarrow> Some am | None \<Rightarrow> newAllocatedMap n)"

lemma network_map_inv: "ipa_inv a \<Longrightarrow> network_map a n = Some am \<Longrightarrow> am_inv am"
  using newAllocatedMap_inv by (auto simp: network_map_def ipa_inv_def split: option.splits)

lemma RequestIP_inv: "ipa_inv a \<Longrightarrow> RequestIP a n ip = Some (a', r) \<Longrightarrow> ipa_inv a'"
  using network_map_inv [of a "the n"]
  by (auto simp: RequestIP_def ipa_inv_def network_map_def [symmetric] Let_def
      split: option.splits prod.splits if_splits intro: getNextIP_inv checkIP_inv)

text \<open>
  C29: asking for any address of a network fails exactly when every address of its range is taken;
  otherwise the answer is the first free address in cyclic order behind the last one handed out,
  it becomes taken, no other network changes, and the allocator stays well formed.
\<close>

theorem RequestIP_next:
  assumes "ipa_inv a" "network_map a n = Some am"
  shows "\<exists>am' r. RequestIP a (Some n) None = Some (gput (net_String n) am' a, r) \<and>
    ipa_inv (gput (net_String n) am' a) \<and>
    (case r of
       Inl e \<Rightarrow> e = ErrNoAvailableIPs \<and> am' = am \<and> (\<forall>q \<in> {am_begin am..am_end am}. am_taken am q)
     | Inr ip \<Rightarrow> (\<exists>j. 0 \<le> j \<and> j \<le> am_end am - am_begin am \<and>
         ip = bigIntToIP (am_candidate am (am_last am) j) \<and> ip_String ip \<notin> am_p am \<and>
         (\<forall>i. 0 \<le> i \<and> i < j \<longrightarrow> am_taken am (am_candidate am (am_last am) i)) \<and>
         am' = am\<lparr>am_p := insert (ip_String ip) (am_p am), am_last := am_candidate am (am_last am) j\<rparr>))"
proof -
  obtain am' r where get: "getNextIP am = (am', r)" by fastforce
  then have req: "RequestIP a (Some n) None = Some (gput (net_String n) am' a, r)"
    using assms(2) by (auto simp: RequestIP_def network_map_def Let_def split: option.splits)
  note inv = network_map_inv [OF assms]
  show ?thesis
    using req RequestIP_inv [OF assms(1) req] getNextIP_Inl [OF inv] getNextIP_Inr(1) [OF inv] get
    by (cases r) (auto simp: am_taken_def)
qed

theorem RequestIP_next_witness:
  "\<exists>am. ipa_inv [] \<and>
   network_map [] \<lparr>net_IP = [10, 0, 0, 4], net_Mask = [255, 255, 255, 252]\<rparr> = Some am \<and>
   am_begin am = 167772165 \<and> am_end am = 167772166 \<and>
   (\<exists>a r. RequestIP [] (Some \<lparr>net_IP = [10, 0, 0, 4], net_Mask = [255, 255, 255, 252]\<rparr>) None
       = Some (a, r) \<and> ipa_inv a)"
proof -
  let ?n = "\<lparr>net_IP = [10, 0, 0, 4], net_Mask = [255, 255, 255, 252]\<rparr>"
  let ?am = "\<lparr>am_p = {}, am_last = 167772164, am_begin = 167772165, am_end = 167772166\<rparr>"
  have inv: "ipa_inv []" by (simp add: ipa_inv_def)
  have nm: "network_map [] ?n = Some ?am"
    by (simp add: network_map_def newAllocatedMap_def NetworkRange_def To4_def ip_Mask_def
        ipToBigInt_def bytes_int_def)
  have "\<exists>a r. RequestIP [] (Some ?n) None = Some (a, r) \<and> ipa_inv a"
    using RequestIP_next [OF inv nm] by blast
  with inv nm show ?thesis by (intro exI [of _ ?am]) simp
qed



text \<open>
  C32: the address made of a position is a valid IP address, and then stands for that position,
  exactly when the position has four or sixteen significant bytes: positions with a leading zero
  byte (networks such as 0.0.0.0/8 or 64:ff9b::/96) give a short slice that is no address.
\<close>

theorem bigIntToIP_valid:
  "To16 (bigIntToIP v) \<noteq> None \<and> ipToBigInt (bigIntToIP v) = Some \<bar>v\<bar> \<longleftrightarrow>
   2 ^ 24 \<le> \<bar>v\<bar> \<and> \<bar>v\<bar> < 2 ^ 32 \<or> 2 ^ 120 \<le> \<bar>v\<bar> \<and> \<bar>v\<bar> < 2 ^ 128"
proof -
  have same: "bigIntToIP v = bigIntToIP \<bar>v\<bar>" by (simp add: bigIntToIP_def)
  have "length (bigIntToIP v) = 4 \<longleftrightarrow> 2 ^ 24 \<le> \<bar>v\<bar> \<and> \<bar>v\<bar> < 2 ^ 32"
    using length_bigIntToIP [of "\<bar>v\<bar>" 3] unfolding same by simp
  moreover have "length (bigIntToIP v) = 16 \<longleftrightarrow> 2 ^ 120 \<le> \<bar>v\<bar> \<and> \<bar>v\<bar> < 2 ^ 128"
    using length_bigIntToIP [of "\<bar>v\<bar>" 15] unfolding same by simp
  ultimately show ?thesis
    using ipToBigInt_bigIntToIP [of v] by (auto simp: To16_def)
qed

end
