(* ===== verification/Api.thy ===== *)
theory Api
  imports Runv_Prelude
begin

text \<open>
  The data that crosses the interfaces of the sandbox: the descriptions of \<^verbatim>\<open>api/descriptions.go\<close>
  with the helpers of \<^verbatim>\<open>api/helpers.go\<close>, the results of \<^verbatim>\<open>api/status.go\<close> and
  \<^verbatim>\<open>hypervisor/errors.go\<close>, the events of \<^verbatim>\<open>hypervisor/events.go\<close> with their numbers from
  \<^verbatim>\<open>hypervisor/constants.go\<close>, the responses of \<^verbatim>\<open>hypervisor/types/types.go\<close>, and the types
  that \<^verbatim>\<open>agent/sandbox_agent.go\<close> shares with the agents. Of the OCI specification the records
  keep the fields that the program reads. Descriptions handed in by a caller hold no nil pointers,
  except where a field is an \<^typ>\<open>'a option\<close>.
\<close>

section \<open>Descriptions\<close>

record NeighborNetworks =
  nn_InternalNetworks :: "string list"
  nn_ExternalNetworks :: "string list"

record SandboxConfig =
  sc_Hostname :: string
  sc_Dns :: "string list"
  sc_Neighbors :: "NeighborNetworks option"
  sc_DnsOptions :: "string list"
  sc_DnsSearch :: "string list"

record VolumeOption =
  vo_User :: string
  vo_Monitors :: "string list"
  vo_Keyring :: string
  vo_BytesPerSec :: int
  vo_Iops :: int

record VolumeDescription =
  vd_Name :: string
  vd_Source :: string
  vd_Format :: string
  vd_Fstype :: string
  vd_Options :: "VolumeOption option"
  vd_DockerVolume :: bool
  vd_ReadOnly :: bool

record InterfaceDescription =
  id_Id :: string
  id_Name :: string
  id_Lo :: bool
  id_Bridge :: string
  id_Ip :: string
  id_Mac :: string
  id_Mtu :: nat
  id_Gw :: string
  id_TapName :: string
  id_Options :: string

record PortDescription =
  pd_HostPort :: int
  pd_ContainerPort :: int
  pd_Protocol :: string

record VolumeMount =
  vm_Path :: string
  vm_ReadOnly :: bool

record VolumeReference =
  vr_Name :: string
  vr_MountPoints :: "VolumeMount list"

record UserGroupInfo =
  ugi_User :: string
  ugi_Group :: string
  ugi_AdditionalGroups :: "string list"

record OciUser =
  ou_UID :: uint32
  ou_GID :: uint32
  ou_AdditionalGids :: "uint32 list"

record OciProcess =
  op_Terminal :: bool
  op_User :: OciUser
  op_Args :: "string list"
  op_Env :: "string list"
  op_Cwd :: string

record OciRoot =
  or_Path :: string
  or_Readonly :: bool

record OciMount =
  om_Destination :: string
  om_Type :: string
  om_Source :: string
  om_Options :: "string list"

record OciSpec =
  os_Hostname :: string
  os_Process :: "OciProcess option"
  os_Root :: "OciRoot option"
  os_Mounts :: "OciMount list"
  os_Sysctl :: "(string, string) gomap"

record ContainerDescription =
  cd_Id :: string
  cd_Name :: string
  cd_Image :: string
  cd_Labels :: "(string, string) gomap"
  cd_StopSignal :: string
  cd_RootVolume :: VolumeDescription
  cd_RootPath :: string
  cd_UGI :: "UserGroupInfo option"
  cd_Volumes :: "(string, VolumeReference) gomap"
  cd_Initialize :: bool
  cd_OciSpec :: OciSpec

definition IsDir :: "VolumeDescription \<Rightarrow> bool" where
  "IsDir v \<longleftrightarrow> vd_Format v = ''vfs''"

definition IsNas :: "VolumeDescription \<Rightarrow> bool" where
  "IsNas v \<longleftrightarrow> vd_Format v = ''nas''"

definition SandboxInfoFromOCF :: "OciSpec \<Rightarrow> SandboxConfig" where
  "SandboxInfoFromOCF s =
     \<lparr>sc_Hostname = os_Hostname s, sc_Dns = [], sc_Neighbors = None, sc_DnsOptions = [], sc_DnsSearch = []\<rparr>"

definition virtual_mounts :: "string list" where
  "virtual_mounts = [''proc'', ''sysfs'', ''mqueue'', ''tmpfs'', ''cgroup'', ''devpts'']"

text \<open>
  \<open>None\<close> is the nil dereference of a specification without a root. The assignment to the path of
  the root goes through the pointer that the two specifications share, so the caller's
  specification is returned changed as well.
\<close>

definition ContainerDescriptionFromOCF ::
  "string \<Rightarrow> OciSpec \<Rightarrow> (ContainerDescription \<times> OciSpec) option" where
  "ContainerDescriptionFromOCF cid s =
     (case os_Root s of
        None \<Rightarrow> None
      | Some r \<Rightarrow>
          (let s' = s\<lparr>os_Root := Some (r\<lparr>or_Path := []\<rparr>)\<rparr>;
               spec = s'\<lparr>os_Mounts := [m \<leftarrow> os_Mounts s. om_Type m \<in> set virtual_mounts]\<rparr>;
               rootfs = \<lparr>vd_Name = cid, vd_Source = cid, vd_Format = ''vfs'', vd_Fstype = ''dir'',
                         vd_Options = None, vd_DockerVolume = False, vd_ReadOnly = or_Readonly r\<rparr>
           in Some (\<lparr>cd_Id = cid, cd_Name = os_Hostname s, cd_Image = [], cd_Labels = [],
                     cd_StopSignal = [], cd_RootVolume = rootfs, cd_RootPath = ''rootfs'',
                     cd_UGI = None, cd_Volumes = [], cd_Initialize = False, cd_OciSpec = spec\<rparr>, s')))"

section \<open>Events\<close>

record RouteRule =
  rr_Destination :: string
  rr_Gateway :: string
  rr_ViaThis :: bool

record InterfaceCreated =
  ic_Id :: string
  ic_Index :: int
  ic_PCIAddr :: int
  ic_TapFd :: int
  ic_Bridge :: string
  ic_HostDevice :: string
  ic_DeviceName :: string
  ic_MacAddr :: string
  ic_IpAddr :: string
  ic_NewName :: string
  ic_Mtu :: nat
  ic_RouteTable :: "RouteRule list"

datatype VmEvent =
    VmExit
  | VmStartFailEvent string
  | VmKilledEvent bool
  | VmTimeout
  | InitFailedEvent string
  | ShutdownCommand bool
  | ReleaseVMCommand
  | VolumeUnmounted string bool
  | BlockdevInsertedEvent string string
  | InterfaceCreatedEvent InterfaceCreated
  | NetDevInsertedEvent string int string int int
  | NetDevRemovedEvent int
  | DeviceFailed VmEvent
  | Interrupted string

datatype EventCode =
    EVENT_VM_EXIT | EVENT_VM_KILL | EVENT_VM_TIMEOUT | EVENT_BLOCK_INSERTED | EVENT_BLOCK_EJECTED
  | EVENT_INTERFACE_ADD | EVENT_INTERFACE_INSERTED | EVENT_INTERFACE_EJECTED
  | COMMAND_SHUTDOWN | COMMAND_RELEASE | COMMAND_PAUSEVM
  | ERROR_VM_START_FAILED | ERROR_INIT_FAIL | ERROR_QMP_FAIL | ERROR_INTERRUPTED

fun Event :: "VmEvent \<Rightarrow> EventCode" where
  "Event (VmStartFailEvent _) = ERROR_VM_START_FAILED"
| "Event VmExit = EVENT_VM_EXIT"
| "Event (VmKilledEvent _) = EVENT_VM_KILL"
| "Event VmTimeout = EVENT_VM_TIMEOUT"
| "Event (VolumeUnmounted _ _) = EVENT_BLOCK_EJECTED"
| "Event (BlockdevInsertedEvent _ _) = EVENT_BLOCK_INSERTED"
| "Event (InterfaceCreatedEvent _) = EVENT_INTERFACE_ADD"
| "Event (NetDevInsertedEvent _ _ _ _ _) = EVENT_INTERFACE_INSERTED"
| "Event (NetDevRemovedEvent _) = EVENT_INTERFACE_EJECTED"
| "Event (ShutdownCommand _) = COMMAND_SHUTDOWN"
| "Event ReleaseVMCommand = COMMAND_RELEASE"
| "Event (InitFailedEvent _) = ERROR_INIT_FAIL"
| "Event (DeviceFailed _) = ERROR_QMP_FAIL"
| "Event (Interrupted _) = ERROR_INTERRUPTED"

fun EventString :: "EventCode \<Rightarrow> string" where
  "EventString ERROR_VM_START_FAILED = ''ERROR_VM_START_FAILED''"
| "EventString EVENT_VM_EXIT = ''EVENT_VM_EXIT''"
| "EventString EVENT_VM_KILL = ''EVENT_VM_KILL''"
| "EventString EVENT_VM_TIMEOUT = ''EVENT_VM_TIMEOUT''"
| "EventString COMMAND_PAUSEVM = ''COMMAND_PAUSEVM''"
| "EventString COMMAND_SHUTDOWN = ''COMMAND_SHUTDOWN''"
| "EventString COMMAND_RELEASE = ''COMMAND_RELEASE''"
| "EventString ERROR_INIT_FAIL = ''ERROR_INIT_FAIL''"
| "EventString ERROR_QMP_FAIL = ''ERROR_QMP_FAIL''"
| "EventString ERROR_INTERRUPTED = ''ERROR_INTERRUPTED''"
| "EventString _ = ''UNKNOWN''"

section \<open>Results and errors\<close>

datatype ErrorType = ET_SPEC | ET_BUSY | ET_DEVICE | ET_NOT_READY | ET_COMMON

record CommonError =
  ce_errType :: ErrorType
  ce_contextId :: string
  ce_cause :: string

definition NewSpecError :: "string \<Rightarrow> string \<Rightarrow> CommonError" where
  "NewSpecError i cause = \<lparr>ce_errType = ET_SPEC, ce_contextId = i, ce_cause = ''spec error: '' @ cause\<rparr>"

definition NewBusyError :: "string \<Rightarrow> string \<Rightarrow> CommonError" where
  "NewBusyError i cause =
     \<lparr>ce_errType = ET_BUSY, ce_contextId = i, ce_cause = ''resouse unavailable: '' @ cause\<rparr>"

definition NewDeviceError :: "string \<Rightarrow> string \<Rightarrow> CommonError" where
  "NewDeviceError i cause =
     \<lparr>ce_errType = ET_DEVICE, ce_contextId = i, ce_cause = ''device operation error: '' @ cause\<rparr>"

definition NewNotReadyError :: "string \<Rightarrow> CommonError" where
  "NewNotReadyError i =
     \<lparr>ce_errType = ET_NOT_READY, ce_contextId = i, ce_cause = ''vm is not ready to accept requests''\<rparr>"

definition NewCommonError :: "string \<Rightarrow> string \<Rightarrow> CommonError" where
  "NewCommonError i reason = \<lparr>ce_errType = ET_COMMON, ce_contextId = i, ce_cause = reason\<rparr>"

text \<open>The values of the interface \<^verbatim>\<open>api.Result\<close>: four types implement it.\<close>

datatype Result =
    ResultBase string bool string
  | CommonErrorResult CommonError
  | NetDevInsertedResult string int string int int
  | DeviceFailedResult VmEvent

definition NewResultBase :: "string \<Rightarrow> bool \<Rightarrow> string \<Rightarrow> Result" where
  "NewResultBase i success message = ResultBase i success message"

fun DeviceFailed_ResultId :: "VmEvent \<Rightarrow> string" where
  "DeviceFailed_ResultId (InterfaceCreatedEvent s) = ic_Id s"
| "DeviceFailed_ResultId (NetDevInsertedEvent i _ _ _ _) = i"
| "DeviceFailed_ResultId _ = []"

fun ResultId :: "Result \<Rightarrow> string" where
  "ResultId (ResultBase i _ _) = i"
| "ResultId (CommonErrorResult e) = ce_contextId e"
| "ResultId (NetDevInsertedResult i _ _ _ _) = i"
| "ResultId (DeviceFailedResult s) = DeviceFailed_ResultId s"

fun IsSuccess :: "Result \<Rightarrow> bool" where
  "IsSuccess (ResultBase _ s _) = s"
| "IsSuccess (CommonErrorResult _) = False"
| "IsSuccess (NetDevInsertedResult _ _ _ _ _) = True"
| "IsSuccess (DeviceFailedResult _) = False"

fun Message :: "Result \<Rightarrow> string" where
  "Message (ResultBase _ _ m) = m"
| "Message (CommonErrorResult e) = ce_cause e"
| "Message (NetDevInsertedResult _ _ _ _ _) = ''NIC inserted''"
| "Message (DeviceFailedResult _) = ''Device operation failed''"

datatype ResponseCode = E_OK | E_VM_SHUTDOWN | E_POD_RUNNING | E_BAD_REQUEST | E_FAILED | E_NO_TTY
  | E_JSON_PARSE_FAIL | E_UNEXPECTED

record VmResponse =
  rsp_VmId :: string
  rsp_Code :: ResponseCode
  rsp_Cause :: string
  rsp_Reply :: "VmEvent option"

section \<open>Types of the agent interface\<close>

datatype InfUpdateType = AddInf | DelInf | AddIP | DelIP | SetMtu

record IpAddress =
  ipa_IpAddress :: string
  ipa_NetMask :: string

record Route =
  rt_Dest :: string
  rt_Gateway :: string
  rt_Device :: string

record Storage =
  st_Driver :: string
  st_DriverOptions :: "(string, string) gomap"
  st_Source :: string
  st_Fstype :: string
  st_Options :: "string list"
  st_MountPoint :: string

end
