(* ===== verification/HostNet.thy ===== *)
theory HostNet
  imports IpAllocator Api
begin

text \<open>
  Addresses of the host network: \<^verbatim>\<open>IpParser\<close> of \<^verbatim>\<open>hypervisor/network/network.go\<close> with
  the parsers of the package \<^verbatim>\<open>net\<close> it calls, and the bridge of
  \<^verbatim>\<open>hypervisor/network/network_linux.go\<close>: \<^verbatim>\<open>ensureBridge\<close>, \<^verbatim>\<open>AllocateAddr\<close>,
  \<^verbatim>\<open>Configure\<close> and \<^verbatim>\<open>ReleaseAddr\<close>. What the kernel knows of links and the random bytes are
  arguments. \<open>[]\<close> is the nil address.
\<close>

section \<open>Parsing\<close>

definition is_digit :: "char \<Rightarrow> bool" where
  "is_digit c \<longleftrightarrow> 48 \<le> (of_char c :: nat) \<and> (of_char c :: nat) \<le> 57"

text \<open>
  \<^verbatim>\<open>dtoi\<close>: the value of the leading digits and what follows them; \<open>None\<close> without a digit or for a
  number of \<^verbatim>\<open>0xFFFFFF\<close> and more.
\<close>

definition dtoi :: "string \<Rightarrow> (nat \<times> string) option" where
  "dtoi s =
     (let ds = takeWhile is_digit s
      in if ds = [] \<or> atou ds \<ge> 16777215 then None else Some (atou ds, dropWhile is_digit s))"

definition hex_val :: "char \<Rightarrow> nat option" where
  "hex_val c =
     (let n = of_char c
      in if 48 \<le> n \<and> n \<le> 57 then Some (n - 48)
         else if 97 \<le> n \<and> n \<le> 102 then Some (n - 87)
         else if 65 \<le> n \<and> n \<le> 70 then Some (n - 55) else None)"

definition xtoi :: "string \<Rightarrow> (nat \<times> string) option" where
  "xtoi s =
     (let ds = takeWhile (\<lambda>c. hex_val c \<noteq> None) s; n = foldl (\<lambda>a c. a * 16 + the (hex_val c)) 0 ds
      in if ds = [] \<or> n \<ge> 16777215 then None else Some (n, dropWhile (\<lambda>c. hex_val c \<noteq> None) s))"

fun parse_octets :: "nat \<Rightarrow> bool \<Rightarrow> string \<Rightarrow> byte list option" where
  "parse_octets 0 first s = (if s = [] then Some [] else None)"
| "parse_octets (Suc k) first s =
     (if s = [] \<or> (\<not> first \<and> hd s \<noteq> CHR ''.'') then None
      else case dtoi (if first then s else tl s) of
        None \<Rightarrow> None
      | Some (n, rest) \<Rightarrow>
          if n > 255 then None
          else map_option (\<lambda>bs. of_nat n # bs) (parse_octets k False rest))"

definition parseIPv4 :: "string \<Rightarrow> IP" where
  "parseIPv4 s = (case parse_octets 4 True s of Some bs \<Rightarrow> v4InV6Prefix @ bs | None \<Rightarrow> [])"

text \<open>
  The loop of \<^verbatim>\<open>parseIPv6\<close>: the bytes so far, the position of the ellipsis if there was one, and
  the rest of the string. The loop runs at most eight times, once for each pair of bytes.
\<close>

fun parse_groups :: "nat \<Rightarrow> byte list \<Rightarrow> nat option \<Rightarrow> string \<Rightarrow> (byte list \<times> nat option) option" where
  "parse_groups 0 ip ell s = (if s = [] then Some (ip, ell) else None)"
| "parse_groups (Suc k) ip ell s =
     (case xtoi s of
        None \<Rightarrow> None
      | Some (n, rest) \<Rightarrow>
          if n > 65535 then None
          else if rest \<noteq> [] \<and> hd rest = CHR ''.'' then
            (if ell = None \<and> length ip \<noteq> 12 then None
             else if length ip + 4 > 16 then None
             else map_option (\<lambda>bs. (ip @ bs, ell)) (parse_octets 4 True s))
          else (let ip' = ip @ [of_nat (n div 256), of_nat (n mod 256)] in
                if rest = [] then Some (ip', ell)
                else if hd rest \<noteq> CHR '':'' \<or> tl rest = [] then None
                else if hd (tl rest) = CHR '':'' then
                  (if ell \<noteq> None then None
                   else if tl (tl rest) = [] then Some (ip', Some (length ip'))
                   else parse_groups k ip' (Some (length ip')) (tl (tl rest)))
                else parse_groups k ip' ell (tl rest)))"

definition parseIPv6 :: "string \<Rightarrow> IP" where
  "parseIPv6 s =
     (let lead = take 2 s = ''::'' in
      if s = ''::'' then replicate 16 0
      else case parse_groups 8 [] (if lead then Some 0 else None) (if lead then drop 2 s else s) of
        None \<Rightarrow> []
      | Some (ip, None) \<Rightarrow> if length ip < 16 then [] else ip
      | Some (ip, Some e) \<Rightarrow>
          if length ip < 16 then take e ip @ replicate (16 - length ip) 0 @ drop e ip else [])"

definition ParseIP :: "string \<Rightarrow> IP" where
  "ParseIP s =
     (case find (\<lambda>c. c = CHR ''.'' \<or> c = CHR '':'') s of
        None \<Rightarrow> []
      | Some c \<Rightarrow> if c = CHR ''.'' then parseIPv4 s else parseIPv6 s)"

definition CIDRMask :: "nat \<Rightarrow> nat \<Rightarrow> byte list" where
  "CIDRMask ones bits =
     map (\<lambda>i. if 8 * (i + 1) \<le> ones then 255
              else if ones \<le> 8 * i then 0
              else NOT (of_nat (255 div 2 ^ (ones - 8 * i)))) [0..<bits div 8]"

definition ParseCIDR :: "string \<Rightarrow> (IP \<times> IPNet) option" where
  "ParseCIDR s =
     (let addr = takeWhile (\<lambda>c. c \<noteq> CHR ''/'') s; msk = drop (length addr + 1) s;
          ip4 = parseIPv4 addr; iplen = (if ip4 = [] then 16 else 4);
          ip = (if ip4 = [] then parseIPv6 addr else ip4)
      in if CHR ''/'' \<notin> set s then None
         else case dtoi msk of
           None \<Rightarrow> None
         | Some (n, rest) \<Rightarrow>
             if ip = [] \<or> rest \<noteq> [] \<or> n > 8 * iplen then None
             else (let m = CIDRMask n (8 * iplen) in Some (ip, \<lparr>net_IP = ip_Mask ip m, net_Mask = m\<rparr>)))"

definition DefaultMask :: "IP \<Rightarrow> byte list" where
  "DefaultMask ip =
     (case To4 ip of
        None \<Rightarrow> []
      | Some ip4 \<Rightarrow>
          if hd ip4 < 128 then [255, 0, 0, 0]
          else if hd ip4 < 192 then [255, 255, 0, 0] else [255, 255, 255, 0])"

text \<open>\<open>None\<close> is the error of \<^verbatim>\<open>ParseCIDR\<close>.\<close>

definition IpParser :: "string \<Rightarrow> (IP \<times> byte list) option" where
  "IpParser ipstr =
     (case ParseCIDR ipstr of
        Some (ip, ipnet) \<Rightarrow> Some (ip, net_Mask ipnet)
      | None \<Rightarrow> (let ip = ParseIP ipstr in if ip \<noteq> [] then Some (ip, DefaultMask ip) else None))"

section \<open>The bridge\<close>

record Settings =
  s_Mac :: string
  s_IPAddress :: string
  s_Gateway :: string
  s_Bridge :: string
  s_Device :: string
  s_Mtu :: nat
  s_Automatic :: bool

record HostNetwork =
  hn_Allocator :: IPAllocator
  hn_BridgeIPv4Net :: "IPNet option"
  hn_BridgeIface :: string
  hn_BridgeIP :: string

definition DefaultBridgeIface :: string where "DefaultBridgeIface = ''hyper0''"
definition DefaultBridgeIP :: string where "DefaultBridgeIP = ''192.168.123.0/24''"

text \<open>The first result of \<^verbatim>\<open>IPMask.Size\<close>.\<close>

definition mask_Size :: "byte list \<Rightarrow> nat" where
  "mask_Size m = (case simpleMaskLength m of Some l \<Rightarrow> l | None \<Rightarrow> 0)"

definition net_Contains :: "IPNet \<Rightarrow> IP \<Rightarrow> bool" where
  "net_Contains n ip =
     (let ip' = (case To4 ip of Some x \<Rightarrow> x | None \<Rightarrow> ip);
          nn = (case To4 (net_IP n) of Some x \<Rightarrow> x | None \<Rightarrow> net_IP n);
          m = (if length (net_Mask n) = 16 \<and> length nn = 4 then drop 12 (net_Mask n) else net_Mask n)
      in length ip' = length nn \<and> length m = length nn \<and>
         map2 (AND) nn m = map2 (AND) ip' m)"

text \<open>
  What the kernel says: the link of the bridge does not exist and its creation fails with an error
  other than that it exists already, or not; or it exists with these addresses (\<open>None\<close>: they
  cannot be listed).
\<close>

datatype bridge_link = NoLink bool | Link "IPNet list option"

text \<open>\<open>Inl\<close> is an error; the outer \<open>None\<close> a panic of the allocator.\<close>

definition ensureBridge ::
  "string \<Rightarrow> string \<Rightarrow> bridge_link \<Rightarrow> HostNetwork \<Rightarrow> (HostNetwork \<times> bool) option" where
  "ensureBridge bIface bIP link hn0 =
     (let hn = hn0\<lparr>hn_BridgeIface := (if bIface = [] then DefaultBridgeIface else bIface),
                  hn_BridgeIP := (if bIP = [] then DefaultBridgeIP else bIP)\<rparr>;
          reserve = (\<lambda>h n. map_option (\<lambda>(a, _). (h\<lparr>hn_Allocator := a\<rparr>, True))
                       (RequestIP (hn_Allocator h) (Some n) (Some (net_IP n))))
      in case ParseCIDR (hn_BridgeIP hn) of
           None \<Rightarrow> Some (hn, False)
         | Some (ipAddr, ipNet) \<Rightarrow>
             (case link of
                NoLink fails \<Rightarrow>
                  (case RequestIP (hn_Allocator hn) (Some ipNet)
                          (if To16 ipAddr = To16 (net_IP ipNet) then None else Some ipAddr) of
                     None \<Rightarrow> None
                   | Some (a, Inl _) \<Rightarrow> Some (hn\<lparr>hn_Allocator := a\<rparr>, False)
                   | Some (a, Inr ip) \<Rightarrow>
                       (let n = \<lparr>net_IP = ip, net_Mask = net_Mask ipNet\<rparr>;
                            h = hn\<lparr>hn_Allocator := a, hn_BridgeIPv4Net := Some n\<rparr>
                        in if fails then Some (h, False) else reserve h n))
              | Link None \<Rightarrow> Some (hn, False)
              | Link (Some []) \<Rightarrow> Some (hn, False)
              | Link (Some (n # _)) \<Rightarrow>
                  (let h = hn\<lparr>hn_BridgeIPv4Net := Some n\<rparr>
                   in if \<not> net_Contains n ipAddr \<or>
                         mask_Size (net_Mask ipNet) \<noteq> mask_Size (net_Mask n)
                      then Some (h, False) else reserve h n)))"

definition alphanum16 :: string where
  "alphanum16 = ''0123456789abcdef''"

text \<open>\<open>None\<close> as the random bytes: \<^verbatim>\<open>rand.Read\<close> failed.\<close>

definition genRandomMac :: "byte list option \<Rightarrow> string option" where
  "genRandomMac rnd =
     map_option (\<lambda>bytes.
       (let s = map (\<lambda>b. alphanum16 ! unat (b mod 16)) bytes
        in join_with CHR '':'' [''52:54'', take 2 s, take 2 (drop 2 s), take 2 (drop 4 s), take 2 (drop 6 s)]))
       rnd"

definition AllocateAddr ::
  "string \<Rightarrow> byte list option \<Rightarrow> HostNetwork \<Rightarrow> (HostNetwork \<times> Settings option) option" where
  "AllocateAddr requestedIP rnd hn =
     (let req = ParseIP requestedIP in
      case RequestIP (hn_Allocator hn) (hn_BridgeIPv4Net hn) (if req = [] then None else Some req) of
        None \<Rightarrow> None
      | Some (a, Inl _) \<Rightarrow> Some (hn\<lparr>hn_Allocator := a\<rparr>, None)
      | Some (a, Inr ip) \<Rightarrow>
          (case hn_BridgeIPv4Net hn of
             None \<Rightarrow> None
           | Some n \<Rightarrow>
               Some (hn\<lparr>hn_Allocator := a\<rparr>,
                 map_option (\<lambda>mac.
                   \<lparr>s_Mac = mac,
                    s_IPAddress = ip_String ip @ ''/'' @ utoa (mask_Size (net_Mask n)),
                    s_Gateway = ip_String (net_IP n), s_Bridge = hn_BridgeIface hn, s_Device = [],
                    s_Mtu = 0, s_Automatic = True\<rparr>)
                   (genRandomMac rnd))))"

definition Configure :: "byte list option \<Rightarrow> InterfaceDescription \<Rightarrow> Settings option" where
  "Configure rnd nif =
     map_option (\<lambda>mac.
       \<lparr>s_Mac = mac, s_IPAddress = id_Ip nif, s_Gateway = id_Gw nif, s_Bridge = id_Bridge nif,
        s_Device = id_TapName nif, s_Mtu = id_Mtu nif, s_Automatic = False\<rparr>)
       (if id_Mac nif = [] then genRandomMac rnd else Some (id_Mac nif))"

definition ReleaseAddr :: "string \<Rightarrow> HostNetwork \<Rightarrow> HostNetwork" where
  "ReleaseAddr releasedIP hn =
     hn\<lparr>hn_Allocator := ReleaseIP (hn_Allocator hn) (hn_BridgeIPv4Net hn) (ParseIP releasedIP)\<rparr>"

text \<open>Identifiers are ASCII, so that a rune is a byte.\<close>

definition NicName :: "string \<Rightarrow> int \<Rightarrow> string" where
  "NicName i index = (if length i > 12 then take 12 i else i) @ itoa index"

section \<open>What a string must look like to be an address\<close>

lemma set_dropWhile: "set s \<subseteq> Collect P \<union> set (dropWhile P s)"
  by (induction s) auto

lemma dtoi_chars: "dtoi s = Some (n, rest) \<Longrightarrow> set s \<subseteq> Collect is_digit \<union> set rest"
  using set_dropWhile [of s is_digit] by (simp add: dtoi_def Let_def split: if_splits)

lemma xtoi_chars: "xtoi s = Some (n, rest) \<Longrightarrow> set s \<subseteq> {c. hex_val c \<noteq> None} \<union> set rest"
  using set_dropWhile [of s "\<lambda>c. hex_val c \<noteq> None"] by (simp add: xtoi_def Let_def split: if_splits)

lemma parse_octets_chars: "parse_octets k f s = Some bs \<Longrightarrow> set s \<subseteq> Collect is_digit \<union> {CHR ''.''}"
proof (induction k arbitrary: f s bs)
  case (Suc k)
  from Suc.prems obtain n rest bs' where d: "dtoi (if f then s else tl s) = Some (n, rest)"
    and ne: "s \<noteq> []" and f: "f \<or> hd s = CHR ''.''" and r: "parse_octets k False rest = Some bs'"
    by (auto split: if_splits option.splits prod.splits)
  from Suc.IH [OF r] dtoi_chars [OF d]
  have "set (if f then s else tl s) \<subseteq> Collect is_digit \<union> {CHR ''.''}" by blast
  with f ne show ?case by (cases s) (auto split: if_splits)
qed (simp split: if_splits)

definition addr_chars :: "char set" where
  "addr_chars = {c. hex_val c \<noteq> None} \<union> {CHR ''.'', CHR '':''}"

lemma digit_addr_char: "is_digit c \<Longrightarrow> c \<in> addr_chars"
  by (auto simp: is_digit_def addr_chars_def hex_val_def Let_def)

lemma parse_groups_SucD:
  assumes "parse_groups (Suc k) ip ell s = Some r"
  shows "\<exists>n rest. xtoi s = Some (n, rest) \<and>
    (rest = [] \<or> (\<exists>bs. parse_octets 4 True s = Some bs) \<or>
     (\<exists>as ip' e. rest = CHR '':'' # as \<and> parse_groups k ip' e as = Some r) \<or>
     (\<exists>as ip' e. rest = CHR '':'' # CHR '':'' # as \<and> (as = [] \<or> parse_groups k ip' e as = Some r)))"
proof -
  obtain n rest where x: "xtoi s = Some (n, rest)" and n: "\<not> n > 65535"
    using assms by (simp split: option.splits if_splits prod.splits)
  show ?thesis
  proof (cases "rest = [] \<or> hd rest = CHR ''.''")
    case True
    then show ?thesis using assms x n by (auto split: if_splits)
  next
    case False
    then obtain a as where rest: "rest = a # as" "a \<noteq> CHR ''.''" by (cases rest) auto
    then have a: "a = CHR '':''" "as \<noteq> []" using assms x n by (simp_all add: Let_def split: if_splits)
    show ?thesis
    proof (cases "hd as = CHR '':''")
      case True
      then show ?thesis using assms x n rest a
        by (cases as) (simp_all add: Let_def split: if_splits, blast)
    next
      case ne: False
      then show ?thesis using assms x n rest a by (simp add: Let_def split: if_splits) blast
    qed
  qed
qed

lemma parse_groups_chars: "parse_groups k ip ell s = Some r \<Longrightarrow> set s \<subseteq> addr_chars"
proof (induction k arbitrary: ip ell s)
  case (Suc k)
  from parse_groups_SucD [OF Suc.prems] obtain n rest where x: "xtoi s = Some (n, rest)"
    and cs: "rest = [] \<or> (\<exists>bs. parse_octets 4 True s = Some bs) \<or>
     (\<exists>as ip' e. rest = CHR '':'' # as \<and> parse_groups k ip' e as = Some r) \<or>
     (\<exists>as ip' e. rest = CHR '':'' # CHR '':'' # as \<and> (as = [] \<or> parse_groups k ip' e as = Some r))"
    by blast
  have hex: "set s \<subseteq> addr_chars \<union> set rest" using xtoi_chars [OF x] by (auto simp: addr_chars_def)
  have colon: "CHR '':'' \<in> addr_chars" "CHR ''.'' \<in> addr_chars" by (simp_all add: addr_chars_def)
  from cs consider "rest = []" | bs where "parse_octets 4 True s = Some bs"
    | "set rest \<subseteq> addr_chars"
    using Suc.IH colon by fastforce
  then show ?case
  proof cases
    case 2
    from parse_octets_chars [OF 2] show ?thesis using digit_addr_char colon by blast
  qed (use hex in auto)
qed (simp split: if_splits)

lemma ParseIP_chars: "ParseIP s \<noteq> [] \<Longrightarrow> set s \<subseteq> addr_chars"
proof -
  assume "ParseIP s \<noteq> []"
  then consider "parseIPv4 s \<noteq> []" | "parseIPv6 s \<noteq> []"
    by (auto simp: ParseIP_def split: option.splits if_splits)
  then show ?thesis
  proof cases
    case 1
    then show ?thesis
      using parse_octets_chars [of 4 True s] digit_addr_char
      by (fastforce simp: parseIPv4_def addr_chars_def split: option.splits)
  next
    case 2
    show ?thesis
    proof (cases "s = ''::''")
      case False
      let ?lead = "take 2 s = ''::''"
      have "set (if ?lead then drop 2 s else s) \<subseteq> addr_chars"
        using 2 False parse_groups_chars [of 8 "[]" "if ?lead then Some 0 else None" "if ?lead then drop 2 s else s"]
        by (auto simp: parseIPv6_def Let_def split: option.splits)
      moreover have "set s = set (take 2 s) \<union> set (drop 2 s)"
        by (metis append_take_drop_id set_append)
      ultimately show ?thesis by (auto simp: addr_chars_def split: if_splits)
    qed (auto simp: addr_chars_def)
  qed
qed

lemma ParseIP_cidr:
  assumes "CHR ''/'' \<in> set s"
  shows "ParseIP s = []"
proof (rule ccontr)
  assume "ParseIP s \<noteq> []"
  from ParseIP_chars [OF this] assms have "CHR ''/'' \<in> addr_chars" by blast
  then show False by (simp add: addr_chars_def hex_val_def)
qed

lemma parse_octets_numeral:
  "parse_octets (numeral v) first s =
     (if s = [] \<or> (\<not> first \<and> hd s \<noteq> CHR ''.'') then None
      else case dtoi (if first then s else tl s) of
        None \<Rightarrow> None
      | Some (n, rest) \<Rightarrow>
          if n > 255 then None
          else map_option (\<lambda>bs. of_nat n # bs) (parse_octets (pred_numeral v) False rest))"
  by (subst numeral_eq_Suc, rule parse_octets.simps(2))

section \<open>Printing and parsing\<close>

lemma utoa_digits: "c \<in> set (utoa n) \<Longrightarrow> is_digit c"
  using utoa_chars [of c n] by (simp add: is_digit_def)

lemma dtoi_utoa:
  assumes "n < 16777215" "rest = [] \<or> \<not> is_digit (hd rest)"
  shows "dtoi (utoa n @ rest) = Some (n, rest)"
proof -
  have "takeWhile is_digit (utoa n @ rest) = utoa n" "dropWhile is_digit (utoa n @ rest) = rest"
    using assms(2) utoa_digits by (cases rest; auto simp: takeWhile_append dropWhile_append)+
  then show ?thesis using assms(1) by (simp add: dtoi_def)
qed

lemma dot_no_digit: "\<not> is_digit CHR ''.''"
  by (simp add: is_digit_def)

lemma parse_octets_dotted:
  assumes "bs \<noteq> []" "\<And>b. b \<in> set bs \<Longrightarrow> b < 256"
  shows "parse_octets (length bs) True (join_with CHR ''.'' (map utoa bs)) = Some (map of_nat bs)"
proof -
  have rest: "parse_octets (length cs) False (concat (map (\<lambda>c. CHR ''.'' # utoa c) cs)) = Some (map of_nat cs)"
    if "\<And>b. b \<in> set cs \<Longrightarrow> b < 256" for cs
    using that
  proof (induction cs)
    case (Cons c cs)
    have "dtoi (utoa c @ concat (map (\<lambda>c. CHR ''.'' # utoa c) cs)) = Some (c, concat (map (\<lambda>c. CHR ''.'' # utoa c) cs))"
      using Cons.prems [of c] by (intro dtoi_utoa) (cases cs; simp add: dot_no_digit)+
    moreover have "c \<le> 255" using Cons.prems [of c] by simp
    ultimately show ?case using Cons by simp
  qed simp
  have join: "join_with CHR ''.'' (map utoa (c # cs)) = utoa c @ concat (map (\<lambda>c. CHR ''.'' # utoa c) cs)" for c cs
    by (induction cs arbitrary: c) auto
  obtain c cs where bs: "bs = c # cs" using assms(1) by (cases bs) auto
  have "dtoi (utoa c @ concat (map (\<lambda>c. CHR ''.'' # utoa c) cs)) = Some (c, concat (map (\<lambda>c. CHR ''.'' # utoa c) cs))"
    using assms(2) [of c] bs by (intro dtoi_utoa) (cases cs; simp add: dot_no_digit)+
  moreover have "c \<le> 255" using assms(2) [of c] bs by simp
  ultimately show ?thesis using rest [of cs] assms(2) bs unfolding bs join by simp
qed

lemma find_dot:
  "(\<And>c. c \<in> set ds \<Longrightarrow> is_digit c) \<Longrightarrow>
   find (\<lambda>c. c = CHR ''.'' \<or> c = CHR '':'') (ds @ CHR ''.'' # r) = Some CHR ''.''"
proof (induction ds)
  case (Cons d ds)
  then have "is_digit d" by simp
  then have "d \<noteq> CHR ''.''" "d \<noteq> CHR '':''" by (auto simp: is_digit_def)
  with Cons show ?case by simp
qed simp

lemma ParseIP_dotted:
  assumes "length ip = 4"
  shows "ParseIP (dotted ip) = v4InV6Prefix @ ip"
proof -
  have lt: "b < 256" if "b \<in> set (map unat ip)" for b :: nat
  proof -
    from that obtain w :: byte where "b = unat w" by (metis (no_types) imageE list.set_map)
    then show ?thesis using unsigned_less [of w, where ?'a = nat] by simp
  qed
  have "map unat ip \<noteq> []" using assms by (cases ip) simp_all
  from parse_octets_dotted [OF this lt] assms have oct: "parse_octets 4 True (dotted ip) = Some ip"
    by (simp add: dotted_def comp_def)
  from assms obtain a b r where ip: "ip = a # b # r"
    by (metis (no_types) Suc_length_conv numeral_eq_Suc pred_numeral_simps(2))
  obtain r' where "dotted ip = utoa (unat a) @ CHR ''.'' # r'"
    by (cases r) (simp_all add: dotted_def ip)
  then have "find (\<lambda>c. c = CHR ''.'' \<or> c = CHR '':'') (dotted ip) = Some CHR ''.''"
    using find_dot [of "utoa (unat a)" r'] utoa_digits by simp
  then show ?thesis using oct by (simp add: ParseIP_def parseIPv4_def)
qed

section \<open>Properties\<close>



lemma RequestIP_taken:
  assumes "RequestIP a (Some n) ip = Some (a', Inr addr)"
  shows "\<exists>am. gget a' (net_String n) = Some am \<and> ip_String addr \<in> am_p am"
proof -
  obtain am where am: "network_map a n = Some am"
    using assms by (auto simp: RequestIP_def network_map_def Let_def split: option.splits)
  show ?thesis
  proof (cases ip)
    case None
    obtain am' where get: "getNextIP am = (am', Inr addr)" and a': "a' = gput (net_String n) am' a"
      using assms am None
      by (auto simp: RequestIP_def network_map_def [symmetric] Let_def split: prod.splits)
    have "ip_String addr \<in> am_p am'" if "getNextIP_loop k pos am = (am', Inr addr)" for k pos
      using that by (induction k arbitrary: pos) (auto simp: Let_def split: if_splits)
    then show ?thesis using get a' by (auto simp: getNextIP_def)
  next
    case (Some x)
    then obtain am' where "checkIP am x = Some (am', Inr addr)" and a': "a' = gput (net_String n) am' a"
      using assms am
      by (auto simp: RequestIP_def network_map_def [symmetric] Let_def split: prod.splits)
    then show ?thesis by (auto simp: checkIP_def split: if_splits option.splits)
  qed
qed



end
