(* ===== verification/HyperApi.thy ===== *)
theory HyperApi
  imports Api
begin

text \<open>
  The container specification that hyperstart understands (\<^verbatim>\<open>agent/api/hyperstart/spec.go\<close>) and
  its translation from the OCI process description (\<^verbatim>\<open>agent/api/hyperstart/helper.go\<close>).
\<close>

record VolumeDescriptor =
  hv_Device :: string
  hv_Addr :: string
  hv_Mount :: string
  hv_Fstype :: string
  hv_ReadOnly :: bool
  hv_DockerVolume :: bool

record FsmapDescriptor =
  hf_Source :: string
  hf_Path :: string
  hf_ReadOnly :: bool
  hf_DockerVolume :: bool

record EnvironmentVar =
  ev_Env :: string
  ev_Value :: string

record HProcess =
  hp_Id :: string
  hp_User :: string
  hp_Group :: string
  hp_AdditionalGroups :: "string list"
  hp_Terminal :: bool
  hp_Stdio :: uint64
  hp_Stderr :: uint64
  hp_Args :: "string list"
  hp_Envs :: "EnvironmentVar list"
  hp_Workdir :: string

record HContainer =
  hc_Id :: string
  hc_Rootfs :: string
  hc_Fstype :: string
  hc_Image :: string
  hc_Addr :: string
  hc_Volumes :: "VolumeDescriptor list"
  hc_Fsmap :: "FsmapDescriptor list"
  hc_Sysctl :: "(string, string) gomap"
  hc_Process :: HProcess
  hc_RestartPolicy :: string
  hc_Initialize :: bool
  hc_ReadOnly :: bool

definition volLookup :: "HContainer \<Rightarrow> string \<Rightarrow> VolumeDescriptor option" where
  "volLookup cr mpoint = find (\<lambda>v. hv_Mount v = mpoint) (hc_Volumes cr)"

definition mapLookup :: "HContainer \<Rightarrow> string \<Rightarrow> FsmapDescriptor option" where
  "mapLookup cr mpoint = find (\<lambda>f. hf_Path f = mpoint) (hc_Fsmap cr)"

definition RoLookup :: "HContainer \<Rightarrow> string \<Rightarrow> bool" where
  "RoLookup cr mpoint =
     (case volLookup cr mpoint of
        Some v \<Rightarrow> hv_ReadOnly v
      | None \<Rightarrow> (case mapLookup cr mpoint of Some m \<Rightarrow> hf_ReadOnly m | None \<Rightarrow> False))"

definition userFromOci :: "HProcess \<Rightarrow> OciUser \<Rightarrow> HProcess" where
  "userFromOci p u =
     (if ou_UID u = 0 \<and> ou_GID u = 0 \<and> ou_AdditionalGids u = [] then p
      else (let p1 = (if ou_UID u \<noteq> 0 then p\<lparr>hp_User := utoa (unat (ou_UID u))\<rparr> else p);
                p2 = (if ou_GID u \<noteq> 0 then p1\<lparr>hp_Group := utoa (unat (ou_GID u))\<rparr> else p1)
            in if ou_AdditionalGids u \<noteq> []
               then p2\<lparr>hp_AdditionalGroups := map (utoa \<circ> unat) (ou_AdditionalGids u)\<rparr> else p2))"

text \<open>The part of an environment entry before and after its first equals sign.\<close>

definition env_split :: "string \<Rightarrow> EnvironmentVar option" where
  "env_split v =
     (let name = takeWhile (\<lambda>c. c \<noteq> CHR ''='') v
      in if length name < length v \<and> name \<noteq> []
         then Some \<lparr>ev_Env = name, ev_Value = drop (length name + 1) v\<rparr> else None)"

definition ProcessFromOci :: "string \<Rightarrow> OciProcess \<Rightarrow> HProcess" where
  "ProcessFromOci processID process =
     userFromOci
       \<lparr>hp_Id = processID, hp_User = [], hp_Group = [], hp_AdditionalGroups = [],
        hp_Terminal = op_Terminal process, hp_Stdio = 0, hp_Stderr = 0, hp_Args = op_Args process,
        hp_Envs = List.map_filter env_split (op_Env process), hp_Workdir = op_Cwd process\<rparr>
       (op_User process)"

lemma env_split_inverse: "env_split v = Some e \<Longrightarrow> v = ev_Env e @ CHR ''='' # ev_Value e \<and> ev_Env e \<noteq> [] \<and> CHR ''='' \<notin> set (ev_Env e)"
proof -
  let ?n = "takeWhile (\<lambda>c. c \<noteq> CHR ''='') v"
  assume "env_split v = Some e"
  then have len: "length ?n < length v" and ne: "?n \<noteq> []"
    and e: "e = \<lparr>ev_Env = ?n, ev_Value = drop (length ?n + 1) v\<rparr>"
    by (auto simp: env_split_def Let_def split: if_splits)
  have "v ! length ?n = CHR ''=''" using nth_length_takeWhile [OF len] by simp
  then have "drop (length ?n) v = CHR ''='' # drop (length ?n + 1) v"
    using len by (metis Cons_nth_drop_Suc Suc_eq_plus1)
  then have "v = ?n @ CHR ''='' # drop (length ?n + 1) v"
    by (metis takeWhile_dropWhile_id dropWhile_eq_drop)
  then show ?thesis using e ne set_takeWhileD by fastforce
qed

end
