(* ===== verification/Paths.thy ===== *)
theory Paths
  imports Runv_Prelude
begin

text \<open>
  \<^verbatim>\<open>filepath.Clean\<close> and \<^verbatim>\<open>filepath.Join\<close> of the Go standard library on Unix, which the sandbox
  uses on mount points, socket names and share directories: the path is cut at the slashes, empty
  elements and \<^verbatim>\<open>.\<close> vanish, \<^verbatim>\<open>..\<close> removes the element before it.
\<close>

definition clean_step :: "bool \<Rightarrow> string list \<Rightarrow> string \<Rightarrow> string list" where
  "clean_step rooted acc e =
     (if e = [] \<or> e = ''.'' then acc
      else if e = ''..'' then
        (if acc \<noteq> [] \<and> hd acc \<noteq> ''..'' then tl acc
         else if rooted then acc else e # acc)
      else e # acc)"

definition is_rooted :: "string \<Rightarrow> bool" where
  "is_rooted p \<longleftrightarrow> p \<noteq> [] \<and> hd p = CHR ''/''"

definition clean_elems :: "string \<Rightarrow> string list" where
  "clean_elems p = rev (foldl (clean_step (is_rooted p)) [] (split_on CHR ''/'' p))"

definition Clean :: "string \<Rightarrow> string" where
  "Clean p =
     (let s = join_with CHR ''/'' (clean_elems p)
      in if is_rooted p then CHR ''/'' # s else if s = [] then ''.'' else s)"

definition path_Join :: "string list \<Rightarrow> string" where
  "path_Join es =
     (let es' = dropWhile (\<lambda>e. e = []) es
      in if es' = [] then [] else Clean (join_with CHR ''/'' es'))"

section \<open>Clean is idempotent\<close>

text \<open>A list of elements in reverse order that \<^const>\<open>clean_step\<close> leaves alone.\<close>

fun clean_acc :: "bool \<Rightarrow> string list \<Rightarrow> bool" where
  "clean_acc r [] \<longleftrightarrow> True"
| "clean_acc r (e # acc) \<longleftrightarrow> e \<noteq> [] \<and> e \<noteq> ''.'' \<and> CHR ''/'' \<notin> set e \<and>
     (e = ''..'' \<longrightarrow> \<not> r \<and> (acc = [] \<or> hd acc = ''..'')) \<and> clean_acc r acc"

lemma clean_acc_tl: "clean_acc r acc \<Longrightarrow> clean_acc r (tl acc)"
  by (cases acc) auto

lemma clean_acc_step: "clean_acc r acc \<Longrightarrow> CHR ''/'' \<notin> set e \<Longrightarrow> clean_acc r (clean_step r acc e)"
  by (auto simp: clean_step_def clean_acc_tl)

lemma clean_acc_foldl:
  "clean_acc r acc \<Longrightarrow> (\<forall>e \<in> set es. CHR ''/'' \<notin> set e) \<Longrightarrow> clean_acc r (foldl (clean_step r) acc es)"
  by (induction es arbitrary: acc) (auto simp: clean_acc_step)

lemma clean_acc_elems: "clean_acc (is_rooted p) (rev (clean_elems p))"
  unfolding clean_elems_def
  using clean_acc_foldl [of "is_rooted p" "[]" "split_on CHR ''/'' p"] split_on_pieces by auto

lemma clean_step_id: "clean_acc r (e # acc) \<Longrightarrow> clean_step r acc e = e # acc"
  by (auto simp: clean_step_def)

lemma clean_acc_suffix: "clean_acc r (xs @ acc) \<Longrightarrow> clean_acc r acc"
  by (induction xs) auto

lemma foldl_clean_id: "clean_acc r (rev es @ acc) \<Longrightarrow> foldl (clean_step r) acc es = rev es @ acc"
proof (induction es arbitrary: acc)
  case (Cons e es)
  have "clean_acc r (e # acc)"
    by (rule clean_acc_suffix [of r "rev es"]) (use Cons.prems in simp)
  then show ?case using Cons by (simp add: clean_step_id)
qed simp

lemma clean_acc_pieces: "clean_acc r acc \<Longrightarrow> e \<in> set acc \<Longrightarrow> e \<noteq> [] \<and> e \<noteq> ''.'' \<and> CHR ''/'' \<notin> set e"
  by (induction r acc rule: clean_acc.induct) auto

lemma split_join_elems:
  assumes "clean_acc r (rev es)" "es \<noteq> []"
  shows "split_on CHR ''/'' (join_with CHR ''/'' es) = es"
  using split_join assms clean_acc_pieces [OF assms(1)] by auto

lemma join_with_hd: "es \<noteq> [] \<Longrightarrow> hd es \<noteq> [] \<Longrightarrow> join_with c es \<noteq> [] \<and> hd (join_with c es) = hd (hd es)"
  by (cases "(c, es)" rule: join_with.cases) auto

lemma is_rooted_Clean: "is_rooted (Clean p) = is_rooted p"
proof (cases "is_rooted p \<or> clean_elems p = []")
  case False
  then have "hd (clean_elems p) \<in> set (rev (clean_elems p))" by simp
  note pieces = clean_acc_pieces [OF clean_acc_elems this]
  then have "hd (hd (clean_elems p)) \<noteq> CHR ''/''" by (metis hd_in_set)
  with pieces False join_with_hd [of "clean_elems p" "CHR ''/''"] show ?thesis
    by (simp add: Clean_def Let_def is_rooted_def)
qed (auto simp: Clean_def is_rooted_def split: if_splits)

lemma clean_elems_Clean: "clean_elems (Clean p) = clean_elems p"
proof -
  let ?es = "clean_elems p" and ?r = "is_rooted p"
  note acc = clean_acc_elems [of p]
  have fold: "foldl (clean_step ?r) [] ?es = rev ?es"
    using foldl_clean_id [of ?r ?es "[]"] acc by simp
  have step: "clean_step ?r [] [] = []" "clean_step ?r [] ''.'' = []"
    by (simp_all add: clean_step_def)
  have split: "foldl (clean_step ?r) [] (split_on CHR ''/'' (join_with CHR ''/'' ?es)) = rev ?es"
    using split_join_elems [OF acc] fold step by (cases "?es = []") auto
  have "join_with CHR ''/'' ?es = [] \<Longrightarrow> ?es = []"
    using join_with_hd [of ?es] clean_acc_pieces [OF acc, of "hd ?es"] by auto
  then show ?thesis
    unfolding clean_elems_def [of "Clean p"] is_rooted_Clean using split step
    by (auto simp: Clean_def Let_def)
qed

lemma Clean_Clean: "Clean (Clean p) = Clean p"
  by (simp add: Clean_def [of "Clean p"] clean_elems_Clean is_rooted_Clean) (simp add: Clean_def)

text \<open>A path cleans to the root exactly when it is absolute and all its elements cancel out.\<close>

lemma Clean_root: "Clean p = ''/'' \<longleftrightarrow> is_rooted p \<and> clean_elems p = []"
proof -
  have "join_with CHR ''/'' (clean_elems p) = [] \<longleftrightarrow> clean_elems p = []"
    using join_with_hd [of "clean_elems p"] clean_acc_pieces [OF clean_acc_elems, of "hd (clean_elems p)" p]
    by auto
  moreover have "is_rooted p" if "Clean p = ''/''"
    using is_rooted_Clean [of p] that by (simp add: is_rooted_def)
  ultimately show ?thesis by (auto simp: Clean_def)
qed

end
