(* ===== verification/Sandbox.thy ===== *)
theory Sandbox
  imports Api Paths Vsock
begin

text \<open>
  The state of a sandbox (\<^verbatim>\<open>VmContext\<close> of \<^verbatim>\<open>hypervisor/context.go\<close> with its
  \<^verbatim>\<open>NetworkContext\<close>) and the operations on its disks (\<^verbatim>\<open>hypervisor/disk.go\<close>).

  Objects that the code shares by pointer (disks, wait groups, interfaces) live in heaps and a
  pointer is an index. The goroutines that the operations start are values of the state: a
  goroutine is the list of the actions it still has to perform, each action being one region
  between two points where it waits or takes a lock. The context also carries the global
  \<^verbatim>\<open>VsockCidManager\<close>. A result channel is a number, \<open>None\<close> the
  private channel that \<^verbatim>\<open>insert\<close> and \<^verbatim>\<open>remove\<close> make when they are handed nil; the state keeps
  everything that was sent, and the calls made to the driver, the agent and the address allocator.
\<close>

type_synonym dref = nat
type_synonym wgref = nat
type_synonym infref = nat
type_synonym chan = "nat option"

section \<open>State\<close>

record DiskDescriptor =
  dd_Name :: string
  dd_Filename :: string
  dd_Format :: string
  dd_Fstype :: string
  dd_DeviceName :: string
  dd_ScsiId :: int
  dd_ScsiAddr :: string
  dd_DockerVolume :: bool
  dd_ReadOnly :: bool
  dd_Options :: "(string, string) gomap"

record DiskContext =
  dc_desc :: DiskDescriptor
  dc_isRootVol :: bool
  dc_ready :: bool
  dc_observers :: "(string, wgref) gomap"

record ContainerContext =
  cc_desc :: ContainerDescription
  cc_root :: dref

record BootConfig =
  bc_CPU :: int
  bc_Memory :: int
  bc_BootToBeTemplate :: bool
  bc_BootFromTemplate :: bool
  bc_EnableVsock :: bool
  bc_EnableVhostUser :: bool
  bc_KataAgent :: bool
  bc_MemoryPath :: string
  bc_DevicesStatePath :: string
  bc_Kernel :: string
  bc_Initrd :: string
  bc_Bios :: string
  bc_Cbfs :: string
  bc_InboundAverage :: string
  bc_InboundPeak :: string
  bc_OutboundAverage :: string
  bc_OutboundPeak :: string

record HostNicInfo =
  hn_Id :: string
  hn_Device :: string
  hn_Mac :: string
  hn_Bridge :: string
  hn_Gateway :: string
  hn_Options :: string

record GuestNicInfo =
  gn_Device :: string
  gn_Ipaddr :: string
  gn_Index :: int
  gn_Busaddr :: int

text \<open>What the sandbox asks of the driver, the agent and the address allocator.\<close>

datatype call =
    DrLaunch
  | DrAssociate
  | DrAddDisk string DiskDescriptor
  | DrRemoveDisk DiskDescriptor VmEvent
  | DrAddNic HostNicInfo GuestNicInfo
  | DrRemoveNic InterfaceCreated VmEvent
  | DrSetCpus int
  | DrAddMem int int
  | DrPause bool
  | DrSave string
  | DrKill
  | DrClose
  | AgCreateContainer string "UserGroupInfo option" "Storage list" OciSpec
  | AgStartContainer string
  | AgUpdateInterface InfUpdateType string string "IpAddress list" nat
  | AgAddRoute "Route list"
  | AgStartSandbox "SandboxConfig option" "Storage list"
  | AgDestroySandbox
  | AgPauseSync
  | AgUnpause
  | AgOnlineCpuMem
  | AgClose
  | NetReleaseAddr string

text \<open>The handlers a sandbox can be in; a nil handler is \<open>None\<close>.\<close>

datatype stateHandler = stateRunning | stateTerminating

datatype action =
    InsertDisk dref chan
  | InsertReply dref chan
  | InsertedDisk dref
  | FailedDisk dref
  | RemoveDisk dref chan
  | RemoveReply dref chan
  | SendResult chan Result
  | AddReady ContainerContext wgref chan
  | ShutdownVM
  | ShutdownReply
  | CloseContext
  | NicConfigure InterfaceDescription chan
  | NicReply InterfaceDescription chan
  | NicFailed VmEvent chan
  | NicRemoveReply infref string chan

datatype loop_pc = LoopTest | LoopReceive | LoopHandle VmEvent | LoopDone

text \<open>The two constants of \<^verbatim>\<open>PauseState\<close>.\<close>

datatype PauseState = PauseStateUnpaused | PauseStatePaused

record VmContext =
  sb_Id :: string
  sb_PauseState :: PauseState
  sb_Boot :: BootConfig
  sb_Hub :: "VmEvent list"
  sb_client :: "VmResponse list"
  sb_clientClosed :: bool
  sb_HomeDir :: string
  sb_HyperSockName :: string
  sb_TtySockName :: string
  sb_KataSockName :: string
  sb_ConsoleSockName :: string
  sb_ShareDir :: string
  sb_GuestCid :: uint32
  sb_pciAddr :: int
  sb_scsiId :: int
  sb_volumes :: "(string, dref) gomap"
  sb_containers :: "(string, ContainerContext) gomap"
  sb_handler :: "stateHandler option"
  sb_current :: string
  sb_timer :: "bool option"
  sb_closeOnce :: bool
  nc_config :: "SandboxConfig option"
  nc_ports :: "PortDescription list"
  nc_eth :: "(int, infref option) gomap"
  nc_lo :: "(string, infref) gomap"
  nc_idMap :: "(string, infref) gomap"
  h_disks :: "DiskContext list"
  h_wgs :: "int list"
  h_infs :: "InterfaceCreated list"
  sb_cids :: DefaultVsockCidAllocator
  sb_go :: "action list list"
  sb_loop :: loop_pc
  sb_results :: "(nat \<times> Result) list"
  sb_calls :: "call list"

definition StateRunning :: string where "StateRunning = ''RUNNING''"
definition StateTerminating :: string where "StateTerminating = ''TERMINATING''"
definition StateNone :: string where "StateNone = ''NONE''"

definition send_result :: "chan \<Rightarrow> Result \<Rightarrow> VmContext \<Rightarrow> VmContext" where
  "send_result ch r ctx =
     (case ch of None \<Rightarrow> ctx | Some c \<Rightarrow> ctx\<lparr>sb_results := sb_results ctx @ [(c, r)]\<rparr>)"

definition log_call :: "call \<Rightarrow> VmContext \<Rightarrow> VmContext" where
  "log_call c ctx = ctx\<lparr>sb_calls := sb_calls ctx @ [c]\<rparr>"

definition spawn :: "action list \<Rightarrow> VmContext \<Rightarrow> VmContext" where
  "spawn acts ctx = ctx\<lparr>sb_go := sb_go ctx @ [acts]\<rparr>"

definition IsRunning :: "VmContext \<Rightarrow> bool" where
  "IsRunning ctx \<longleftrightarrow> sb_current ctx = StateRunning"

definition nextScsiId :: "VmContext \<Rightarrow> VmContext \<times> int" where
  "nextScsiId ctx = (ctx\<lparr>sb_scsiId := sb_scsiId ctx + 1\<rparr>, sb_scsiId ctx)"

definition NextPciAddr :: "VmContext \<Rightarrow> VmContext \<times> int" where
  "NextPciAddr ctx = (ctx\<lparr>sb_pciAddr := sb_pciAddr ctx + 1\<rparr>, sb_pciAddr ctx)"

section \<open>Disks\<close>

definition dd_IsDir :: "DiskDescriptor \<Rightarrow> bool" where
  "dd_IsDir d \<longleftrightarrow> dd_Format d = ''vfs''"

definition dd_IsNas :: "DiskDescriptor \<Rightarrow> bool" where
  "dd_IsNas d \<longleftrightarrow> dd_Format d = ''nas''"

definition rbd_options :: "VolumeOption \<Rightarrow> (string, string) gomap" where
  "rbd_options o' =
     [(''user'', vo_User o'), (''keyring'', vo_Keyring o'),
      (''monitors'', join_with CHR '';'' (vo_Monitors o')),
      (''bytespersec'', itoa (vo_BytesPerSec o')), (''iops'', itoa (vo_Iops o'))]"

text \<open>\<open>None\<close>: a volume of format \<^verbatim>\<open>rbd\<close> without options is a nil dereference.\<close>

definition NewDiskContext :: "VolumeDescription \<Rightarrow> DiskContext option" where
  "NewDiskContext vol =
     (let desc = \<lparr>dd_Name = vd_Name vol, dd_Filename = vd_Source vol, dd_Format = vd_Format vol,
                  dd_Fstype = vd_Fstype vol, dd_DeviceName = [], dd_ScsiId = 0, dd_ScsiAddr = [],
                  dd_DockerVolume = vd_DockerVolume vol, dd_ReadOnly = vd_ReadOnly vol, dd_Options = []\<rparr>;
          dc = \<lparr>dc_desc = desc, dc_isRootVol = False, dc_ready = False, dc_observers = []\<rparr>
      in if IsDir vol then Some (dc\<lparr>dc_ready := True\<rparr>)
         else if IsNas vol then
           Some (dc\<lparr>dc_desc := desc\<lparr>dd_DeviceName := vd_Source vol\<rparr>, dc_ready := True\<rparr>)
         else if vd_Format vol = ''rbd'' then
           map_option (\<lambda>o'. dc\<lparr>dc_desc := desc\<lparr>dd_Options := rbd_options o'\<rparr>\<rparr>) (vd_Options vol)
         else Some dc)"

definition disk :: "VmContext \<Rightarrow> dref \<Rightarrow> DiskContext" where
  "disk ctx d = h_disks ctx ! d"

definition upd_disk :: "dref \<Rightarrow> (DiskContext \<Rightarrow> DiskContext) \<Rightarrow> VmContext \<Rightarrow> VmContext" where
  "upd_disk d f ctx = ctx\<lparr>h_disks := hupd d f (h_disks ctx)\<rparr>"

definition new_disk :: "DiskContext \<Rightarrow> VmContext \<Rightarrow> VmContext \<times> dref" where
  "new_disk dc ctx = (ctx\<lparr>h_disks := h_disks ctx @ [dc]\<rparr>, length (h_disks ctx))"

definition new_wg :: "VmContext \<Rightarrow> VmContext \<times> wgref" where
  "new_wg ctx = (ctx\<lparr>h_wgs := h_wgs ctx @ [0]\<rparr>, length (h_wgs ctx))"

definition disk_insert :: "dref \<Rightarrow> chan \<Rightarrow> VmContext \<Rightarrow> VmContext" where
  "disk_insert d result ctx =
     (if dc_ready (disk ctx d)
      then send_result result (NewResultBase (dd_Name (dc_desc (disk ctx d))) True ''already inserted'') ctx
      else (let (ctx1, i) = nextScsiId ctx;
                ctx2 = upd_disk d (\<lambda>dc. dc\<lparr>dc_desc := dc_desc dc\<lparr>dd_ScsiId := i\<rparr>\<rparr>) ctx1
            in spawn [InsertDisk d result] ctx2))"

text \<open>
  The goroutine of \<^verbatim>\<open>insert\<close>: the call of the driver, then what it does with the reply (\<open>None\<close>:
  the channel was closed). On success the result is sent before the observers are told.
\<close>

definition InsertDisk_step :: "dref \<Rightarrow> chan \<Rightarrow> VmContext \<Rightarrow> VmContext \<times> action list" where
  "InsertDisk_step d result ctx =
     (let dc = disk ctx d
      in (log_call (DrAddDisk (if dc_isRootVol dc then ''image'' else ''volume'') (dc_desc dc)) ctx,
          [InsertReply d result]))"

definition InsertReply_step ::
  "dref \<Rightarrow> chan \<Rightarrow> VmEvent option \<Rightarrow> VmContext \<Rightarrow> VmContext \<times> action list" where
  "InsertReply_step d result ev ctx =
     (let name = dd_Name (dc_desc (disk ctx d)) in
      case ev of
        None \<Rightarrow> (ctx, [FailedDisk d, SendResult result (NewResultBase name False ''disk insert session broken'')])
      | Some (BlockdevInsertedEvent dev addr) \<Rightarrow>
          (upd_disk d (\<lambda>dc. dc\<lparr>dc_desc := dc_desc dc\<lparr>dd_DeviceName := dev, dd_ScsiAddr := addr\<rparr>\<rparr>) ctx,
           [SendResult result (NewResultBase name True []), InsertedDisk d])
      | Some _ \<Rightarrow> (ctx, [FailedDisk d, SendResult result (NewResultBase name False ''disk insert failed'')]))"

definition disk_remove :: "dref \<Rightarrow> chan \<Rightarrow> VmContext \<Rightarrow> VmContext" where
  "disk_remove d result ctx =
     (let desc = dc_desc (disk ctx d) in
      if dd_IsDir desc \<or> dd_IsNas desc
      then send_result result (NewResultBase (dd_Name desc) True ''no need to unplug'') ctx
      else spawn [RemoveDisk d result] ctx)"

definition RemoveDisk_step :: "dref \<Rightarrow> chan \<Rightarrow> VmContext \<Rightarrow> VmContext \<times> action list" where
  "RemoveDisk_step d result ctx =
     (let desc = dc_desc (disk ctx d)
      in (log_call (DrRemoveDisk desc (VolumeUnmounted (dd_Name desc) True)) ctx, [RemoveReply d result]))"

definition RemoveReply_step ::
  "dref \<Rightarrow> chan \<Rightarrow> VmEvent option \<Rightarrow> VmContext \<Rightarrow> VmContext \<times> action list" where
  "RemoveReply_step d result ev ctx =
     (let name = dd_Name (dc_desc (disk ctx d)) in
      case ev of
        None \<Rightarrow> (ctx, [FailedDisk d, SendResult result (NewResultBase name False ''disk remove session broken'')])
      | Some (VolumeUnmounted _ _) \<Rightarrow> (ctx, [SendResult result (NewResultBase name True [])])
      | Some _ \<Rightarrow> (ctx, [FailedDisk d, SendResult result (NewResultBase name False ''disk remove failed'')]))"

definition wg_add :: "wgref \<Rightarrow> int \<Rightarrow> VmContext \<Rightarrow> VmContext" where
  "wg_add w n ctx = ctx\<lparr>h_wgs := hupd w (\<lambda>c. c + n) (h_wgs ctx)\<rparr>"

definition disk_wait :: "dref \<Rightarrow> string \<Rightarrow> wgref \<Rightarrow> VmContext \<Rightarrow> VmContext" where
  "disk_wait d i w ctx =
     (let dc = disk ctx d in
      if gget (dc_observers dc) i \<noteq> None then ctx
      else (let ctx1 = upd_disk d (\<lambda>dc. dc\<lparr>dc_observers := gput i w (dc_observers dc)\<rparr>) ctx
            in if dc_ready dc then ctx1 else wg_add w 1 ctx1))"

definition disk_unwait :: "dref \<Rightarrow> string \<Rightarrow> VmContext \<Rightarrow> VmContext" where
  "disk_unwait d i ctx =
     (if gget (dc_observers (disk ctx d)) i \<noteq> None
      then upd_disk d (\<lambda>dc. dc\<lparr>dc_observers := gdel i (dc_observers dc)\<rparr>) ctx
      else ctx)"

text \<open>\<^verbatim>\<open>wg.Done()\<close> on every observer; \<open>None\<close> is the panic of a negative counter.\<close>

fun wg_done_all :: "wgref list \<Rightarrow> int list \<Rightarrow> int list option" where
  "wg_done_all [] wgs = Some wgs"
| "wg_done_all (w # ws) wgs =
     (if wgs ! w \<le> 0 then None else wg_done_all ws (hupd w (\<lambda>c. c - 1) wgs))"

definition disk_signal :: "bool \<Rightarrow> dref \<Rightarrow> VmContext \<Rightarrow> VmContext option" where
  "disk_signal ok d ctx =
     map_option (\<lambda>wgs. upd_disk d (\<lambda>dc. dc\<lparr>dc_ready := ok\<rparr>) (ctx\<lparr>h_wgs := wgs\<rparr>))
       (wg_done_all (gvals (dc_observers (disk ctx d))) (h_wgs ctx))"

definition disk_inserted :: "dref \<Rightarrow> VmContext \<Rightarrow> VmContext option" where
  "disk_inserted = disk_signal True"

definition disk_failed :: "dref \<Rightarrow> VmContext \<Rightarrow> VmContext option" where
  "disk_failed = disk_signal False"

definition disk_isReady :: "dref \<Rightarrow> VmContext \<Rightarrow> bool" where
  "disk_isReady d ctx = dc_ready (disk ctx d)"

definition disk_containers :: "dref \<Rightarrow> VmContext \<Rightarrow> nat" where
  "disk_containers d ctx = length (dc_observers (disk ctx d))"

end
