(* ===== verification/Containers.thy ===== *)
theory Containers
  imports Sandbox HyperApi
begin

text \<open>
  Containers and volumes of a sandbox: \<^verbatim>\<open>AddContainer\<close>, \<^verbatim>\<open>RemoveContainer\<close>, \<^verbatim>\<open>AddVolume\<close>,
  \<^verbatim>\<open>RemoveVolume\<close> of \<^verbatim>\<open>hypervisor/context.go\<close>, the container context of
  \<^verbatim>\<open>hypervisor/container.go\<close>, and \<^verbatim>\<open>createContainer\<close>, \<^verbatim>\<open>startContainer\<close> of
  \<^verbatim>\<open>hypervisor/vm_states.go\<close>. \<open>None\<close> as the outcome of an operation is a run-time panic.
\<close>

section \<open>Adding and removing\<close>

fun validate_mounts :: "string \<Rightarrow> VolumeMount list \<Rightarrow> string option" where
  "validate_mounts vn [] = None"
| "validate_mounts vn (mp # mps) =
     (if Clean (vm_Path mp) = ''/''
      then Some (''mounting volume '' @ vn @ '' to rootfs is forbidden'')
      else validate_mounts vn mps)"

fun validate_volumes :: "(string, dref) gomap \<Rightarrow> (string, VolumeReference) gomap \<Rightarrow> string option" where
  "validate_volumes vols [] = None"
| "validate_volumes vols ((vn, vr) # rest) =
     (if gget vols vn = None then Some (''volume '' @ vn @ '' does not exist in volume map'')
      else case validate_mounts vn (vr_MountPoints vr) of
        Some e \<Rightarrow> Some e
      | None \<Rightarrow> validate_volumes vols rest)"

definition validateContainer :: "VmContext \<Rightarrow> ContainerDescription \<Rightarrow> string option" where
  "validateContainer ctx c = validate_volumes (sb_volumes ctx) (cd_Volumes c)"

text \<open>The closure \<^verbatim>\<open>rollback\<close> of \<^verbatim>\<open>AddContainer\<close>.\<close>

fun rollback :: "string list \<Rightarrow> string \<Rightarrow> VmContext \<Rightarrow> VmContext" where
  "rollback [] cid ctx = ctx"
| "rollback (v # vs) cid ctx =
     rollback vs cid (case gget (sb_volumes ctx) v of None \<Rightarrow> ctx | Some d \<Rightarrow> disk_unwait d cid ctx)"

text \<open>
  The loop of \<^verbatim>\<open>AddContainer\<close> over the volumes of the container: the volumes waited for so far, the
  names still to come. \<open>Inl\<close> is the error, after the rollback.
\<close>

fun wait_volumes ::
  "string list \<Rightarrow> string list \<Rightarrow> string \<Rightarrow> wgref \<Rightarrow> VmContext \<Rightarrow> VmContext \<times> string option" where
  "wait_volumes added [] cid w ctx = (ctx, None)"
| "wait_volumes added (vn # vns) cid w ctx =
     (case gget (sb_volumes ctx) vn of
        None \<Rightarrow> (rollback added cid ctx, Some (''volume '' @ vn @ '' does not exist in volume map''))
      | Some d \<Rightarrow> wait_volumes (added @ [vn]) vns cid w (disk_wait d cid w ctx))"

definition not_ready :: "Result \<Rightarrow> chan \<Rightarrow> VmContext \<Rightarrow> VmContext" where
  "not_ready r result ctx = (if IsRunning ctx then ctx else send_result result r ctx)"

definition AddContainer :: "ContainerDescription \<Rightarrow> chan \<Rightarrow> VmContext \<Rightarrow> VmContext option" where
  "AddContainer c result ctx0 =
     (let ctx = not_ready (CommonErrorResult (NewNotReadyError (sb_Id ctx0))) result ctx0;
          spec_error = (\<lambda>e. send_result result (CommonErrorResult (NewSpecError (cd_Id c) e)))
      in if gget (sb_containers ctx) (cd_Id c) \<noteq> None
         then Some (spec_error (''duplicate container '' @ cd_Name c) ctx)
         else case validateContainer ctx c of
           Some e \<Rightarrow> Some (spec_error e ctx)
         | None \<Rightarrow>
             (let (ctx1, wgDisk) = new_wg ctx
              in case wait_volumes [] (gkeys (cd_Volumes c)) (cd_Id c) wgDisk ctx1 of
                (ctx2, Some e) \<Rightarrow> Some (spec_error e ctx2)
              | (ctx2, None) \<Rightarrow>
                  (case NewDiskContext (cd_RootVolume c) of
                     None \<Rightarrow> None
                   | Some dc \<Rightarrow>
                       (let (ctx3, root) = new_disk (dc\<lparr>dc_isRootVol := True\<rparr>) ctx2;
                            ctx4 = disk_insert root None ctx3;
                            ctx5 = disk_wait root (cd_Id c) wgDisk ctx4;
                            cc = \<lparr>cc_desc = c, cc_root = root\<rparr>;
                            ctx6 = ctx5\<lparr>sb_containers := gput (cd_Id c) cc (sb_containers ctx5)\<rparr>
                        in Some (spawn [AddReady cc wgDisk result] ctx6)))))"

text \<open>
  The goroutine \<^verbatim>\<open>ContainerContext.add\<close> behind its \<^verbatim>\<open>wgDisk.Wait()\<close>.
\<close>

definition volume_ready :: "VmContext \<Rightarrow> string \<Rightarrow> bool" where
  "volume_ready ctx vn = (case gget (sb_volumes ctx) vn of None \<Rightarrow> False | Some d \<Rightarrow> disk_isReady d ctx)"

definition cc_add :: "ContainerContext \<Rightarrow> chan \<Rightarrow> VmContext \<Rightarrow> VmContext" where
  "cc_add cc result ctx =
     (let cid = cd_Id (cc_desc cc) in
      if \<exists>vn \<in> set (gkeys (cd_Volumes (cc_desc cc))). \<not> volume_ready ctx vn
      then send_result result (NewResultBase cid False ''volume failed'') ctx
      else if \<not> disk_isReady (cc_root cc) ctx
      then send_result result (NewResultBase cid False ''root volume insert failed'') ctx
      else send_result result (NewResultBase cid True []) ctx)"

fun unwait_volumes :: "string list \<Rightarrow> string \<Rightarrow> VmContext \<Rightarrow> VmContext" where
  "unwait_volumes [] cid ctx = ctx"
| "unwait_volumes (v # vs) cid ctx =
     unwait_volumes vs cid
       (case gget (sb_volumes ctx) v of None \<Rightarrow> ctx | Some d \<Rightarrow> disk_unwait d cid ctx)"

definition RemoveContainer :: "string \<Rightarrow> chan \<Rightarrow> VmContext \<Rightarrow> VmContext" where
  "RemoveContainer cid result ctx =
     (if \<not> IsRunning ctx then send_result result (NewResultBase cid True ''pod not running'') ctx
      else case gget (sb_containers ctx) cid of
        None \<Rightarrow> send_result result (NewResultBase cid True ''not exist'') ctx
      | Some cc \<Rightarrow>
          (let ctx1 = unwait_volumes (gkeys (cd_Volumes (cc_desc cc))) cid ctx;
               ctx2 = disk_unwait (cc_root cc) cid ctx1;
               ctx3 = ctx2\<lparr>sb_containers := gdel cid (sb_containers ctx2)\<rparr>
           in disk_remove (cc_root cc) result ctx3))"

definition containerList :: "VmContext \<Rightarrow> string list" where
  "containerList ctx = gkeys (sb_containers ctx)"

definition AddVolume :: "VolumeDescription \<Rightarrow> chan \<Rightarrow> VmContext \<Rightarrow> VmContext option" where
  "AddVolume vol result ctx0 =
     (let ctx = not_ready (CommonErrorResult (NewNotReadyError (sb_Id ctx0))) result ctx0
      in if gget (sb_volumes ctx) (vd_Name vol) \<noteq> None
         then Some (send_result result
                (NewResultBase (vd_Name vol) True (''duplicate volume '' @ vd_Name vol)) ctx)
         else case NewDiskContext vol of
           None \<Rightarrow> None
         | Some dc \<Rightarrow>
             (let (ctx1, d) = new_disk dc ctx;
                  ctx2 = (if IsDir vol \<or> IsNas vol
                          then send_result result (NewResultBase (vd_Name vol) True []) ctx1
                          else disk_insert d result ctx1)
              in Some (ctx2\<lparr>sb_volumes := gput (vd_Name vol) d (sb_volumes ctx2)\<rparr>)))"

definition RemoveVolume :: "string \<Rightarrow> chan \<Rightarrow> VmContext \<Rightarrow> VmContext" where
  "RemoveVolume name result ctx0 =
     (let ctx = not_ready (NewResultBase name True ''pod not running'') result ctx0
      in case gget (sb_volumes ctx) name of
           None \<Rightarrow> send_result result (NewResultBase name True ''not exist'') ctx
         | Some d \<Rightarrow>
             if disk_containers d ctx > 0
             then send_result result (NewResultBase name False ''in use'') ctx
             else disk_remove d result (ctx\<lparr>sb_volumes := gdel name (sb_volumes ctx)\<rparr>))"

section \<open>The specification of a container for the agent\<close>

fun mount_specs :: "DiskDescriptor \<Rightarrow> VolumeMount list \<Rightarrow> HContainer \<Rightarrow> HContainer" where
  "mount_specs vol [] spec = spec"
| "mount_specs vol (mp # mps) spec =
     mount_specs vol mps
       (if dd_IsDir vol
        then spec\<lparr>hc_Fsmap := hc_Fsmap spec @
               [\<lparr>hf_Source = dd_Filename vol, hf_Path = Clean (vm_Path mp),
                 hf_ReadOnly = vm_ReadOnly mp, hf_DockerVolume = dd_DockerVolume vol\<rparr>]\<rparr>
        else spec\<lparr>hc_Volumes := hc_Volumes spec @
               [\<lparr>hv_Device = dd_DeviceName vol, hv_Addr = dd_ScsiAddr vol, hv_Mount = Clean (vm_Path mp),
                 hv_Fstype = dd_Fstype vol, hv_ReadOnly = vm_ReadOnly mp,
                 hv_DockerVolume = dd_DockerVolume vol\<rparr>]\<rparr>)"

text \<open>The loop stops at the first volume that is not ready and keeps what it has.\<close>

fun volume_specs ::
  "VmContext \<Rightarrow> (string, VolumeReference) gomap \<Rightarrow> HContainer \<Rightarrow> HContainer" where
  "volume_specs ctx [] spec = spec"
| "volume_specs ctx ((vn, vcs) # rest) spec =
     (case gget (sb_volumes ctx) vn of
        None \<Rightarrow> spec
      | Some d \<Rightarrow>
          if \<not> disk_isReady d ctx then spec
          else volume_specs ctx rest (mount_specs (dc_desc (disk ctx d)) (vr_MountPoints vcs) spec))"

definition fillHyperstartVolSpec :: "VmContext \<Rightarrow> ContainerContext \<Rightarrow> HContainer \<Rightarrow> HContainer" where
  "fillHyperstartVolSpec ctx cc spec =
     (if \<not> disk_isReady (cc_root cc) ctx then spec
      else volume_specs ctx (cd_Volumes (cc_desc cc)) spec)"

text \<open>\<open>None\<close>: a specification without a process is a nil dereference.\<close>

definition VmSpec :: "VmContext \<Rightarrow> ContainerContext \<Rightarrow> HContainer option" where
  "VmSpec ctx cc =
     (let c = cc_desc cc; rv = cd_RootVolume c; rd = dc_desc (disk ctx (cc_root cc))
      in map_option (\<lambda>p.
           fillHyperstartVolSpec ctx cc
             \<lparr>hc_Id = cd_Id c, hc_Rootfs = cd_RootPath c,
              hc_Fstype = (if IsDir rv then [] else vd_Fstype rv),
              hc_Image = (if IsDir rv then vd_Source rv else dd_DeviceName rd),
              hc_Addr = (if IsDir rv then [] else dd_ScsiAddr rd),
              hc_Volumes = [], hc_Fsmap = [], hc_Sysctl = os_Sysctl (cd_OciSpec c),
              hc_Process = ProcessFromOci ''init'' p, hc_RestartPolicy = ''never'',
              hc_Initialize = cd_Initialize c, hc_ReadOnly = vd_ReadOnly rv\<rparr>)
           (os_Process (cd_OciSpec c)))"

definition ShareDirTag :: string where "ShareDirTag = ''share_dir''"

definition shareStorage :: Storage where
  "shareStorage = \<lparr>st_Driver = [], st_DriverOptions = [], st_Source = ShareDirTag, st_Fstype = ''9p'',
     st_Options = [''nodev,trans=virtio''], st_MountPoint = ''/kata/storage/sharefs/''\<rparr>"

definition bind_mount :: "string \<Rightarrow> VolumeMount \<Rightarrow> OciMount" where
  "bind_mount source mp =
     \<lparr>om_Destination = Clean (vm_Path mp), om_Type = [], om_Source = source, om_Options = []\<rparr>"

definition volume_storage :: "VmContext \<Rightarrow> ContainerContext \<Rightarrow> string \<Rightarrow> DiskDescriptor \<Rightarrow> Storage" where
  "volume_storage ctx cc vn vol =
     (let s = \<lparr>st_Driver = [], st_DriverOptions = [], st_Source = dd_DeviceName vol,
               st_Fstype = dd_Fstype vol, st_Options = [],
               st_MountPoint = ''/kata/storage/'' @ cd_Id (cc_desc cc) @ ''/'' @ vn @ ''/''\<rparr>
      in if dd_ScsiAddr vol \<noteq> []
         then s\<lparr>st_Source := dd_ScsiAddr (dc_desc (disk ctx (cc_root cc))), st_Driver := ''scsi''\<rparr>
         else s)"

fun agent_volumes ::
  "VmContext \<Rightarrow> ContainerContext \<Rightarrow> (string, VolumeReference) gomap \<Rightarrow> Storage list \<Rightarrow> OciMount list \<Rightarrow>
   string + Storage list \<times> OciMount list" where
  "agent_volumes ctx cc [] storages mounts = Inr (storages, mounts)"
| "agent_volumes ctx cc ((vn, vcs) # rest) storages mounts =
     (case gget (sb_volumes ctx) vn of
        None \<Rightarrow> Inl (''vol '' @ vn @ '' is failed to insert'')
      | Some d \<Rightarrow>
          (let vol = dc_desc (disk ctx d) in
           if \<not> disk_isReady d ctx then Inl (''vol '' @ vn @ '' is failed to insert'')
           else if dd_IsDir vol
           then agent_volumes ctx cc rest storages
                  (mounts @ map (bind_mount (path_Join [st_MountPoint shareStorage, dd_Filename vol]))
                              (vr_MountPoints vcs))
           else if dd_Fstype vol = [] then Inl ''fstype is not provided''
           else (let storage = volume_storage ctx cc vn vol
                 in agent_volumes ctx cc rest (storages @ [storage])
                      (mounts @ map (bind_mount (path_Join [st_MountPoint storage, ''_data'']))
                                  (vr_MountPoints vcs)))))"

text \<open>The storage of the root volume and whether it is passed to the agent.\<close>

definition root_storage :: "VmContext \<Rightarrow> ContainerContext \<Rightarrow> string + Storage \<times> Storage list" where
  "root_storage ctx cc =
     (let c = cc_desc cc; rv = cd_RootVolume c; rd = dc_desc (disk ctx (cc_root cc)) in
      if IsDir rv
      then Inr (shareStorage\<lparr>st_MountPoint := path_Join [st_MountPoint shareStorage, vd_Source rv]\<rparr>, [])
      else if vd_Fstype rv = [] then Inl ''fstype is not provided''
      else (let root = \<lparr>st_Driver = (if dd_ScsiAddr rd \<noteq> [] then ''scsi'' else []), st_DriverOptions = [],
                        st_Source = (if dd_ScsiAddr rd \<noteq> [] then dd_ScsiAddr rd else dd_DeviceName rd),
                        st_Fstype = vd_Fstype rv, st_Options = [],
                        st_MountPoint = ''/kata/storage/'' @ cd_Id c @ ''/root_volume/''\<rparr>
            in Inr (root, [root])))"

definition root_mismatch :: "ContainerDescription \<Rightarrow> string option" where
  "root_mismatch c =
     (case os_Root (cd_OciSpec c) of
        None \<Rightarrow> None
      | Some r \<Rightarrow>
          if or_Path r \<noteq> [] \<and> or_Path r \<noteq> cd_RootPath c then Some ''RootPath is not match''
          else if or_Readonly r \<and> \<not> vd_ReadOnly (cd_RootVolume c) then Some ''Readonly is not match''
          else None)"

text \<open>What \<^verbatim>\<open>agentCreate\<close> passes to the agent, or its error.\<close>

definition agent_request :: "VmContext \<Rightarrow> ContainerContext \<Rightarrow> string + Storage list \<times> OciSpec" where
  "agent_request ctx cc =
     (let c = cc_desc cc in
      if \<not> disk_isReady (cc_root cc) ctx then Inl ''root volume insert failed''
      else case root_mismatch c of
        Some e \<Rightarrow> Inl e
      | None \<Rightarrow>
          (case root_storage ctx cc of
             Inl e \<Rightarrow> Inl e
           | Inr (root, storages) \<Rightarrow>
               (case agent_volumes ctx cc (cd_Volumes c) storages (os_Mounts (cd_OciSpec c)) of
                  Inl e \<Rightarrow> Inl e
                | Inr (storages', mounts) \<Rightarrow>
                    Inr (storages', (cd_OciSpec c)
                      \<lparr>os_Root := Some \<lparr>or_Path = path_Join [st_MountPoint root, cd_RootPath c],
                                        or_Readonly = vd_ReadOnly (cd_RootVolume c)\<rparr>,
                       os_Mounts := mounts\<rparr>))))"

text \<open>\<open>reply\<close> is the error that the agent answers with, if any.\<close>

definition agentCreate ::
  "ContainerContext \<Rightarrow> string option \<Rightarrow> VmContext \<Rightarrow> VmContext \<times> string option" where
  "agentCreate cc reply ctx =
     (case agent_request ctx cc of
        Inl e \<Rightarrow> (ctx, Some e)
      | Inr (storages, spec) \<Rightarrow>
          (log_call (AgCreateContainer (cd_Id (cc_desc cc)) (cd_UGI (cc_desc cc)) storages spec) ctx, reply))"

definition createContainer :: "string \<Rightarrow> string option \<Rightarrow> VmContext \<Rightarrow> VmContext \<times> string option" where
  "createContainer cid reply ctx =
     (if \<not> IsRunning ctx then (ctx, Some (ce_cause (NewNotReadyError cid)))
      else case gget (sb_containers ctx) cid of
        None \<Rightarrow> (ctx, Some (''container '' @ cid @ '' not exist''))
      | Some cc \<Rightarrow> agentCreate cc reply ctx)"

definition startContainer :: "string \<Rightarrow> string option \<Rightarrow> VmContext \<Rightarrow> VmContext \<times> string option" where
  "startContainer cid reply ctx =
     (if \<not> IsRunning ctx then (ctx, Some (ce_cause (NewNotReadyError (sb_Id ctx))))
      else case gget (sb_containers ctx) cid of
        None \<Rightarrow> (ctx, Some (''container '' @ cid @ '' not exist''))
      | Some cc \<Rightarrow> (log_call (AgStartContainer (cd_Id (cc_desc cc))) ctx, reply))"

end
