(* ===== verification/Network.thy ===== *)
theory Network
  imports Sandbox HostNet
begin

text \<open>
  The network of a sandbox: \<^verbatim>\<open>hypervisor/network.go\<close> and the messages to the agent of
  \<^verbatim>\<open>hypervisor/vm_states.go\<close>. The random bytes, the replies of the driver and of the agent are
  arguments. An interface with a slot reserved but not configured yet is \<open>None\<close> in the map
  \<^verbatim>\<open>eth\<close>; \<open>None\<close> as an outcome is a run-time panic.
\<close>

section \<open>Slots and names\<close>

text \<open>
  The loops run to \<^verbatim>\<open>MAX_NIC\<close>, which is larger than any map; counting the entries bounds them.
\<close>

fun applySlot_loop :: "nat \<Rightarrow> int \<Rightarrow> (int, 'a) gomap \<Rightarrow> int" where
  "applySlot_loop 0 i eth = - 1"
| "applySlot_loop (Suc k) i eth = (if gget eth i = None then i else applySlot_loop k (i + 1) eth)"

definition applySlot :: "VmContext \<Rightarrow> VmContext \<times> int" where
  "applySlot ctx =
     (let i = applySlot_loop (Suc (length (nc_eth ctx))) 0 (nc_eth ctx)
      in if i = - 1 then (ctx, i) else (ctx\<lparr>nc_eth := gput i None (nc_eth ctx)\<rparr>, i))"

definition eth_name :: "nat \<Rightarrow> string" where
  "eth_name i = ''eth'' @ utoa i"

text \<open>The names of the interfaces in \<^verbatim>\<open>eth\<close>.\<close>

definition eth_names :: "VmContext \<Rightarrow> string list" where
  "eth_names ctx =
     List.map_filter (map_option (\<lambda>r. ic_NewName (h_infs ctx ! r))) (gvals (nc_eth ctx))"

fun devName_loop :: "nat \<Rightarrow> nat \<Rightarrow> string list \<Rightarrow> string" where
  "devName_loop 0 i names = []"
| "devName_loop (Suc k) i names =
     (if eth_name i \<in> set names then devName_loop k (Suc i) names else eth_name i)"

definition nextAvailableDevName :: "VmContext \<Rightarrow> string" where
  "nextAvailableDevName ctx = devName_loop (Suc (length (eth_names ctx))) 0 (eth_names ctx)"

definition freeSlot :: "int \<Rightarrow> VmContext \<Rightarrow> VmContext" where
  "freeSlot slot ctx =
     (case gget (nc_eth ctx) slot of
        None \<Rightarrow> ctx
      | Some nif \<Rightarrow>
          (let ctx1 = (case nif of
                 None \<Rightarrow> ctx
               | Some r \<Rightarrow> ctx\<lparr>nc_idMap := gdel (ic_Id (h_infs ctx ! r)) (nc_idMap ctx)\<rparr>)
           in ctx1\<lparr>nc_eth := gdel slot (nc_eth ctx1)\<rparr>))"

section \<open>Host side of an interface\<close>

definition interfaceGot ::
  "string \<Rightarrow> int \<Rightarrow> int \<Rightarrow> string \<Rightarrow> string \<Rightarrow> Settings \<Rightarrow> InterfaceCreated" where
  "interfaceGot i index pciAddr deviceName newName nif =
     \<lparr>ic_Id = i, ic_Index = index, ic_PCIAddr = pciAddr, ic_TapFd = 0, ic_Bridge = s_Bridge nif,
      ic_HostDevice = s_Device nif, ic_DeviceName = deviceName, ic_MacAddr = s_Mac nif,
      ic_IpAddr = s_IPAddress nif, ic_NewName = newName, ic_Mtu = s_Mtu nif,
      ic_RouteTable =
        (if index = 0 \<and> s_Automatic nif \<or> \<not> s_Automatic nif \<and> s_Gateway nif \<noteq> []
         then [\<lparr>rr_Destination = ''0.0.0.0/0'', rr_Gateway = s_Gateway nif, rr_ViaThis = True\<rparr>]
         else [])\<rparr>"

section \<open>Adding an interface\<close>

definition new_inf :: "InterfaceCreated \<Rightarrow> VmContext \<Rightarrow> VmContext \<times> infref" where
  "new_inf nif ctx = (ctx\<lparr>h_infs := h_infs ctx @ [nif]\<rparr>, length (h_infs ctx))"

text \<open>
  \<^verbatim>\<open>configureInterface\<close>: the description with the names it filled in, and \<open>Some\<close> the event that it
  sends on the channel itself, or \<open>None\<close> when the reply will come from the driver.
\<close>

definition configureInterface ::
  "int \<Rightarrow> int \<Rightarrow> string \<Rightarrow> InterfaceDescription \<Rightarrow> byte list option \<Rightarrow> VmContext \<Rightarrow>
   VmContext \<times> InterfaceDescription \<times> VmEvent option" where
  "configureInterface index pciAddr name nif0 rnd ctx =
     (let nif1 = (if id_TapName nif0 = [] then nif0\<lparr>id_TapName := NicName (sb_Id ctx) index\<rparr> else nif0);
          nif = (if id_Name nif1 = [] then nif1\<lparr>id_Name := name\<rparr> else nif1)
      in case Configure rnd nif of
           None \<Rightarrow>
             (ctx, nif, Some (DeviceFailed (InterfaceCreatedEvent
                \<lparr>ic_Id = id_Id nif, ic_Index = index, ic_PCIAddr = pciAddr, ic_TapFd = 0, ic_Bridge = [],
                 ic_HostDevice = [], ic_DeviceName = name, ic_MacAddr = [], ic_IpAddr = [],
                 ic_NewName = id_Name nif, ic_Mtu = id_Mtu nif, ic_RouteTable = []\<rparr>)))
         | Some settings \<Rightarrow>
             (let created = interfaceGot (id_Id nif) index pciAddr name (id_Name nif) settings;
                  h = \<lparr>hn_Id = ic_Id created, hn_Device = ic_HostDevice created, hn_Mac = ic_MacAddr created,
                       hn_Bridge = ic_Bridge created, hn_Gateway = ic_Bridge created, hn_Options = id_Options nif\<rparr>;
                  g = \<lparr>gn_Device = ic_NewName created, gn_Ipaddr = ic_IpAddr created,
                       gn_Index = ic_Index created, gn_Busaddr = ic_PCIAddr created\<rparr>;
                  (ctx1, r) = new_inf created ctx;
                  ctx2 = ctx1\<lparr>nc_eth := gput index (Some r) (nc_eth ctx1),
                              nc_idMap := gput (ic_Id created) r (nc_idMap ctx1)\<rparr>
              in (log_call (DrAddNic h g) ctx2, nif, None)))"

definition addInterface :: "InterfaceDescription \<Rightarrow> chan \<Rightarrow> VmContext \<Rightarrow> VmContext" where
  "addInterface nif0 result ctx =
     (if id_Lo nif0 then
        (if id_Ip nif0 = []
         then send_result result (CommonErrorResult (NewSpecError (id_Id nif0)
                ''creating an interface without an IP address'')) ctx
         else (let nif = (if id_Id nif0 = [] then nif0\<lparr>id_Id := ''lo''\<rparr> else nif0);
                   (ctx1, r) = new_inf
                     \<lparr>ic_Id = id_Id nif, ic_Index = 0, ic_PCIAddr = 0, ic_TapFd = 0, ic_Bridge = [],
                      ic_HostDevice = [], ic_DeviceName = ''lo'', ic_MacAddr = [], ic_IpAddr = id_Ip nif,
                      ic_NewName = [], ic_Mtu = id_Mtu nif, ic_RouteTable = []\<rparr> ctx;
                   ctx2 = ctx1\<lparr>nc_lo := gput (id_Ip nif) r (nc_lo ctx1),
                               nc_idMap := gput (id_Id nif) r (nc_idMap ctx1)\<rparr>
               in send_result result (NewResultBase (id_Id nif) True []) ctx2))
      else spawn [NicConfigure nif0 result] ctx)"

text \<open>
  The first goroutine of \<^verbatim>\<open>addInterface\<close>, with the slot lock held; it goes on as the second
  one, which waits for the channel.
\<close>

definition NicConfigure_step ::
  "InterfaceDescription \<Rightarrow> chan \<Rightarrow> byte list option \<Rightarrow> VmContext \<Rightarrow> VmContext \<times> action list" where
  "NicConfigure_step nif0 result rnd ctx =
     (let (ctx1, idx) = applySlot ctx;
          name = nextAvailableDevName ctx1;
          nif = (if id_Id nif0 = [] then nif0\<lparr>id_Id := itoa idx\<rparr> else nif0)
      in if idx < 0 \<or> name = []
         then (send_result result (CommonErrorResult (NewBusyError (id_Id nif)
                 ''no available ethernet slot/name for interface'')) ctx1, [])
         else (let (ctx2, pci) = NextPciAddr ctx1
               in case configureInterface idx pci name nif rnd ctx2 of
                    (ctx3, nif', Some ev) \<Rightarrow> (ctx3, [NicFailed ev result])
                  | (ctx3, nif', None) \<Rightarrow> (ctx3, [NicReply nif' result])))"

definition netdevInsertFailed :: "int \<Rightarrow> VmContext \<Rightarrow> VmContext" where
  "netdevInsertFailed idx ctx = (if gget (nc_eth ctx) idx = None then ctx else freeSlot idx ctx)"

text \<open>The branch of the second goroutine for a failed device.\<close>

definition nic_failed :: "VmEvent \<Rightarrow> chan \<Rightarrow> VmContext \<Rightarrow> VmContext" where
  "nic_failed session result ctx =
     send_result result (DeviceFailedResult session)
       (case session of
          InterfaceCreatedEvent nif \<Rightarrow> netdevInsertFailed (ic_Index nif) ctx
        | NetDevInsertedEvent _ index _ _ _ \<Rightarrow> netdevInsertFailed index ctx
        | _ \<Rightarrow> ctx)"

definition NicReply_step ::
  "InterfaceDescription \<Rightarrow> chan \<Rightarrow> VmEvent option \<Rightarrow> VmContext \<Rightarrow> VmContext option" where
  "NicReply_step nif result ev ctx =
     (case ev of
        None \<Rightarrow> Some ctx
      | Some (DeviceFailed session) \<Rightarrow> Some (nic_failed session result ctx)
      | Some (NetDevInsertedEvent i index dev addr fd) \<Rightarrow>
          (case gget (nc_idMap ctx) (id_Id nif) of
             None \<Rightarrow> None
           | Some r \<Rightarrow>
               Some (send_result result (NetDevInsertedResult i index dev addr fd)
                 (ctx\<lparr>h_infs := hupd r (\<lambda>c. c\<lparr>ic_TapFd := fd\<rparr>) (h_infs ctx)\<rparr>)))
      | Some _ \<Rightarrow> Some (send_result result (CommonErrorResult (NewDeviceError (id_Id nif) ''unknown event'')) ctx))"

section \<open>Removing, updating, reading\<close>

definition cleanupInf :: "infref \<Rightarrow> VmContext \<Rightarrow> VmContext" where
  "cleanupInf r ctx = log_call (NetReleaseAddr (ic_IpAddr (h_infs ctx ! r))) ctx"

definition removeInterface :: "string \<Rightarrow> chan \<Rightarrow> VmContext \<Rightarrow> VmContext" where
  "removeInterface i result ctx =
     (case gget (nc_idMap ctx) i of
        None \<Rightarrow> send_result result (NewResultBase i True ''not exist'') ctx
      | Some r \<Rightarrow>
          (let nif = h_infs ctx ! r in
           if ic_HostDevice nif = [] then
             send_result result (NewResultBase i True [])
               (ctx\<lparr>nc_idMap := gdel i (nc_idMap ctx), nc_lo := gdel (ic_IpAddr nif) (nc_lo ctx)\<rparr>)
           else if gget (nc_eth ctx) (ic_Index nif) = None then
             send_result result (NewResultBase i True ''not configured eth'')
               (ctx\<lparr>nc_idMap := gdel i (nc_idMap ctx)\<rparr>)
           else spawn [NicRemoveReply r i result]
                  (log_call (DrRemoveNic nif (NetDevRemovedEvent (ic_Index nif))) ctx)))"

definition NicRemoveReply_step :: "infref \<Rightarrow> string \<Rightarrow> chan \<Rightarrow> VmEvent option \<Rightarrow> VmContext \<Rightarrow> VmContext" where
  "NicRemoveReply_step r i result ev ctx =
     (case ev of
        None \<Rightarrow> ctx
      | Some e \<Rightarrow>
          (let failed = (case e of DeviceFailed _ \<Rightarrow> True | _ \<Rightarrow> False);
               ctx1 = freeSlot (ic_Index (h_infs ctx ! r)) ctx
           in send_result result
                (NewResultBase i (\<not> failed) (if failed then ''unplug failed'' else []))
                (cleanupInf r ctx1)))"

definition allInterfaces :: "VmContext \<Rightarrow> infref list" where
  "allInterfaces ctx = List.map_filter id (gvals (nc_eth ctx))"

text \<open>
  The addresses after the edits of an update: \<open>Inl\<close> the error, \<open>None\<close> the panic on an empty
  address.
\<close>

fun update_addrs :: "string list \<Rightarrow> string list \<Rightarrow> (string + string list) option" where
  "update_addrs [] old = Some (Inr old)"
| "update_addrs (ip # ips) old =
     (case ip of
        [] \<Rightarrow> None
      | ch # rest \<Rightarrow>
          if ch = CHR ''-''
          then (if rest \<in> set old then update_addrs ips (remove1 rest old)
                else Some (Inl (''failed to delete '' @ rest @ '': not found'')))
          else update_addrs ips (old @ [ip]))"

definition updateInterface :: "InterfaceDescription \<Rightarrow> VmContext \<Rightarrow> (VmContext \<times> string option) option" where
  "updateInterface nif ctx =
     (case gget (nc_idMap ctx) (id_Id nif) of
        None \<Rightarrow> Some (ctx, Some (''interface '' @ id_Id nif @ '' not exists''))
      | Some r \<Rightarrow>
          (let upd = (\<lambda>f c. c\<lparr>h_infs := hupd r f (h_infs c)\<rparr>);
               ctx1 = (if id_Name nif \<noteq> [] then upd (\<lambda>o'. o'\<lparr>ic_NewName := id_Name nif\<rparr>) ctx else ctx);
               ctx2 = (if id_Mtu nif > 0 then upd (\<lambda>o'. o'\<lparr>ic_Mtu := id_Mtu nif\<rparr>) ctx1 else ctx1)
           in if id_Ip nif = [] then Some (ctx2, None)
              else (case update_addrs (split_on CHR '','' (id_Ip nif))
                           (split_on CHR '','' (ic_IpAddr (h_infs ctx2 ! r))) of
                      None \<Rightarrow> None
                    | Some (Inl e) \<Rightarrow> Some (ctx2, Some e)
                    | Some (Inr addrs) \<Rightarrow>
                        Some (upd (\<lambda>o'. o'\<lparr>ic_IpAddr := join_with CHR '','' addrs\<rparr>) ctx2, None))))"

definition getInterface :: "string \<Rightarrow> VmContext \<Rightarrow> InterfaceCreated option" where
  "getInterface i ctx = map_option (\<lambda>r. h_infs ctx ! r) (gget (nc_idMap ctx) i)"

text \<open>\<open>None\<close>: a slot that is reserved but not configured is a nil dereference.\<close>

fun ip_addrs :: "InterfaceCreated list \<Rightarrow> infref option list \<Rightarrow> string list option" where
  "ip_addrs infs [] = Some []"
| "ip_addrs infs (None # rs) = None"
| "ip_addrs infs (Some r # rs) =
     map_option (\<lambda>rest. (if ic_IpAddr (infs ! r) \<noteq> [] then split_on CHR '','' (ic_IpAddr (infs ! r)) else []) @ rest)
       (ip_addrs infs rs)"

definition getIPAddrs :: "VmContext \<Rightarrow> string list option" where
  "getIPAddrs ctx = ip_addrs (h_infs ctx) (gvals (nc_eth ctx))"

definition getRoutes :: "VmContext \<Rightarrow> Route list" where
  "getRoutes ctx =
     concat (map (\<lambda>r. map (\<lambda>rule. \<lparr>rt_Dest = rr_Destination rule, rt_Gateway = rr_Gateway rule,
                                   rt_Device = ic_NewName (h_infs ctx ! r)\<rparr>)
                        (ic_RouteTable (h_infs ctx ! r)))
              (gvals (nc_idMap ctx)))"

fun cleanup_all :: "infref option list \<Rightarrow> VmContext \<Rightarrow> VmContext option" where
  "cleanup_all [] ctx = Some ctx"
| "cleanup_all (None # rs) ctx = None"
| "cleanup_all (Some r # rs) ctx = cleanup_all rs (cleanupInf r ctx)"

definition networks_close :: "VmContext \<Rightarrow> VmContext option" where
  "networks_close ctx =
     map_option (\<lambda>c. c\<lparr>nc_eth := [], nc_lo := [], nc_idMap := []\<rparr>) (cleanup_all (gvals (nc_eth ctx)) ctx)"

section \<open>The operations of the sandbox\<close>

definition SetNetworkEnvironment :: "SandboxConfig option \<Rightarrow> VmContext \<Rightarrow> VmContext" where
  "SetNetworkEnvironment net ctx = ctx\<lparr>nc_config := net\<rparr>"

definition AddInterface :: "InterfaceDescription \<Rightarrow> chan \<Rightarrow> VmContext \<Rightarrow> VmContext" where
  "AddInterface nif result ctx =
     addInterface nif result
       (if IsRunning ctx then ctx
        else send_result result (CommonErrorResult (NewNotReadyError (sb_Id ctx))) ctx)"

definition RemoveInterface :: "string \<Rightarrow> chan \<Rightarrow> VmContext \<Rightarrow> VmContext" where
  "RemoveInterface i result ctx =
     removeInterface i result
       (if IsRunning ctx then ctx else send_result result (NewResultBase i True ''pod not running'') ctx)"

definition UpdateInterface :: "InterfaceDescription \<Rightarrow> VmContext \<Rightarrow> (VmContext \<times> string option) option" where
  "UpdateInterface nif ctx =
     (if \<not> IsRunning ctx then Some (ctx, Some ''pod not running'') else updateInterface nif ctx)"

section \<open>Telling the agent\<close>

definition mask_string :: "byte list \<Rightarrow> string option" where
  "mask_string m = (if length m < 4 then None else Some (dotted (take 4 m)))"

definition agent_address :: "string \<Rightarrow> (string + IpAddress) option" where
  "agent_address addr =
     (case IpParser addr of
        None \<Rightarrow> Some (Inl (''invalid CIDR address: '' @ addr))
      | Some (ip, m) \<Rightarrow>
          map_option (\<lambda>ms. Inr \<lparr>ipa_IpAddress = ip_String ip, ipa_NetMask = ms\<rparr>) (mask_string m))"

fun agent_addresses :: "string list \<Rightarrow> (string + IpAddress list) option" where
  "agent_addresses [] = Some (Inr [])"
| "agent_addresses (a # as) =
     (case agent_address a of
        None \<Rightarrow> None
      | Some (Inl e) \<Rightarrow> Some (Inl e)
      | Some (Inr x) \<Rightarrow>
          (case agent_addresses as of
             None \<Rightarrow> None
           | Some (Inl e) \<Rightarrow> Some (Inl e)
           | Some (Inr xs) \<Rightarrow> Some (Inr (x # xs))))"

text \<open>\<open>reply\<close> is the error that the agent answers with, if any.\<close>

definition agentAddInterface ::
  "string \<Rightarrow> string option \<Rightarrow> VmContext \<Rightarrow> (VmContext \<times> string option) option" where
  "agentAddInterface i reply ctx =
     (case getInterface i ctx of
        None \<Rightarrow> Some (ctx, Some (''can't find interface whose ID is '' @ i))
      | Some nif \<Rightarrow>
          (case agent_addresses (split_on CHR '','' (ic_IpAddr nif)) of
             None \<Rightarrow> None
           | Some (Inl e) \<Rightarrow> Some (ctx, Some e)
           | Some (Inr addrs) \<Rightarrow>
               Some (log_call (AgUpdateInterface AddInf (ic_DeviceName nif) (ic_NewName nif) addrs (ic_Mtu nif)) ctx,
                     reply)))"

definition agentDeleteInterface ::
  "string \<Rightarrow> string option \<Rightarrow> VmContext \<Rightarrow> VmContext \<times> string option" where
  "agentDeleteInterface i reply ctx =
     (case getInterface i ctx of
        None \<Rightarrow> (ctx, Some (''can't find interface whose ID is '' @ i))
      | Some nif \<Rightarrow> (log_call (AgUpdateInterface DelInf (ic_NewName nif) [] [] 0) ctx, reply))"

text \<open>The addresses to add and to delete.\<close>

fun split_updates :: "string list \<Rightarrow> (string + IpAddress list \<times> IpAddress list) option" where
  "split_updates [] = Some (Inr ([], []))"
| "split_updates (a # as) =
     (case a of
        [] \<Rightarrow> None
      | c # rest \<Rightarrow>
          (case agent_address (if c = CHR ''-'' then rest else a) of
             None \<Rightarrow> None
           | Some (Inl e) \<Rightarrow> Some (Inl e)
           | Some (Inr x) \<Rightarrow>
               (case split_updates as of
                  None \<Rightarrow> None
                | Some (Inl e) \<Rightarrow> Some (Inl e)
                | Some (Inr (add, del)) \<Rightarrow>
                    Some (Inr (if c = CHR ''-'' then (add, x # del) else (x # add, del))))))"

text \<open>The requests are sent in order, up to the first one that the agent refuses.\<close>

fun send_updates :: "call list \<Rightarrow> string option list \<Rightarrow> VmContext \<Rightarrow> VmContext \<times> string option" where
  "send_updates [] replies ctx = (ctx, None)"
| "send_updates (c # cs) replies ctx =
     (case replies of
        Some e # _ \<Rightarrow> (log_call c ctx, Some e)
      | None # rs \<Rightarrow> send_updates cs rs (log_call c ctx)
      | [] \<Rightarrow> send_updates cs [] (log_call c ctx))"

definition agentUpdateInterface ::
  "string \<Rightarrow> string \<Rightarrow> nat \<Rightarrow> string option list \<Rightarrow> VmContext \<Rightarrow> (VmContext \<times> string option) option" where
  "agentUpdateInterface i addresses mtu replies ctx =
     (case getInterface i ctx of
        None \<Rightarrow> Some (ctx, Some (''can't find interface whose ID is '' @ i))
      | Some nif \<Rightarrow>
          (case (if addresses = [] then Some (Inr ([], [])) else split_updates (split_on CHR '','' addresses)) of
             None \<Rightarrow> None
           | Some (Inl e) \<Rightarrow> Some (ctx, Some e)
           | Some (Inr (add, del)) \<Rightarrow>
               Some (send_updates
                 ((if add \<noteq> [] then [AgUpdateInterface AddIP (ic_NewName nif) [] add 0] else []) @
                  (if del \<noteq> [] then [AgUpdateInterface DelIP (ic_NewName nif) [] del 0] else []) @
                  (if mtu > 0 then [AgUpdateInterface SetMtu (ic_NewName nif) [] [] mtu] else []))
                 replies ctx)))"

end
