(* ===== verification/Lifecycle.thy ===== *)
theory Lifecycle
  imports Containers Network
begin

text \<open>
  The life of a sandbox: creation (\<^verbatim>\<open>InitContext\<close>, \<^verbatim>\<open>Launch\<close>), the event queue and the main loop
  (\<^verbatim>\<open>hypervisor/hypervisor.go\<close>), the two states and their transitions
  (\<^verbatim>\<open>hypervisor/vm_states.go\<close>), the reports to the client (\<^verbatim>\<open>hypervisor/report.go\<close>) and
  \<^verbatim>\<open>Close\<close>. At the end the whole sandbox is a transition system: a step is a call of its
  interface, an event from outside, the timer, one step of the main loop or one action of a
  goroutine, with what the environment answers as part of the label.
\<close>

datatype 'a outcome = Blocked | Crashed | Next 'a

definition lift_crash :: "'a option \<Rightarrow> 'a outcome" where
  "lift_crash x = (case x of None \<Rightarrow> Crashed | Some a \<Rightarrow> Next a)"

lemma lift_crash_Next [simp]: "lift_crash x = Next a \<longleftrightarrow> x = Some a"
  by (auto simp: lift_crash_def split: option.splits)

lemma lift_crash_Crashed [simp]: "lift_crash x = Crashed \<longleftrightarrow> x = None"
  by (auto simp: lift_crash_def split: option.splits)

section \<open>Creation\<close>

definition BaseDir :: string where "BaseDir = ''/var/run/hyper''"
definition HyperSockName :: string where "HyperSockName = ''hyper.sock''"
definition TtySockName :: string where "TtySockName = ''tty.sock''"
definition KataSockName :: string where "KataSockName = ''kata-yamux-agent.sock''"
definition ConsoleSockName :: string where "ConsoleSockName = ''console.sock''"
definition PciAddrFrom :: int where "PciAddrFrom = 5"

text \<open>
  What the host contributes: the share directory could be made, the driver has a context for the
  sandbox (or one was loaded), it supports vsock.
\<close>

record init_env =
  ie_mkdir :: bool
  ie_driver :: bool
  ie_vsock :: bool

text \<open>The context, or \<open>None\<close> for an error, and the id allocator.\<close>

definition InitContext ::
  "string \<Rightarrow> BootConfig \<Rightarrow> init_env \<Rightarrow> DefaultVsockCidAllocator \<Rightarrow> VmContext option \<times> DefaultVsockCidAllocator" where
  "InitContext i boot env cids =
     (let homeDir = path_Join [BaseDir, i];
          mk = (\<lambda>cid cids'.
            \<lparr>sb_Id = i, sb_PauseState = PauseStateUnpaused, sb_Boot = boot, sb_Hub = [], sb_client = [],
             sb_clientClosed = False, sb_HomeDir = homeDir,
             sb_HyperSockName = path_Join [homeDir, HyperSockName],
             sb_TtySockName = path_Join [homeDir, TtySockName],
             sb_KataSockName = path_Join [homeDir, KataSockName],
             sb_ConsoleSockName = path_Join [homeDir, ConsoleSockName],
             sb_ShareDir = path_Join [homeDir, ShareDirTag],
             sb_GuestCid = cid, sb_pciAddr = PciAddrFrom, sb_scsiId = 0, sb_volumes = [], sb_containers = [],
             sb_handler = Some stateRunning, sb_current = StateRunning, sb_timer = None,
             sb_closeOnce = False, nc_config = None, nc_ports = [], nc_eth = [], nc_lo = [], nc_idMap = [],
             h_disks = [], h_wgs = [], h_infs = [], sb_cids = cids', sb_go = [], sb_loop = LoopTest,
             sb_results = [], sb_calls = []\<rparr>)
      in if \<not> ie_mkdir env \<or> \<not> ie_driver env then (None, cids)
         else if bc_EnableVsock boot then
           (if \<not> ie_vsock env then (None, cids)
            else (case GetCid cids of
                    (cids', None) \<Rightarrow> (None, cids')
                  | (cids', Some cid) \<Rightarrow> (Some (mk cid cids'), cids')))
         else (Some (mk 0 cids), cids))"

definition Launch :: "VmContext \<Rightarrow> VmContext" where
  "Launch ctx =
     (let ctx1 = log_call DrLaunch ctx
      in if bc_BootFromTemplate (sb_Boot ctx1) then ctx1\<lparr>sb_PauseState := PauseStatePaused\<rparr> else ctx1)"

section \<open>Reports, timer, state\<close>

definition response :: "VmContext \<Rightarrow> ResponseCode \<Rightarrow> string \<Rightarrow> VmEvent option \<Rightarrow> VmResponse" where
  "response ctx code cause reply =
     \<lparr>rsp_VmId = sb_Id ctx, rsp_Code = code, rsp_Cause = cause, rsp_Reply = reply\<rparr>"

text \<open>A send on the closed channel panics; two of the reports recover from it.\<close>

definition send_client :: "VmResponse \<Rightarrow> VmContext \<Rightarrow> VmContext option" where
  "send_client r ctx =
     (if sb_clientClosed ctx then None else Some (ctx\<lparr>sb_client := sb_client ctx @ [r]\<rparr>))"

definition recovered :: "VmContext \<Rightarrow> VmContext option \<Rightarrow> VmContext" where
  "recovered ctx r = (case r of None \<Rightarrow> ctx | Some c \<Rightarrow> c)"

definition reportVmShutdown :: "VmContext \<Rightarrow> VmContext" where
  "reportVmShutdown ctx = recovered ctx (send_client (response ctx E_VM_SHUTDOWN ''VM shut down'' None) ctx)"

definition reportSuccess :: "string \<Rightarrow> VmContext \<Rightarrow> VmContext option" where
  "reportSuccess msg ctx = send_client (response ctx E_OK msg None) ctx"

definition reportUnexpectedRequest :: "VmEvent \<Rightarrow> string \<Rightarrow> VmContext \<Rightarrow> VmContext option" where
  "reportUnexpectedRequest ev state ctx =
     send_client (response ctx E_UNEXPECTED (''unexpected event during '' @ state) (Some ev)) ctx"

definition reportVmFault :: "string \<Rightarrow> VmContext \<Rightarrow> VmContext" where
  "reportVmFault cause ctx = recovered ctx (send_client (response ctx E_FAILED cause None) ctx)"

definition unsetTimeout :: "VmContext \<Rightarrow> VmContext" where
  "unsetTimeout ctx = ctx\<lparr>sb_timer := None\<rparr>"

definition setTimeout :: "VmContext \<Rightarrow> VmContext" where
  "setTimeout ctx =
     (if sb_timer ctx \<noteq> None then unsetTimeout ctx else ctx)\<lparr>sb_timer := Some True\<rparr>"

definition Become :: "stateHandler option \<Rightarrow> string \<Rightarrow> VmContext \<Rightarrow> VmContext" where
  "Become handler desc ctx = ctx\<lparr>sb_handler := handler, sb_current := desc\<rparr>"

definition Close :: "VmContext \<Rightarrow> VmContext option" where
  "Close ctx0 =
     (if sb_closeOnce ctx0 then Some ctx0
      else (let ctx = unsetTimeout (log_call AgClose (ctx0\<lparr>sb_closeOnce := True\<rparr>))
            in case networks_close ctx of
              None \<Rightarrow> None
            | Some ctx1 \<Rightarrow>
                (let ctx2 = log_call DrClose ctx1 in
                 if sb_clientClosed ctx2 then None
                 else (let ctx3 = ctx2\<lparr>sb_clientClosed := True, sb_handler := None, sb_current := ''None''\<rparr>
                       in Some (if bc_EnableVsock (sb_Boot ctx3) \<and> sb_GuestCid ctx3 > 0
                                then ctx3\<lparr>sb_cids := ReleaseCid (sb_cids ctx3) (sb_GuestCid ctx3), sb_GuestCid := 0\<rparr>
                                else ctx3)))))"

definition SendVmEvent :: "VmEvent \<Rightarrow> VmContext \<Rightarrow> VmContext option" where
  "SendVmEvent ev ctx =
     (if sb_handler ctx = None then None else Some (ctx\<lparr>sb_Hub := sb_Hub ctx @ [ev]\<rparr>))"

section \<open>Starting and stopping the pod\<close>

definition startPod :: "string option \<Rightarrow> VmContext \<Rightarrow> (VmContext \<times> string option) option" where
  "startPod reply ctx =
     (let ctx1 = log_call (AgStartSandbox (nc_config ctx) [shareStorage]) ctx in
      case reply of
        None \<Rightarrow> map_option (\<lambda>c. (c, None)) (reportSuccess ''Start POD success'' ctx1)
      | Some e \<Rightarrow> Some (reportVmFault (''Start POD failed: '' @ e) ctx1, Some e))"

definition poweroffVM :: "VmContext \<Rightarrow> VmContext" where
  "poweroffVM ctx = (if sb_handler ctx \<noteq> None then log_call DrKill ctx else ctx)"

text \<open>
  The goroutine of \<^verbatim>\<open>shutdownVM\<close>, up to the request to the agent and behind its answer.
\<close>

definition ShutdownVM_step :: "VmContext \<Rightarrow> VmContext \<times> action list" where
  "ShutdownVM_step ctx = (log_call AgDestroySandbox (setTimeout ctx), [ShutdownReply])"

definition ShutdownReply_step :: "string option \<Rightarrow> VmContext \<Rightarrow> VmContext \<times> action list" where
  "ShutdownReply_step reply ctx =
     (poweroffVM ctx, case reply of None \<Rightarrow> [] | Some _ \<Rightarrow> [CloseContext])"

section \<open>The states\<close>

definition unexpectedEventHandler :: "VmContext \<Rightarrow> VmEvent \<Rightarrow> string \<Rightarrow> VmContext option" where
  "unexpectedEventHandler ctx ev state =
     (if Event ev \<in> {COMMAND_SHUTDOWN, COMMAND_RELEASE, COMMAND_PAUSEVM}
      then reportUnexpectedRequest ev state ctx else Some ctx)"

definition stateRunning_handler :: "VmContext \<Rightarrow> VmEvent \<Rightarrow> VmContext option" where
  "stateRunning_handler ctx ev =
     (case Event ev of
        COMMAND_SHUTDOWN \<Rightarrow> Some (Become (Some stateTerminating) StateTerminating (spawn [ShutdownVM] ctx))
      | COMMAND_RELEASE \<Rightarrow> reportSuccess [] (Become None StateNone ctx)
      | EVENT_VM_EXIT \<Rightarrow> Close (reportVmShutdown ctx)
      | ERROR_VM_START_FAILED \<Rightarrow> Close (reportVmShutdown ctx)
      | EVENT_VM_KILL \<Rightarrow> Close (reportVmShutdown ctx)
      | EVENT_VM_TIMEOUT \<Rightarrow> Some ctx
      | ERROR_INIT_FAIL \<Rightarrow> Close (poweroffVM ctx)
      | ERROR_INTERRUPTED \<Rightarrow> Close (poweroffVM ctx)
      | _ \<Rightarrow> unexpectedEventHandler ctx ev ''pod running'')"

definition stateTerminating_handler :: "VmContext \<Rightarrow> VmEvent \<Rightarrow> VmContext option" where
  "stateTerminating_handler ctx ev =
     (case Event ev of
        EVENT_VM_EXIT \<Rightarrow> Close (reportVmShutdown ctx)
      | EVENT_VM_KILL \<Rightarrow> Close (reportVmShutdown ctx)
      | COMMAND_RELEASE \<Rightarrow> Some ctx
      | EVENT_VM_TIMEOUT \<Rightarrow> Close (poweroffVM ctx)
      | ERROR_INTERRUPTED \<Rightarrow> Some ctx
      | _ \<Rightarrow> unexpectedEventHandler ctx ev ''terminating'')"

fun run_handler :: "stateHandler \<Rightarrow> VmContext \<Rightarrow> VmEvent \<Rightarrow> VmContext option" where
  "run_handler stateRunning = stateRunning_handler"
| "run_handler stateTerminating = stateTerminating_handler"

text \<open>
  The main loop: the test of the handler, the receive, and the call of the handler, which reads
  the field again: a nil handler there is a nil call.
\<close>

definition loop_step :: "VmContext \<Rightarrow> VmContext outcome" where
  "loop_step ctx =
     (case sb_loop ctx of
        LoopTest \<Rightarrow> Next (ctx\<lparr>sb_loop := (if sb_handler ctx \<noteq> None then LoopReceive else LoopDone)\<rparr>)
      | LoopReceive \<Rightarrow>
          (case sb_Hub ctx of
             [] \<Rightarrow> Blocked
           | ev # evs \<Rightarrow> Next (ctx\<lparr>sb_Hub := evs, sb_loop := LoopHandle ev\<rparr>))
      | LoopHandle ev \<Rightarrow>
          (case sb_handler ctx of
             None \<Rightarrow> Crashed
           | Some h \<Rightarrow> lift_crash (run_handler h (ctx\<lparr>sb_loop := LoopTest\<rparr>) ev))
      | LoopDone \<Rightarrow> Blocked)"

section \<open>The sandbox as a transition system\<close>

datatype env = NoEnv | EnvEvent "VmEvent option" | EnvErr "string option" | EnvRandom "byte list option"

fun action_step :: "action \<Rightarrow> env \<Rightarrow> VmContext \<Rightarrow> (VmContext \<times> action list) outcome" where
  "action_step (InsertDisk d ch) _ ctx = Next (InsertDisk_step d ch ctx)"
| "action_step (InsertReply d ch) (EnvEvent ev) ctx = Next (InsertReply_step d ch ev ctx)"
| "action_step (InsertedDisk d) _ ctx = lift_crash (map_option (\<lambda>c. (c, [])) (disk_inserted d ctx))"
| "action_step (FailedDisk d) _ ctx = lift_crash (map_option (\<lambda>c. (c, [])) (disk_failed d ctx))"
| "action_step (RemoveDisk d ch) _ ctx = Next (RemoveDisk_step d ch ctx)"
| "action_step (RemoveReply d ch) (EnvEvent ev) ctx = Next (RemoveReply_step d ch ev ctx)"
| "action_step (SendResult ch r) _ ctx = Next (send_result ch r ctx, [])"
| "action_step (AddReady cc w ch) _ ctx = (if h_wgs ctx ! w = 0 then Next (cc_add cc ch ctx, []) else Blocked)"
| "action_step ShutdownVM _ ctx = Next (ShutdownVM_step ctx)"
| "action_step ShutdownReply (EnvErr e) ctx = Next (ShutdownReply_step e ctx)"
| "action_step CloseContext _ ctx = lift_crash (map_option (\<lambda>c. (c, [])) (Close ctx))"
| "action_step (NicConfigure nif ch) (EnvRandom rnd) ctx = Next (NicConfigure_step nif ch rnd ctx)"
| "action_step (NicReply nif ch) (EnvEvent ev) ctx = lift_crash (map_option (\<lambda>c. (c, [])) (NicReply_step nif ch ev ctx))"
| "action_step (NicFailed (DeviceFailed s) ch) _ ctx = Next (nic_failed s ch ctx, [])"
| "action_step (NicRemoveReply r i ch) (EnvEvent ev) ctx = Next (NicRemoveReply_step r i ch ev ctx, [])"
| "action_step _ _ _ = Blocked"

text \<open>One action of goroutine \<open>n\<close>; what the action leaves to do goes in front of the rest.\<close>

definition go_step :: "nat \<Rightarrow> env \<Rightarrow> VmContext \<Rightarrow> VmContext outcome" where
  "go_step n e ctx =
     (if n < length (sb_go ctx) \<and> sb_go ctx ! n \<noteq> [] then
        (case action_step (hd (sb_go ctx ! n)) e ctx of
           Blocked \<Rightarrow> Blocked
         | Crashed \<Rightarrow> Crashed
         | Next (ctx', acts) \<Rightarrow> Next (ctx'\<lparr>sb_go := (sb_go ctx')[n := acts @ tl (sb_go ctx ! n)]\<rparr>))
      else Blocked)"

datatype label =
    CallAddContainer ContainerDescription chan
  | CallRemoveContainer string chan
  | CallAddVolume VolumeDescription chan
  | CallRemoveVolume string chan
  | CallAddInterface InterfaceDescription chan
  | CallRemoveInterface string chan
  | CallUpdateInterface InterfaceDescription
  | CallCreateContainer string "string option"
  | CallStartContainer string "string option"
  | CallSendVmEvent VmEvent
  | CallStartPod "string option"
  | CallKill
  | HubEvent VmEvent
  | Timer
  | Loop
  | Go nat env

text \<open>The hub has room for 128 events; a driver puts its events there without the test of the handler.\<close>

definition hubCapacity :: nat where "hubCapacity = 128"

fun sb_exec :: "label \<Rightarrow> VmContext \<Rightarrow> VmContext outcome" where
  "sb_exec (CallAddContainer c ch) ctx = lift_crash (AddContainer c ch ctx)"
| "sb_exec (CallRemoveContainer i ch) ctx = Next (RemoveContainer i ch ctx)"
| "sb_exec (CallAddVolume v ch) ctx = lift_crash (AddVolume v ch ctx)"
| "sb_exec (CallRemoveVolume v ch) ctx = Next (RemoveVolume v ch ctx)"
| "sb_exec (CallAddInterface i ch) ctx = Next (AddInterface i ch ctx)"
| "sb_exec (CallRemoveInterface i ch) ctx = Next (RemoveInterface i ch ctx)"
| "sb_exec (CallUpdateInterface i) ctx = lift_crash (map_option fst (UpdateInterface i ctx))"
| "sb_exec (CallCreateContainer i r) ctx = Next (fst (createContainer i r ctx))"
| "sb_exec (CallStartContainer i r) ctx = Next (fst (startContainer i r ctx))"
| "sb_exec (CallSendVmEvent ev) ctx =
     (if length (sb_Hub ctx) \<ge> hubCapacity \<and> sb_handler ctx \<noteq> None then Blocked
      else case SendVmEvent ev ctx of None \<Rightarrow> Next ctx | Some c \<Rightarrow> Next c)"
| "sb_exec (CallStartPod r) ctx = lift_crash (map_option fst (startPod r ctx))"
| "sb_exec CallKill ctx = Next (poweroffVM ctx)"
| "sb_exec (HubEvent ev) ctx =
     (if length (sb_Hub ctx) \<ge> hubCapacity then Blocked else Next (ctx\<lparr>sb_Hub := sb_Hub ctx @ [ev]\<rparr>))"
| "sb_exec Timer ctx =
     (if sb_timer ctx = Some True \<and> length (sb_Hub ctx) < hubCapacity
      then Next (ctx\<lparr>sb_timer := Some False, sb_Hub := sb_Hub ctx @ [VmTimeout]\<rparr>) else Blocked)"
| "sb_exec Loop ctx = loop_step ctx"
| "sb_exec (Go n e) ctx = go_step n e ctx"

text \<open>A history of labels; \<open>Crashed\<close> and \<open>Blocked\<close> end it.\<close>

fun sb_run :: "label list \<Rightarrow> VmContext \<Rightarrow> VmContext outcome" where
  "sb_run [] ctx = Next ctx"
| "sb_run (l # ls) ctx = (case sb_exec l ctx of Next c \<Rightarrow> sb_run ls c | Blocked \<Rightarrow> Blocked | Crashed \<Rightarrow> Crashed)"

definition launched :: "VmContext \<Rightarrow> bool" where
  "launched ctx \<longleftrightarrow> (\<exists>i boot env cids c cids'. InitContext i boot env cids = (Some c, cids') \<and> ctx = Launch c)"

inductive reachable :: "VmContext \<Rightarrow> bool" where
  reach_init: "launched ctx \<Longrightarrow> reachable ctx"
| reach_step: "reachable ctx \<Longrightarrow> sb_exec l ctx = Next ctx' \<Longrightarrow> reachable ctx'"

lemma reachable_run: "reachable ctx \<Longrightarrow> sb_run ls ctx = Next ctx' \<Longrightarrow> reachable ctx'"
proof (induction ls arbitrary: ctx)
  case (Cons l ls)
  then obtain c where "sb_exec l ctx = Next c" "sb_run ls c = Next ctx'"
    by (auto split: outcome.splits)
  with Cons show ?case using reach_step by blast
qed simp

text \<open>An invariant of the sandbox: it holds at launch and every label keeps it.\<close>

locale sandbox_invariant =
  fixes I :: "VmContext \<Rightarrow> bool"
  assumes I_launched: "launched ctx \<Longrightarrow> I ctx"
    and I_exec: "I ctx \<Longrightarrow> sb_exec l ctx = Next ctx' \<Longrightarrow> I ctx'"
begin

lemma reachable_I: "reachable ctx \<Longrightarrow> I ctx"
  by (induction rule: reachable.induct) (auto intro: I_launched I_exec)

lemma run_I: "I ctx \<Longrightarrow> sb_run ls ctx = Next ctx' \<Longrightarrow> I ctx'"
  by (induction ls arbitrary: ctx) (auto intro: I_exec split: outcome.splits)

end

end
