(* ===== verification/DiskInv.thy ===== *)
theory DiskInv
  imports Lifecycle "HOL-Library.Multiset"
begin

text \<open>
  What every interleaving of the sandbox keeps true of its disks: which disks are attached, who
  waits for them, that the counters of the wait groups cover the signals still to come, and that
  the SCSI ids given to the driver are fresh. The invariant is stated on the part of the state it
  talks about, so that the operations that leave this part alone keep it at once.
\<close>

named_theorems frame \<open>what an operation leaves alone\<close>

section \<open>Counting the actions of the goroutines\<close>

definition acount :: "(action \<Rightarrow> bool) \<Rightarrow> action list list \<Rightarrow> nat" where
  "acount P gs = length (filter P (concat gs))"

lemma acount_Nil [simp]: "acount P [] = 0"
  by (simp add: acount_def)

lemma acount_append [simp]: "acount P (gs @ hs) = acount P gs + acount P hs"
  by (simp add: acount_def)

lemma acount_Cons [simp]: "acount P (as # gs) = length (filter P as) + acount P gs"
  by (simp add: acount_def)

lemma acount_replace:
  assumes "n < length gs" "gs ! n \<noteq> []"
  shows "acount P (gs[n := as @ tl (gs ! n)]) + (if P (hd (gs ! n)) then 1 else 0) =
    acount P gs + length (filter P as)"
proof -
  obtain a rest where g: "gs ! n = a # rest" using assms(2) by (cases "gs ! n") auto
  have split: "gs = take n gs @ gs ! n # drop (Suc n) gs" by (rule id_take_nth_drop [OF assms(1)])
  have "gs[n := as @ tl (gs ! n)] = take n gs @ (as @ rest) # drop (Suc n) gs"
    using assms(1) g by (simp add: upd_conv_take_nth_drop)
  moreover have "acount P gs = acount P (take n gs) + length (filter P (a # rest)) + acount P (drop (Suc n) gs)"
    by (subst split) (simp add: g)
  ultimately show ?thesis using g by simp
qed

fun is_sig :: "dref \<Rightarrow> action \<Rightarrow> bool" where
  "is_sig d (InsertDisk d' _) \<longleftrightarrow> d' = d"
| "is_sig d (InsertReply d' _) \<longleftrightarrow> d' = d"
| "is_sig d (InsertedDisk d') \<longleftrightarrow> d' = d"
| "is_sig d (FailedDisk d') \<longleftrightarrow> d' = d"
| "is_sig d _ \<longleftrightarrow> False"

fun is_rem :: "dref \<Rightarrow> action \<Rightarrow> bool" where
  "is_rem d (RemoveDisk d' _) \<longleftrightarrow> d' = d"
| "is_rem d (RemoveReply d' _) \<longleftrightarrow> d' = d"
| "is_rem d _ \<longleftrightarrow> False"

section \<open>Wait groups\<close>

lemma wg_done_all_Some:
  assumes "\<And>w. w \<in> set ws \<Longrightarrow> w < length wgs"
    and "\<And>w. w < length wgs \<Longrightarrow> int (count_list ws w) \<le> wgs ! w"
  shows "\<exists>wgs'. wg_done_all ws wgs = Some wgs' \<and> length wgs' = length wgs \<and>
    (\<forall>w < length wgs. wgs' ! w = wgs ! w - int (count_list ws w))"
  using assms
proof (induction ws arbitrary: wgs)
  case (Cons v ws)
  have v: "v < length wgs" "0 < wgs ! v"
    using Cons.prems(1) [of v] Cons.prems(2) [of v] by auto
  let ?wgs = "hupd v (\<lambda>c. c - 1) wgs"
  have "int (count_list ws w) \<le> ?wgs ! w" if "w < length ?wgs" for w
    using Cons.prems(2) [of w] that by auto
  then obtain wgs' where "wg_done_all ws ?wgs = Some wgs'" "length wgs' = length wgs"
    "\<forall>w < length wgs. wgs' ! w = ?wgs ! w - int (count_list ws w)"
    using Cons.IH [of ?wgs] Cons.prems(1) by auto
  with v show ?case by auto
qed simp

definition pend :: "DiskContext list \<Rightarrow> (dref \<Rightarrow> nat) \<Rightarrow> wgref \<Rightarrow> nat" where
  "pend disks sg w =
     (\<Sum>d < length disks. if sg d > 0 then count_list (gvals (dc_observers (disks ! d))) w else 0)"

lemma pend_member:
  assumes "d < length disks" "sg d > 0"
  shows "count_list (gvals (dc_observers (disks ! d))) w \<le> pend disks sg w"
proof -
  let ?f = "\<lambda>d. if sg d > 0 then count_list (gvals (dc_observers (disks ! d))) w else 0"
  have "?f d \<le> (\<Sum>d < length disks. ?f d)"
    by (rule member_le_sum) (use assms in auto)
  then show ?thesis using assms by (simp add: pend_def)
qed

text \<open>Changing one disk changes its own summand only.\<close>

lemma pend_change:
  assumes "d < length disks" "\<And>e. e \<noteq> d \<Longrightarrow> (sg' e > 0) = (sg e > 0)"
  shows "pend (hupd d f disks) sg' w +
      (if sg d > 0 then count_list (gvals (dc_observers (disks ! d))) w else 0) =
    pend disks sg w +
      (if sg' d > 0 then count_list (gvals (dc_observers (f (disks ! d)))) w else 0)"
proof -
  let ?n = "length disks"
  have fin: "finite {..<?n}" "d \<in> {..<?n}" using assms by auto
  have "(\<Sum>e \<in> {..<?n} - {d}. if sg' e > 0 then count_list (gvals (dc_observers (hupd d f disks ! e))) w else 0)
      = (\<Sum>e \<in> {..<?n} - {d}. if sg e > 0 then count_list (gvals (dc_observers (disks ! e))) w else 0)"
    by (rule sum.cong) (use assms(2) in auto)
  then show ?thesis
    unfolding pend_def using assms(1) by (simp add: sum.remove [OF fin])
qed

lemma count_list_gdel: "count_list (gvals (gdel k m)) w \<le> count_list (gvals m) w"
  by (induction m) auto

lemma gdel_subset: "set (gdel k m) \<subseteq> set m"
  by (simp add: AList.delete_eq)

lemma in_gdel: "(c, x) \<in> set (gdel k m) \<longleftrightarrow> (c, x) \<in> set m \<and> c \<noteq> k"
  by (auto simp: AList.delete_eq)

lemma gkeys_gdel: "set (gkeys (gdel k m)) = set (gkeys m) - {k}"
  by (metis dom_gget dom_fun_upd gget_gdel)

lemma gdel_split:
  assumes "gwf m" "gget m k = Some v"
  shows "\<exists>xs ys. m = xs @ (k, v) # ys \<and> gdel k m = xs @ ys"
proof -
  obtain xs ys where m: "m = xs @ (k, v) # ys"
    using map_of_SomeD [OF assms(2)] by (meson split_list)
  have "gdel k xs = xs" "gdel k ys = ys"
    using assms(1) by (simp_all add: m map_of_eq_None_iff)
  then show ?thesis using m by (auto simp: AList.delete_eq)
qed

section \<open>The invariant of the disks\<close>

type_synonym volmap = "(string, dref) gomap"
type_synonym contmap = "(string, ContainerContext) gomap"

definition att :: "volmap \<Rightarrow> contmap \<Rightarrow> dref list" where
  "att vols conts = gvals vols @ map cc_root (gvals conts)"

abbreviation obs :: "DiskContext list \<Rightarrow> dref \<Rightarrow> (string, wgref) gomap" where
  "obs disks d \<equiv> dc_observers (disks ! d)"

text \<open>
  Attached disks are pairwise different and valid, are not being removed, and have at most one
  signal to come, before which they are not ready.
\<close>

definition att_ok :: "volmap \<Rightarrow> contmap \<Rightarrow> DiskContext list \<Rightarrow> (dref \<Rightarrow> nat) \<Rightarrow> (dref \<Rightarrow> nat) \<Rightarrow> bool" where
  "att_ok vols conts disks sg rm \<longleftrightarrow>
     gwf vols \<and> gwf conts \<and> distinct (att vols conts) \<and>
     (\<forall>d \<in> set (att vols conts).
        d < length disks \<and> rm d = 0 \<and> sg d \<le> 1 \<and> (sg d = 1 \<longrightarrow> \<not> dc_ready (disks ! d))) \<and>
     (\<forall>d \<ge> length disks. sg d = 0 \<and> rm d = 0)"

text \<open>Only attached disks are waited for, with valid wait groups.\<close>

definition obs_ok :: "dref set \<Rightarrow> DiskContext list \<Rightarrow> nat \<Rightarrow> bool" where
  "obs_ok A disks nwg \<longleftrightarrow>
     (\<forall>d < length disks. gwf (obs disks d) \<and> (\<forall>w \<in> set (gvals (obs disks d)). w < nwg) \<and>
        (d \<notin> A \<longrightarrow> obs disks d = []))"

definition wg_ok :: "DiskContext list \<Rightarrow> int list \<Rightarrow> (dref \<Rightarrow> nat) \<Rightarrow> bool" where
  "wg_ok disks wgs sg \<longleftrightarrow> (\<forall>w < length wgs. int (pend disks sg w) \<le> wgs ! w)"

text \<open>
  A container, unless it is being removed, is waited for by every volume it names; nobody else
  waits for its root.
\<close>

definition use_ok :: "string set \<Rightarrow> volmap \<Rightarrow> contmap \<Rightarrow> DiskContext list \<Rightarrow> bool" where
  "use_ok X vols conts disks \<longleftrightarrow>
     (\<forall>cid cc. (cid, cc) \<in> set conts \<longrightarrow> cd_Id (cc_desc cc) = cid \<and> set (gkeys (obs disks (cc_root cc))) \<subseteq> {cid} \<and>
        (cid \<notin> X \<longrightarrow> (\<forall>vn \<in> set (gkeys (cd_Volumes (cc_desc cc))).
           \<exists>d. gget vols vn = Some d \<and> cid \<in> set (gkeys (obs disks d)))))"

definition dinv ::
  "string set \<Rightarrow> volmap \<Rightarrow> contmap \<Rightarrow> DiskContext list \<Rightarrow> int list \<Rightarrow> (dref \<Rightarrow> nat) \<Rightarrow> (dref \<Rightarrow> nat) \<Rightarrow> bool" where
  "dinv X vols conts disks wgs sg rm \<longleftrightarrow>
     att_ok vols conts disks sg rm \<and> obs_ok (set (att vols conts)) disks (length wgs) \<and>
     wg_ok disks wgs sg \<and> use_ok X vols conts disks"

lemmas dinv_defs = dinv_def att_ok_def obs_ok_def wg_ok_def use_ok_def

lemma att_vols: "gget vols vn = Some d \<Longrightarrow> d \<in> set (att vols conts)"
  by (auto simp: att_def dest!: map_of_SomeD intro: image_eqI [rotated])

lemma att_conts: "(cid, cc) \<in> set conts \<Longrightarrow> cc_root cc \<in> set (att vols conts)"
  by (force simp: att_def)

lemma use_ok_obs:
  assumes "use_ok X vols conts disks" "\<And>d. d \<in> set (att vols conts) \<Longrightarrow> obs disks' d = obs disks d"
  shows "use_ok X vols conts disks'"
  unfolding use_ok_def
proof (clarify, intro conjI impI ballI)
  fix cid cc assume c: "(cid, cc) \<in> set conts"
  with assms(1) show "cd_Id (cc_desc cc) = cid" unfolding use_ok_def by blast
  show "set (gkeys (obs disks' (cc_root cc))) \<subseteq> {cid}"
    using assms(1) c assms(2) [OF att_conts [OF c]] unfolding use_ok_def by metis
  fix vn assume "cid \<notin> X" "vn \<in> set (gkeys (cd_Volumes (cc_desc cc)))"
  then obtain d where "gget vols vn = Some d" "cid \<in> set (gkeys (obs disks d))"
    using assms(1) c unfolding use_ok_def by blast
  then show "\<exists>d. gget vols vn = Some d \<and> cid \<in> set (gkeys (obs disks' d))"
    using assms(2) [OF att_vols] by auto
qed

text \<open>A signal takes one from the counter of each observer and is then over.\<close>

lemma dinv_signal:
  assumes inv: "dinv X vols conts disks wgs sg rm" and d: "d < length disks" "sg d > 0"
    and sg': "\<And>e. sg' e = (if e = d then sg d - 1 else sg e)"
  shows "\<exists>wgs'. wg_done_all (gvals (obs disks d)) wgs = Some wgs' \<and>
    dinv X vols conts (hupd d (\<lambda>dc. dc\<lparr>dc_ready := ok\<rparr>) disks) wgs' sg' rm"
proof -
  let ?disks = "hupd d (\<lambda>dc. dc\<lparr>dc_ready := ok\<rparr>) disks"
  let ?ws = "gvals (obs disks d)"
  have valid: "\<And>w. w \<in> set ?ws \<Longrightarrow> w < length wgs"
    and cover: "\<And>w. w < length wgs \<Longrightarrow> int (count_list ?ws w) \<le> wgs ! w"
    using inv d pend_member [of d disks sg, OF d] unfolding dinv_def obs_ok_def wg_ok_def
    by (blast, meson of_nat_le_iff order_trans)
  obtain wgs' where w': "wg_done_all ?ws wgs = Some wgs'" "length wgs' = length wgs"
    "\<And>w. w < length wgs \<Longrightarrow> wgs' ! w = wgs ! w - int (count_list ?ws w)"
    using wg_done_all_Some [OF valid cover] by blast
  have obs: "obs ?disks e = obs disks e" if "e < length disks" for e
    using that by simp
  have none: "sg' d > 0 \<Longrightarrow> obs disks d = []"
    using inv d sg' by (fastforce simp: dinv_def att_ok_def obs_ok_def)
  have pend: "pend ?disks sg' w + count_list ?ws w = pend disks sg w + (if sg' d > 0 then count_list ?ws w else 0)" for w
    using pend_change [of d disks sg' sg "\<lambda>dc. dc\<lparr>dc_ready := ok\<rparr>" w, OF d(1)] sg' d(2) by simp
  have "wg_ok ?disks wgs' sg'"
    unfolding wg_ok_def
  proof (intro allI impI)
    fix w assume "w < length wgs'"
    then have "int (pend disks sg w) \<le> wgs ! w" using inv w'(2) by (simp add: dinv_def wg_ok_def)
    moreover have "pend ?disks sg' w + count_list ?ws w = pend disks sg w"
      using pend [of w] none by (cases "sg' d > 0") auto
    ultimately show "int (pend ?disks sg' w) \<le> wgs' ! w"
      using w'(2,3) \<open>w < length wgs'\<close> by fastforce
  qed
  moreover have "att_ok vols conts ?disks sg' rm"
    using inv sg' d unfolding dinv_def att_ok_def by auto
  moreover have "obs_ok (set (att vols conts)) ?disks (length wgs')"
    using inv w'(2) unfolding dinv_def obs_ok_def by auto
  moreover have "use_ok X vols conts ?disks"
    by (rule use_ok_obs [of X vols conts disks]) (use inv obs in \<open>auto simp: dinv_def att_ok_def\<close>)
  ultimately show ?thesis using w'(1) by (auto simp: dinv_def)
qed

text \<open>The disk of a volume is the root of no container.\<close>

lemma att_disjoint:
  assumes "distinct (att vols conts)" "gget vols vn = Some d" "(cid, cc) \<in> set conts"
  shows "cc_root cc \<noteq> d"
proof -
  have "d \<in> set (gvals vols)" using map_of_SomeD [OF assms(2)] by force
  moreover have "cc_root cc \<in> set (map cc_root (gvals conts))" using assms(3) by force
  ultimately show ?thesis using assms(1) unfolding att_def distinct_append by blast
qed

lemma dinv_vol:
  assumes "dinv X vols conts disks wgs sg rm" "gget vols vn = Some d"
  shows "d < length disks" "sg d \<le> 1" "sg d > 0 \<Longrightarrow> \<not> dc_ready (disks ! d)" "rm d = 0"
  using assms(1) att_vols [OF assms(2), of conts] by (auto simp: dinv_def att_ok_def le_Suc_eq)

lemma gput_absent_vals: "gget m k = None \<Longrightarrow> gvals (gput k v m) = gvals m @ [v]"
  by (simp add: gput_absent)

lemma dinv_wait:
  assumes inv: "dinv X vols conts disks wgs sg rm" and vn: "gget vols vn = Some d"
    and new: "gget (obs disks d) cid = None" and w: "w < length wgs"
  shows "dinv X vols conts (hupd d (\<lambda>dc. dc\<lparr>dc_observers := gput cid w (dc_observers dc)\<rparr>) disks)
    (if dc_ready (disks ! d) then wgs else hupd w (\<lambda>c. c + 1) wgs) sg rm"
proof -
  let ?f = "\<lambda>dc. dc\<lparr>dc_observers := gput cid w (dc_observers dc)\<rparr>"
  let ?disks = "hupd d ?f disks" and ?wgs = "if dc_ready (disks ! d) then wgs else hupd w (\<lambda>c. c + 1) wgs"
  note d = dinv_vol [OF inv vn]
  have "att_ok vols conts ?disks sg rm"
    using inv d(1) unfolding dinv_def att_ok_def by auto
  moreover have "obs_ok (set (att vols conts)) ?disks (length ?wgs)"
    using inv d(1) new w att_vols [OF vn, of conts] unfolding dinv_def obs_ok_def
    by (auto simp: gput_absent)
  moreover have "wg_ok ?disks ?wgs sg"
    unfolding wg_ok_def
  proof (intro allI impI)
    fix v assume "v < length ?wgs"
    then have le: "int (pend disks sg v) \<le> wgs ! v" "v < length wgs"
      using inv by (auto simp: dinv_def wg_ok_def split: if_splits)
    have cnt: "count_list (gvals (dc_observers (?f (disks ! d)))) v =
        count_list (gvals (obs disks d)) v + (if w = v then 1 else 0)"
      using new by (simp add: gput_absent)
    have "pend ?disks sg v \<le> pend disks sg v + (if sg d > 0 \<and> w = v then 1 else 0)"
      using pend_change [of d disks sg sg ?f v, OF d(1)] unfolding cnt by (simp split: if_splits)
    then show "int (pend ?disks sg v) \<le> ?wgs ! v" using le d(3) w by (auto split: if_splits)
  qed
  moreover have "use_ok X vols conts ?disks"
    unfolding use_ok_def
  proof (intro allI impI)
    fix c cc assume c: "(c, cc) \<in> set conts"
    have "cc_root cc \<noteq> d" using inv att_disjoint [OF _ vn c] by (simp add: dinv_def att_ok_def)
    moreover have "cc_root cc < length disks"
      using inv att_conts [OF c] by (simp add: dinv_def att_ok_def)
    ultimately have root: "obs ?disks (cc_root cc) = obs disks (cc_root cc)" by simp
    have grow: "set (gkeys (obs disks e)) \<subseteq> set (gkeys (obs ?disks e))" if "gget vols vn' = Some e" for vn' e
      using dinv_vol(1) [OF inv that] by (cases "e = d") (simp_all add: gkeys_gput subset_insertI del: set_map)
    show "cd_Id (cc_desc cc) = c \<and> set (gkeys (obs ?disks (cc_root cc))) \<subseteq> {c} \<and>
        (c \<notin> X \<longrightarrow> (\<forall>vn \<in> set (gkeys (cd_Volumes (cc_desc cc))).
           \<exists>d. gget vols vn = Some d \<and> c \<in> set (gkeys (obs ?disks d))))"
      using inv c grow unfolding dinv_def use_ok_def root by blast
  qed
  ultimately show ?thesis by (simp add: dinv_def)
qed

lemma dinv_unwait:
  assumes inv: "dinv X vols conts disks wgs sg rm" and vn: "gget vols vn = Some d" and X: "cid \<in> X"
  shows "dinv X vols conts (hupd d (\<lambda>dc. dc\<lparr>dc_observers := gdel cid (dc_observers dc)\<rparr>) disks) wgs sg rm"
proof -
  let ?f = "\<lambda>dc. dc\<lparr>dc_observers := gdel cid (dc_observers dc)\<rparr>"
  let ?disks = "hupd d ?f disks"
  note d = dinv_vol [OF inv vn]
  have "att_ok vols conts ?disks sg rm"
    using inv d(1) unfolding dinv_def att_ok_def by auto
  moreover have "obs_ok (set (att vols conts)) ?disks (length wgs)"
    using inv att_vols [OF vn, of conts] unfolding dinv_def obs_ok_def
    by (auto dest!: subsetD [OF gdel_subset])
  moreover have "wg_ok ?disks wgs sg"
    unfolding wg_ok_def
  proof (intro allI impI)
    fix v assume "v < length wgs"
    then have "int (pend disks sg v) \<le> wgs ! v" using inv by (auto simp: dinv_def wg_ok_def)
    moreover have "pend ?disks sg v \<le> pend disks sg v"
      using pend_change [of d disks sg sg ?f v, OF d(1)] count_list_gdel [of cid "obs disks d" v]
      by (simp split: if_splits)
    ultimately show "int (pend ?disks sg v) \<le> wgs ! v" by linarith
  qed
  moreover have "use_ok X vols conts ?disks"
    unfolding use_ok_def
  proof (intro allI impI)
    fix c cc assume c: "(c, cc) \<in> set conts"
    have "cc_root cc \<noteq> d" using inv att_disjoint [OF _ vn c] by (simp add: dinv_def att_ok_def)
    moreover have "cc_root cc < length disks"
      using inv att_conts [OF c] by (simp add: dinv_def att_ok_def)
    ultimately have root: "obs ?disks (cc_root cc) = obs disks (cc_root cc)" by simp
    have keep: "c \<in> set (gkeys (obs ?disks e))"
      if "gget vols vn' = Some e" "c \<in> set (gkeys (obs disks e))" "c \<notin> X" for vn' e
      using dinv_vol(1) [OF inv that(1)] that X by (cases "e = d") (auto simp: gkeys_gdel simp del: set_map)
    show "cd_Id (cc_desc cc) = c \<and> set (gkeys (obs ?disks (cc_root cc))) \<subseteq> {c} \<and>
        (c \<notin> X \<longrightarrow> (\<forall>vn \<in> set (gkeys (cd_Volumes (cc_desc cc))).
           \<exists>d. gget vols vn = Some d \<and> c \<in> set (gkeys (obs ?disks d))))"
      using inv c keep unfolding dinv_def use_ok_def root by blast
  qed
  ultimately show ?thesis by (simp add: dinv_def)
qed

lemma count_list_0: "w \<notin> set ws \<Longrightarrow> count_list ws w = 0"
  by (simp add: count_list_0_iff)

lemma dinv_new_wg:
  assumes inv: "dinv X vols conts disks wgs sg rm"
  shows "dinv X vols conts disks (wgs @ [0]) sg rm"
proof -
  have "count_list (gvals (obs disks d)) (length wgs) = 0" if "d < length disks" for d
    using inv that by (intro count_list_0) (metis dinv_def less_irrefl obs_ok_def)
  then have "pend disks sg (length wgs) = 0" unfolding pend_def by (intro sum.neutral) simp
  then have "wg_ok disks (wgs @ [0]) sg"
    using inv unfolding dinv_def wg_ok_def by (auto simp: nth_append less_Suc_eq)
  moreover have "obs_ok (set (att vols conts)) disks (length (wgs @ [0]))"
    using inv unfolding dinv_def obs_ok_def by (auto simp: less_SucI)
  ultimately show ?thesis using inv by (simp add: dinv_def)
qed

text \<open>Signals of a detached disk concern nobody.\<close>

lemma dinv_detached:
  assumes inv: "dinv X vols conts disks wgs sg rm" and d: "d < length disks" "d \<notin> set (att vols conts)"
    and eq: "\<And>e. e \<noteq> d \<Longrightarrow> sg' e = sg e \<and> rm' e = rm e"
  shows "dinv X vols conts disks wgs sg' rm'"
proof -
  have none: "obs disks d = []" using inv d unfolding dinv_def obs_ok_def by blast
  have "(if sg' e > 0 then count_list (gvals (obs disks e)) w else 0) =
      (if sg e > 0 then count_list (gvals (obs disks e)) w else 0)" for e w
    using none eq [of e] by (cases "e = d") simp_all
  then have "pend disks sg' w = pend disks sg w" for w
    unfolding pend_def by (intro sum.cong) simp_all
  moreover have "att_ok vols conts disks sg' rm'"
    unfolding att_ok_def
  proof (intro conjI ballI allI impI)
    fix e assume "e \<in> set (att vols conts)"
    moreover from this d have "e \<noteq> d" by blast
    ultimately show "e < length disks" "rm' e = 0" "sg' e \<le> 1" "sg' e = 1 \<Longrightarrow> \<not> dc_ready (disks ! e)"
      using inv eq [of e] by (auto simp: dinv_def att_ok_def)
  next
    fix e assume "length disks \<le> e"
    moreover from this d have "e \<noteq> d" by simp
    ultimately show "sg' e = 0" "rm' e = 0" using inv eq [of e] by (auto simp: dinv_def att_ok_def)
  qed (use inv in \<open>auto simp: dinv_def att_ok_def\<close>)
  ultimately show ?thesis using inv by (simp add: dinv_def wg_ok_def)
qed

lemma pend_snoc: "pend (disks @ [dc]) sg w =
    pend disks sg w + (if sg (length disks) > 0 then count_list (gvals (dc_observers dc)) w else 0)"
proof -
  have "(\<Sum>d < length disks. if sg d > 0 then count_list (gvals (obs (disks @ [dc]) d)) w else 0) =
      (\<Sum>d < length disks. if sg d > 0 then count_list (gvals (obs disks d)) w else 0)"
    by (rule sum.cong) (simp_all add: nth_append)
  then show ?thesis unfolding pend_def by simp
qed

lemma pend_cong: "(\<And>d. d < length disks \<Longrightarrow> sg' d = sg d) \<Longrightarrow> pend disks sg' w = pend disks sg w"
  unfolding pend_def by (rule sum.cong) auto

lemma dinv_add_volume:
  assumes inv: "dinv X vols conts disks wgs sg rm" and new: "gget vols vn = None"
    and dc: "dc_observers dc = []" and n: "n = length disks"
    and sg': "\<And>e. e \<noteq> n \<Longrightarrow> sg' e = sg e" "sg' n \<le> 1" "sg' n = 1 \<Longrightarrow> \<not> dc_ready dc"
  shows "dinv X (gput vn n vols) conts (disks @ [dc]) wgs sg' rm"
proof -
  have att: "att (gput vn n vols) conts = gvals vols @ [n] @ map cc_root (gvals conts)"
    using new by (simp add: att_def gput_absent)
  have fresh: "n \<notin> set (att vols conts)"
    using inv n by (auto simp: dinv_def att_ok_def)
  have "att_ok (gput vn n vols) conts (disks @ [dc]) sg' rm"
    unfolding att_ok_def att
  proof (intro conjI ballI allI impI)
    show "distinct (gvals vols @ [n] @ map cc_root (gvals conts))"
      using inv fresh by (auto simp: dinv_def att_ok_def att_def)
  next
    fix e assume "e \<in> set (gvals vols @ [n] @ map cc_root (gvals conts))"
    then have "e = n \<or> e \<in> set (att vols conts) \<and> e \<noteq> n" using fresh by (auto simp: att_def)
    then show "e < length (disks @ [dc])" "rm e = 0" "sg' e \<le> 1" "sg' e = 1 \<Longrightarrow> \<not> dc_ready ((disks @ [dc]) ! e)"
      using inv sg' n by (auto simp: dinv_def att_ok_def nth_append less_SucI)
  next
    fix e assume "length (disks @ [dc]) \<le> e"
    then show "sg' e = 0" "rm e = 0" using inv sg'(1) [of e] n by (auto simp: dinv_def att_ok_def)
  qed (use inv in \<open>auto simp: dinv_def att_ok_def\<close>)
  moreover have "obs_ok (set (att (gput vn n vols) conts)) (disks @ [dc]) (length wgs)"
    using inv dc n unfolding dinv_def obs_ok_def att by (auto simp: nth_append less_Suc_eq att_def)
  moreover have "wg_ok (disks @ [dc]) wgs sg'"
    using inv dc n pend_cong [of disks sg' sg] sg'(1) unfolding dinv_def wg_ok_def
    by (simp add: pend_snoc)
  moreover have "use_ok X (gput vn n vols) conts (disks @ [dc])"
  proof -
    have "use_ok X vols conts (disks @ [dc])"
      by (rule use_ok_obs [of X vols conts disks])
        (use inv in \<open>auto simp: dinv_def att_ok_def nth_append\<close>)
    then show ?thesis using new unfolding use_ok_def by (metis fun_upd_apply gget_gput option.distinct(1))
  qed
  ultimately show ?thesis by (simp add: dinv_def)
qed

lemma dinv_remove_volume:
  assumes inv: "dinv {} vols conts disks wgs sg rm" and vn: "gget vols vn = Some d"
    and none: "obs disks d = []" and rm': "\<And>e. e \<noteq> d \<Longrightarrow> rm' e = rm e"
  shows "dinv {} (gdel vn vols) conts disks wgs sg rm'"
proof -
  note d = dinv_vol [OF inv vn]
  have wf: "gwf vols" "distinct (att vols conts)" using inv by (auto simp: dinv_def att_ok_def)
  obtain xs ys where split: "vols = xs @ (vn, d) # ys" "gdel vn vols = xs @ ys"
    using gdel_split [OF wf(1) vn] by blast
  have att: "set (att vols conts) = insert d (set (att (gdel vn vols) conts))"
    "d \<notin> set (att (gdel vn vols) conts)" "distinct (att (gdel vn vols) conts)"
    using wf(2) unfolding split(2) unfolding split(1) by (auto simp: att_def)
  have "att_ok (gdel vn vols) conts disks sg rm'"
    unfolding att_ok_def
  proof (intro conjI ballI allI impI)
    fix e assume e: "e \<in> set (att (gdel vn vols) conts)"
    with att have "e \<in> set (att vols conts)" "e \<noteq> d" by auto
    then show "e < length disks" "rm' e = 0" "sg e \<le> 1" "sg e = 1 \<Longrightarrow> \<not> dc_ready (disks ! e)"
      using inv rm' [of e] by (auto simp: dinv_def att_ok_def)
  next
    fix e assume "length disks \<le> e"
    moreover from this d(1) have "e \<noteq> d" by simp
    ultimately show "sg e = 0" "rm' e = 0" using inv rm' [of e] by (auto simp: dinv_def att_ok_def)
  qed (use inv att(3) gwf_gdel in \<open>auto simp: dinv_def att_ok_def simp del: map_map\<close>)
  moreover have "obs_ok (set (att (gdel vn vols) conts)) disks (length wgs)"
    using inv none unfolding dinv_def obs_ok_def att(1) by auto
  moreover have "use_ok {} (gdel vn vols) conts disks"
    unfolding use_ok_def
  proof (intro allI impI conjI ballI)
    fix c cc k assume c: "(c, cc) \<in> set conts" and k: "k \<in> set (gkeys (cd_Volumes (cc_desc cc)))"
    then obtain e where e: "gget vols k = Some e" "c \<in> set (gkeys (obs disks e))"
      using inv unfolding dinv_def use_ok_def by blast
    then have "k \<noteq> vn" using vn none by auto
    with e show "\<exists>e. gget (gdel vn vols) k = Some e \<and> c \<in> set (gkeys (obs disks e))" by auto
  qed (use inv in \<open>auto simp: dinv_def use_ok_def\<close>)
  ultimately show ?thesis using inv by (simp add: dinv_def)
qed

lemma wg_ok_snoc:
  assumes ok: "wg_ok disks wgs sg" and dc: "dc_observers dc = [(cid, w)]" and w: "w < length wgs"
    and sg': "\<And>e. e \<noteq> length disks \<Longrightarrow> sg' e = sg e" "sg' (length disks) = 1 \<Longrightarrow> \<not> dc_ready dc"
    and le: "sg' (length disks) \<le> 1"
  shows "wg_ok (disks @ [dc]) (if dc_ready dc then wgs else hupd w (\<lambda>c. c + 1) wgs) sg'"
  unfolding wg_ok_def
proof (intro allI impI)
  let ?wgs = "if dc_ready dc then wgs else hupd w (\<lambda>c. c + 1) wgs" and ?n = "length disks"
  fix v assume "v < length ?wgs"
  then have v: "v < length wgs" by (simp split: if_splits)
  have pend: "int (pend disks sg v) \<le> wgs ! v" using ok v by (simp add: wg_ok_def)
  have "pend disks sg' v = pend disks sg v" using sg'(1) by (intro pend_cong) simp
  then have eq: "pend (disks @ [dc]) sg' v = pend disks sg v + (if sg' ?n > 0 \<and> v = w then 1 else 0)"
    using dc by (simp add: pend_snoc)
  have wg: "?wgs ! v = wgs ! v + (if \<not> dc_ready dc \<and> v = w then 1 else 0)" using v w by simp
  show "int (pend (disks @ [dc]) sg' v) \<le> ?wgs ! v"
  proof (cases "sg' ?n > 0 \<and> v = w")
    case True
    with le sg'(2) have "\<not> dc_ready dc" by linarith
    with True eq wg pend show ?thesis by simp
  next
    case False
    with eq have "pend (disks @ [dc]) sg' v = pend disks sg v" by simp
    with wg pend show ?thesis by (simp split: if_splits)
  qed
qed

lemma att_ok_snoc:
  assumes ok: "att_ok vols conts disks sg rm" and new: "gget conts cid = None" and cc: "cc_root cc = length disks"
    and sg': "\<And>e. e \<noteq> length disks \<Longrightarrow> sg' e = sg e" "sg' (length disks) \<le> 1"
      "sg' (length disks) = 1 \<Longrightarrow> \<not> dc_ready dc"
  shows "att_ok vols (gput cid cc conts) (disks @ [dc]) sg' rm"
    "att vols (gput cid cc conts) = att vols conts @ [length disks]"
proof -
  let ?n = "length disks"
  show att: "att vols (gput cid cc conts) = att vols conts @ [?n]"
    using new by (simp add: att_def gput_absent cc)
  have old: "e < ?n \<and> rm e = 0 \<and> sg e \<le> 1 \<and> (sg e = 1 \<longrightarrow> \<not> dc_ready (disks ! e))"
    if "e \<in> set (att vols conts)" for e
    using ok that unfolding att_ok_def by blast
  have out: "sg e = 0 \<and> rm e = 0" if "?n \<le> e" for e using ok that unfolding att_ok_def by blast
  have wf: "gwf vols" "gwf conts" "distinct (att vols conts)" using ok unfolding att_ok_def by blast+
  have fresh: "?n \<notin> set (att vols conts)" using old by blast
  show "att_ok vols (gput cid cc conts) (disks @ [dc]) sg' rm"
    unfolding att_ok_def att
  proof (intro conjI ballI allI impI)
    fix e assume "e \<in> set (att vols conts @ [?n])"
    then consider (new) "e = ?n" | (att) "e \<in> set (att vols conts)" by auto
    then have "e < length (disks @ [dc]) \<and> rm e = 0 \<and> sg' e \<le> 1 \<and>
        (sg' e = 1 \<longrightarrow> \<not> dc_ready ((disks @ [dc]) ! e))"
    proof cases
      case new
      then show ?thesis using out [of ?n] sg'(2,3) by simp
    next
      case att
      with fresh have "e \<noteq> ?n" by blast
      then show ?thesis using old [OF att] sg'(1) [of e] by (simp add: nth_append)
    qed
    then show "e < length (disks @ [dc])" "rm e = 0" "sg' e \<le> 1" "sg' e = 1 \<Longrightarrow> \<not> dc_ready ((disks @ [dc]) ! e)"
      by blast+
  next
    fix e assume "length (disks @ [dc]) \<le> e"
    then show "sg' e = 0" "rm e = 0" using out [of e] sg'(1) [of e] by simp_all
  qed (use wf fresh in simp_all)
qed

lemma obs_ok_snoc:
  assumes "obs_ok A disks nwg" "dc_observers dc = [(cid, w)]" "w < nwg" "length disks \<in> B" "A \<subseteq> B"
  shows "obs_ok B (disks @ [dc]) nwg"
  unfolding obs_ok_def
proof (intro allI impI)
  fix e assume "e < length (disks @ [dc])"
  then consider "e < length disks" | "e = length disks" by fastforce
  then show "gwf (obs (disks @ [dc]) e) \<and> (\<forall>v \<in> set (gvals (obs (disks @ [dc]) e)). v < nwg) \<and>
      (e \<notin> B \<longrightarrow> obs (disks @ [dc]) e = [])"
  proof cases
    case 1
    then show ?thesis using assms(1,5) unfolding obs_ok_def by (auto simp: nth_append)
  qed (use assms in simp)
qed

lemma use_ok_snoc:
  assumes ok: "use_ok {} vols conts disks" and new: "gget conts cid = None"
    and valid: "\<And>d. d \<in> set (att vols conts) \<Longrightarrow> d < length disks"
    and dc: "dc_observers dc = [(cid, w)]" and cc: "cc_root cc = length disks" "cd_Id (cc_desc cc) = cid"
    and use: "\<And>vn. vn \<in> set (gkeys (cd_Volumes (cc_desc cc))) \<Longrightarrow>
        \<exists>d. gget vols vn = Some d \<and> cid \<in> set (gkeys (obs disks d))"
  shows "use_ok {} vols (gput cid cc conts) (disks @ [dc])"
proof -
  have same: "obs (disks @ [dc]) d = obs disks d" if "d \<in> set (att vols conts)" for d
    using valid [OF that] by (simp add: nth_append)
  have old: "use_ok {} vols conts (disks @ [dc])"
    by (rule use_ok_obs [OF ok same])
  have "\<exists>d. gget vols vn = Some d \<and> cid \<in> set (gkeys (obs (disks @ [dc]) d))"
    if vn: "vn \<in> set (gkeys (cd_Volumes (cc_desc cc)))" for vn
  proof -
    obtain d where d: "gget vols vn = Some d" "cid \<in> set (gkeys (obs disks d))" using use [OF vn] by blast
    have "obs (disks @ [dc]) d = obs disks d" by (rule same [OF att_vols [OF d(1)]])
    with d show ?thesis by metis
  qed
  moreover have "set (gkeys (obs (disks @ [dc]) (cc_root cc))) \<subseteq> {cid}" using cc(1) dc by simp
  moreover have "(c, x) \<in> set (gput cid cc conts) \<Longrightarrow> (c, x) \<in> set conts \<or> (c, x) = (cid, cc)" for c x
    using new by (auto simp: gput_absent)
  ultimately show ?thesis
    using old cc(2) unfolding use_ok_def by (metis prod.inject)
qed

lemma dinv_add_container:
  assumes inv: "dinv {} vols conts disks wgs sg rm" and new: "gget conts cid = None"
    and dc: "dc_observers dc = [(cid, w)]" and w: "w < length wgs"
    and sg': "\<And>e. e \<noteq> length disks \<Longrightarrow> sg' e = sg e" "sg' (length disks) \<le> 1"
      "sg' (length disks) = 1 \<Longrightarrow> \<not> dc_ready dc"
    and cc: "cc_root cc = length disks" "cd_Id (cc_desc cc) = cid"
    and use: "\<And>vn. vn \<in> set (gkeys (cd_Volumes (cc_desc cc))) \<Longrightarrow>
        \<exists>d. gget vols vn = Some d \<and> cid \<in> set (gkeys (obs disks d))"
  shows "dinv {} vols (gput cid cc conts) (disks @ [dc])
    (if dc_ready dc then wgs else hupd w (\<lambda>c. c + 1) wgs) sg' rm"
proof -
  let ?wgs = "if dc_ready dc then wgs else hupd w (\<lambda>c. c + 1) wgs"
  have ok: "att_ok vols conts disks sg rm" "obs_ok (set (att vols conts)) disks (length wgs)"
    "wg_ok disks wgs sg" "use_ok {} vols conts disks"
    using inv by (simp_all add: dinv_def)
  note att = att_ok_snoc [OF ok(1) new cc(1) sg']
  have "length ?wgs = length wgs" by simp
  moreover have "obs_ok (set (att vols (gput cid cc conts))) (disks @ [dc]) (length wgs)"
    by (rule obs_ok_snoc [OF ok(2) dc w]) (auto simp: att(2))
  moreover have "wg_ok (disks @ [dc]) ?wgs sg'"
    by (rule wg_ok_snoc [OF ok(3) dc w sg'(1,3,2)])
  moreover have "use_ok {} vols (gput cid cc conts) (disks @ [dc])"
    by (rule use_ok_snoc [OF ok(4) new _ dc cc use]) (use ok(1) in \<open>simp add: att_ok_def\<close>)
  ultimately show ?thesis using att(1) unfolding dinv_def by metis
qed

lemma dinv_remove_container:
  assumes inv: "dinv {cid} vols conts disks wgs sg rm" and cid: "gget conts cid = Some cc"
    and rm': "\<And>e. e \<noteq> cc_root cc \<Longrightarrow> rm' e = rm e"
  shows "dinv {} vols (gdel cid conts)
    (hupd (cc_root cc) (\<lambda>dc. dc\<lparr>dc_observers := gdel cid (dc_observers dc)\<rparr>) disks) wgs sg rm'"
proof -
  let ?d = "cc_root cc" and ?f = "\<lambda>dc. dc\<lparr>dc_observers := gdel cid (dc_observers dc)\<rparr>"
  let ?disks = "hupd ?d ?f disks"
  have wf: "gwf conts" "distinct (att vols conts)" using inv by (auto simp: dinv_def att_ok_def)
  obtain xs ys where split: "conts = xs @ (cid, cc) # ys" "gdel cid conts = xs @ ys"
    using gdel_split [OF wf(1) cid] by blast
  have att: "set (att vols conts) = insert ?d (set (att vols (gdel cid conts)))"
    "?d \<notin> set (att vols (gdel cid conts))" "distinct (att vols (gdel cid conts))"
    using wf(2) unfolding split(2) unfolding split(1) by (auto simp: att_def)
  have d: "?d < length disks" using inv att(1) by (auto simp: dinv_def att_ok_def)
  have "set (gkeys (obs disks ?d)) \<subseteq> {cid}"
    using inv split(1) unfolding dinv_def use_ok_def by auto
  then have "set (gkeys (gdel cid (obs disks ?d))) = {}" unfolding gkeys_gdel by blast
  then have none: "obs ?disks ?d = []" using d by simp
  have same: "obs ?disks e = obs disks e" if "e \<noteq> ?d" "e < length disks" for e using that by simp
  have "att_ok vols (gdel cid conts) ?disks sg rm'"
    unfolding att_ok_def
  proof (intro conjI ballI allI impI)
    fix e assume e: "e \<in> set (att vols (gdel cid conts))"
    with att have "e \<in> set (att vols conts)" "e \<noteq> ?d" by auto
    then show "e < length ?disks" "rm' e = 0" "sg e \<le> 1" "sg e = 1 \<Longrightarrow> \<not> dc_ready (?disks ! e)"
      using inv rm' [of e] by (auto simp: dinv_def att_ok_def)
  next
    fix e assume "length ?disks \<le> e"
    moreover from this d have "e \<noteq> ?d" by auto
    ultimately show "sg e = 0" "rm' e = 0" using inv rm' [of e] by (auto simp: dinv_def att_ok_def)
  qed (use inv att(3) gwf_gdel in \<open>auto simp: dinv_def att_ok_def simp del: map_map\<close>)
  moreover have "obs_ok (set (att vols (gdel cid conts))) ?disks (length wgs)"
    unfolding obs_ok_def
  proof (intro allI impI)
    fix e assume "e < length ?disks"
    then show "gwf (obs ?disks e) \<and> (\<forall>w \<in> set (gvals (obs ?disks e)). w < length wgs) \<and>
        (e \<notin> set (att vols (gdel cid conts)) \<longrightarrow> obs ?disks e = [])"
      using inv none same [of e] unfolding dinv_def obs_ok_def att(1) by (cases "e = ?d") auto
  qed
  moreover have "wg_ok ?disks wgs sg"
    unfolding wg_ok_def
  proof (intro allI impI)
    fix v assume "v < length wgs"
    then have "int (pend disks sg v) \<le> wgs ! v" using inv by (auto simp: dinv_def wg_ok_def)
    moreover have "pend ?disks sg v \<le> pend disks sg v"
      using pend_change [of ?d disks sg sg ?f v, OF d] count_list_gdel [of cid "obs disks ?d" v]
      by (simp split: if_splits)
    ultimately show "int (pend ?disks sg v) \<le> wgs ! v" by linarith
  qed
  moreover have "use_ok {} vols (gdel cid conts) ?disks"
  proof -
    have "use_ok {} vols (gdel cid conts) disks"
      using inv unfolding dinv_def use_ok_def in_gdel by blast
    then show ?thesis
      by (rule use_ok_obs) (use att inv same in \<open>auto simp: dinv_def att_ok_def\<close>)
  qed
  ultimately show ?thesis by (simp add: dinv_def)
qed

section \<open>The invariant of a sandbox\<close>

definition sigs :: "VmContext \<Rightarrow> dref \<Rightarrow> nat" where
  "sigs ctx d = acount (is_sig d) (sb_go ctx)"

definition rems :: "VmContext \<Rightarrow> dref \<Rightarrow> nat" where
  "rems ctx d = acount (is_rem d) (sb_go ctx)"

definition disk_inv :: "string set \<Rightarrow> VmContext \<Rightarrow> bool" where
  "disk_inv X ctx \<longleftrightarrow>
     dinv X (sb_volumes ctx) (sb_containers ctx) (h_disks ctx) (h_wgs ctx) (sigs ctx) (rems ctx)"

text \<open>What the invariant looks at, apart from the goroutines.\<close>

definition dview :: "VmContext \<Rightarrow> volmap \<times> contmap \<times> DiskContext list \<times> int list" where
  "dview ctx = (sb_volumes ctx, sb_containers ctx, h_disks ctx, h_wgs ctx)"

definition no_disk :: "action list \<Rightarrow> bool" where
  "no_disk as \<longleftrightarrow> (\<forall>a \<in> set as. \<forall>d. \<not> is_sig d a \<and> \<not> is_rem d a)"

lemma disk_inv_frame:
  assumes "disk_inv X ctx" "dview ctx' = dview ctx" "sigs ctx' = sigs ctx" "rems ctx' = rems ctx"
  shows "disk_inv X ctx'"
  using assms by (simp add: disk_inv_def dview_def)

lemma sigs_go: "sb_go ctx' = sb_go ctx \<Longrightarrow> sigs ctx' = sigs ctx"
  and rems_go: "sb_go ctx' = sb_go ctx \<Longrightarrow> rems ctx' = rems ctx"
  by (simp_all add: sigs_def rems_def fun_eq_iff)

lemma spawn_counts [simp]:
  "sigs (spawn as ctx) d = sigs ctx d + length (filter (is_sig d) as)"
  "rems (spawn as ctx) d = rems ctx d + length (filter (is_rem d) as)"
  by (simp_all add: sigs_def rems_def spawn_def)

subsection \<open>What the helpers leave alone\<close>

lemma send_result_frame [frame]:
  "dview (send_result ch r ctx) = dview ctx" "sb_go (send_result ch r ctx) = sb_go ctx"
  "sb_scsiId (send_result ch r ctx) = sb_scsiId ctx" "sb_calls (send_result ch r ctx) = sb_calls ctx"
  by (simp_all add: send_result_def dview_def split: option.split)

lemma log_call_frame [frame]:
  "dview (log_call c ctx) = dview ctx" "sb_go (log_call c ctx) = sb_go ctx"
  "sb_scsiId (log_call c ctx) = sb_scsiId ctx"
  by (simp_all add: log_call_def dview_def)

lemma spawn_frame [frame]:
  "dview (spawn as ctx) = dview ctx" "sb_go (spawn as ctx) = sb_go ctx @ [as]"
  "sb_scsiId (spawn as ctx) = sb_scsiId ctx" "sb_calls (spawn as ctx) = sb_calls ctx"
  by (simp_all add: spawn_def dview_def)

lemma dview_fields:
  "dview ctx' = dview ctx \<longleftrightarrow> sb_volumes ctx' = sb_volumes ctx \<and> sb_containers ctx' = sb_containers ctx \<and>
     h_disks ctx' = h_disks ctx \<and> h_wgs ctx' = h_wgs ctx"
  by (auto simp: dview_def)

lemma disk_inv_send_result [simp]: "disk_inv X (send_result ch r ctx) = disk_inv X ctx"
  using send_result_frame [of ch r ctx] sigs_go rems_go
  by (metis disk_inv_frame)

lemma disk_inv_log_call [simp]: "disk_inv X (log_call c ctx) = disk_inv X ctx"
  using log_call_frame [of c ctx] sigs_go rems_go
  by (metis disk_inv_frame)

lemma disk_inv_spawn:
  assumes "no_disk as"
  shows "disk_inv X (spawn as ctx) = disk_inv X ctx"
proof -
  have "filter (is_sig d) as = []" "filter (is_rem d) as = []" for d
    using assms by (auto simp: no_disk_def filter_empty_conv)
  then have "sigs (spawn as ctx) = sigs ctx" "rems (spawn as ctx) = rems ctx"
    by (simp_all add: fun_eq_iff)
  then show ?thesis using spawn_frame(1) [of as ctx] by (metis disk_inv_frame)
qed

lemma disk_inv_not_ready [simp]: "disk_inv X (not_ready r ch ctx) = disk_inv X ctx"
  by (simp add: not_ready_def)

subsection \<open>Volumes\<close>

lemma NewDiskContext_obs: "NewDiskContext vol = Some dc \<Longrightarrow> dc_observers dc = []"
  by (auto simp: NewDiskContext_def Let_def split: if_splits)

lemma NewDiskContext_ready: "NewDiskContext vol = Some dc \<Longrightarrow> dc_ready dc \<longleftrightarrow> IsDir vol \<or> IsNas vol"
  by (auto simp: NewDiskContext_def Let_def split: if_splits)

lemma disk_insert_cases:
  "disk_insert d ch ctx =
     (if dc_ready (disk ctx d)
      then send_result ch (NewResultBase (dd_Name (dc_desc (disk ctx d))) True ''already inserted'') ctx
      else spawn [InsertDisk d ch]
        (ctx\<lparr>sb_scsiId := sb_scsiId ctx + 1,
             h_disks := hupd d (\<lambda>dc. dc\<lparr>dc_desc := dc_desc dc\<lparr>dd_ScsiId := sb_scsiId ctx\<rparr>\<rparr>) (h_disks ctx)\<rparr>))"
  by (simp add: disk_insert_def nextScsiId_def upd_disk_def)

text \<open>A fresh disk that is put into the heap and inserted.\<close>

lemma insert_new_disk:
  assumes "new_disk dc ctx = (ctx1, d)" "ctx2 = disk_insert d ch ctx1"
  shows "d = length (h_disks ctx) \<and> sb_volumes ctx2 = sb_volumes ctx \<and> sb_containers ctx2 = sb_containers ctx \<and>
    h_wgs ctx2 = h_wgs ctx \<and> rems ctx2 = rems ctx \<and>
    sigs ctx2 = (sigs ctx)(d := sigs ctx d + (if dc_ready dc then 0 else 1)) \<and>
    (\<exists>dc'. h_disks ctx2 = h_disks ctx @ [dc'] \<and> dc_observers dc' = dc_observers dc \<and> dc_ready dc' = dc_ready dc)"
proof -
  have d: "d = length (h_disks ctx)" "ctx1 = ctx\<lparr>h_disks := h_disks ctx @ [dc]\<rparr>"
    using assms(1) by (simp_all add: new_disk_def)
  show ?thesis
  proof (cases "dc_ready dc")
    case True
    then have "ctx2 = send_result ch (NewResultBase (dd_Name (dc_desc dc)) True ''already inserted'') ctx1"
      using assms(2) d by (simp add: disk_insert_cases disk_def)
    then show ?thesis
      using d True by (simp add: send_result_def sigs_def rems_def fun_eq_iff split: option.split)
  next
    case False
    then show ?thesis
      using assms(2) d by (simp add: disk_insert_cases disk_def sigs_def rems_def fun_eq_iff spawn_def)
  qed
qed

lemma add_dir_disk:
  assumes "new_disk dc ctx = (ctx1, d)" "ctx2 = send_result ch r ctx1"
  shows "sb_volumes ctx2 = sb_volumes ctx \<and> sb_containers ctx2 = sb_containers ctx \<and>
    h_wgs ctx2 = h_wgs ctx \<and> rems ctx2 = rems ctx \<and> sigs ctx2 = sigs ctx \<and> h_disks ctx2 = h_disks ctx @ [dc]"
  using assms by (auto simp: new_disk_def send_result_def sigs_def rems_def fun_eq_iff split: option.splits)

lemma AddVolume_inv:
  assumes inv: "disk_inv {} ctx0" and add: "AddVolume vol ch ctx0 = Some ctx'"
  shows "disk_inv {} ctx'"
proof -
  define ctx where "ctx = not_ready (CommonErrorResult (NewNotReadyError (sb_Id ctx0))) ch ctx0"
  have ctx: "disk_inv {} ctx" using inv by (simp add: ctx_def)
  show ?thesis
  proof (cases "gget (sb_volumes ctx) (vd_Name vol)")
    case (Some d)
    then show ?thesis using add ctx by (simp add: AddVolume_def Let_def ctx_def [symmetric]) auto
  next
    case None
    then obtain dc where dc: "NewDiskContext vol = Some dc"
      using add by (auto simp: AddVolume_def Let_def ctx_def [symmetric] split: option.splits)
    let ?n = "length (h_disks ctx)"
    obtain ctx1 where new: "new_disk dc ctx = (ctx1, ?n)" by (simp add: new_disk_def)
    define ctx2 where "ctx2 = (if IsDir vol \<or> IsNas vol
        then send_result ch (NewResultBase (vd_Name vol) True []) ctx1 else disk_insert ?n ch ctx1)"
    have ctx': "ctx' = ctx2\<lparr>sb_volumes := gput (vd_Name vol) ?n (sb_volumes ctx2)\<rparr>"
      using add None dc new by (simp add: AddVolume_def Let_def ctx_def [symmetric] ctx2_def)
    have sg0: "sigs ctx ?n = 0" using ctx by (simp add: disk_inv_def dinv_def att_ok_def)
    have ctx2: "sb_volumes ctx2 = sb_volumes ctx \<and> sb_containers ctx2 = sb_containers ctx \<and> h_wgs ctx2 = h_wgs ctx \<and>
      rems ctx2 = rems ctx \<and> sigs ctx2 = (sigs ctx)(?n := (if dc_ready dc then 0 else 1)) \<and>
      (\<exists>dc'. h_disks ctx2 = h_disks ctx @ [dc'] \<and> dc_observers dc' = [] \<and> dc_ready dc' = dc_ready dc)"
    proof (cases "IsDir vol \<or> IsNas vol")
      case True
      then have "ctx2 = send_result ch (NewResultBase (vd_Name vol) True []) ctx1" by (simp add: ctx2_def)
      from add_dir_disk [OF new this] show ?thesis
        using True NewDiskContext_obs [OF dc] NewDiskContext_ready [OF dc] sg0 by (simp add: fun_upd_idem)
    next
      case False
      then have "ctx2 = disk_insert ?n ch ctx1" by (simp add: ctx2_def)
      from insert_new_disk [OF new this] show ?thesis
        using False NewDiskContext_obs [OF dc] NewDiskContext_ready [OF dc] sg0 by simp
    qed
    then obtain dc' where dc': "h_disks ctx2 = h_disks ctx @ [dc']" "dc_observers dc' = []" "dc_ready dc' = dc_ready dc"
      by blast
    have sg': "sigs ctx' = sigs ctx2" "rems ctx' = rems ctx"
      using ctx' ctx2 sigs_go [of ctx' ctx2] rems_go [of ctx' ctx2] by simp_all
    have fields: "sb_volumes ctx' = gput (vd_Name vol) ?n (sb_volumes ctx)" "sb_containers ctx' = sb_containers ctx"
      "h_disks ctx' = h_disks ctx @ [dc']" "h_wgs ctx' = h_wgs ctx"
      using ctx2 dc'(1) by (simp_all add: ctx')
    have eq: "sigs ctx2 e = sigs ctx e" if "e \<noteq> ?n" for e
      using ctx2 that by simp
    have "sigs ctx2 ?n = (if dc_ready dc' then 0 else 1)" using ctx2 dc'(3) by simp
    then have le: "sigs ctx2 ?n \<le> 1" "sigs ctx2 ?n = 1 \<Longrightarrow> \<not> dc_ready dc'"
      by (cases "dc_ready dc'"; simp)+
    show ?thesis
      unfolding disk_inv_def fields sg'
      by (rule dinv_add_volume [OF ctx [unfolded disk_inv_def] None dc'(2) refl eq le])
  qed
qed

lemma disk_remove_frame [frame]: "dview (disk_remove d ch ctx) = dview ctx"
  by (simp add: disk_remove_def Let_def frame)

lemma disk_remove_counts:
  "sigs (disk_remove d ch ctx) = sigs ctx" "e \<noteq> d \<Longrightarrow> rems (disk_remove d ch ctx) e = rems ctx e"
  by (auto simp: disk_remove_def Let_def fun_eq_iff sigs_def rems_def spawn_def send_result_def split: option.splits)

lemma RemoveVolume_inv:
  assumes inv: "disk_inv {} ctx0"
  shows "disk_inv {} (RemoveVolume name ch ctx0)"
proof -
  define ctx where "ctx = not_ready (NewResultBase name True ''pod not running'') ch ctx0"
  have ctx: "disk_inv {} ctx" using inv by (simp add: ctx_def)
  show ?thesis
  proof (cases "gget (sb_volumes ctx) name")
    case (Some d)
    show ?thesis
    proof (cases "disk_containers d ctx > 0")
      case False
      let ?ctx1 = "ctx\<lparr>sb_volumes := gdel name (sb_volumes ctx)\<rparr>"
      let ?ctx2 = "disk_remove d ch ?ctx1"
      have none: "obs (h_disks ctx) d = []" using False by (simp add: disk_containers_def disk_def)
      have view: "dview ?ctx2 = dview ?ctx1" by (rule disk_remove_frame)
      have sg: "sigs ?ctx2 = sigs ctx" using disk_remove_counts(1) [of d ch ?ctx1] sigs_go [of ?ctx1 ctx] by simp
      have rm: "rems ?ctx2 e = rems ctx e" if "e \<noteq> d" for e
        using disk_remove_counts(2) [OF that, of ch ?ctx1] rems_go [of ?ctx1 ctx] by simp
      have "dinv {} (gdel name (sb_volumes ctx)) (sb_containers ctx) (h_disks ctx) (h_wgs ctx) (sigs ctx) (rems ?ctx2)"
        by (rule dinv_remove_volume [OF ctx [unfolded disk_inv_def] Some none rm])
      then have "disk_inv {} ?ctx2" using view sg by (simp add: disk_inv_def dview_fields)
      then show ?thesis using Some False by (simp add: RemoveVolume_def Let_def ctx_def [symmetric])
    qed (use Some ctx in \<open>simp add: RemoveVolume_def Let_def ctx_def [symmetric]\<close>)
  qed (use ctx in \<open>simp add: RemoveVolume_def Let_def ctx_def [symmetric]\<close>)
qed

end
