(* ===== verification/DiskSteps.thy ===== *)
theory DiskSteps
  imports DiskInv
begin

text \<open>
  Every step of the sandbox keeps the invariant of its disks: containers are added and removed,
  the goroutines perform their actions, and everything else leaves the disks alone. The results
  are that the wait groups never go below zero and that a volume in use stays.
\<close>

section \<open>Adding a container\<close>

lemma disk_wait_props:
  assumes inv: "disk_inv {} ctx" and vn: "gget (sb_volumes ctx) vn = Some d" and w: "w < length (h_wgs ctx)"
    and ctx': "ctx' = disk_wait d cid w ctx"
  shows "disk_inv {} ctx' \<and> sb_volumes ctx' = sb_volumes ctx \<and> sb_containers ctx' = sb_containers ctx \<and>
    sb_go ctx' = sb_go ctx \<and> length (h_wgs ctx') = length (h_wgs ctx) \<and> length (h_disks ctx') = length (h_disks ctx) \<and>
    cid \<in> set (gkeys (obs (h_disks ctx') d)) \<and>
    (\<forall>e < length (h_disks ctx). set (gkeys (obs (h_disks ctx) e)) \<subseteq> set (gkeys (obs (h_disks ctx') e)))"
proof (cases "gget (obs (h_disks ctx) d) cid")
  case (Some v)
  then have "ctx' = ctx" using ctx' by (simp add: disk_wait_def disk_def)
  moreover have "cid \<in> set (gkeys (obs (h_disks ctx) d))" using Some by (rule gget_in_keys)
  ultimately show ?thesis using inv by simp
next
  case None
  let ?f = "\<lambda>dc. dc\<lparr>dc_observers := gput cid w (dc_observers dc)\<rparr>"
  have d: "d < length (h_disks ctx)" using inv vn by (auto simp: disk_inv_def dest: dinv_vol(1))
  have fields: "sb_volumes ctx' = sb_volumes ctx" "sb_containers ctx' = sb_containers ctx" "sb_go ctx' = sb_go ctx"
    "h_disks ctx' = hupd d ?f (h_disks ctx)"
    "h_wgs ctx' = (if dc_ready (h_disks ctx ! d) then h_wgs ctx else hupd w (\<lambda>c. c + 1) (h_wgs ctx))"
    using None ctx' by (simp_all add: disk_wait_def disk_def upd_disk_def wg_add_def Let_def)
  have "disk_inv {} ctx'"
    unfolding disk_inv_def fields sigs_go [OF fields(3)] rems_go [OF fields(3)]
    by (rule dinv_wait [OF inv [unfolded disk_inv_def] vn None w])
  moreover have "set (gkeys (obs (h_disks ctx) e)) \<subseteq> set (gkeys (obs (h_disks ctx') e))" if "e < length (h_disks ctx)" for e
    using that by (cases "e = d") (simp_all add: fields(4) gkeys_gput subset_insertI del: set_map)
  moreover have "cid \<in> set (gkeys (obs (h_disks ctx') d))"
    using d by (simp add: fields(4) gkeys_gput del: set_map)
  ultimately show ?thesis using fields by simp
qed

lemma wait_volumes_props:
  assumes "disk_inv {} ctx" "\<forall>vn \<in> set vns. gget (sb_volumes ctx) vn \<noteq> None" "w < length (h_wgs ctx)"
    "wait_volumes added vns cid w ctx = (ctx', e)"
  shows "e = None \<and> disk_inv {} ctx' \<and> sb_volumes ctx' = sb_volumes ctx \<and> sb_containers ctx' = sb_containers ctx \<and>
    sb_go ctx' = sb_go ctx \<and> length (h_wgs ctx') = length (h_wgs ctx) \<and> length (h_disks ctx') = length (h_disks ctx) \<and>
    (\<forall>vn \<in> set vns. \<exists>d. gget (sb_volumes ctx) vn = Some d \<and> cid \<in> set (gkeys (obs (h_disks ctx') d))) \<and>
    (\<forall>e < length (h_disks ctx). set (gkeys (obs (h_disks ctx) e)) \<subseteq> set (gkeys (obs (h_disks ctx') e)))"
  using assms
proof (induction vns arbitrary: added ctx)
  case (Cons vn vns)
  from Cons.prems(2) obtain d where d: "gget (sb_volumes ctx) vn = Some d" by auto
  let ?ctx1 = "disk_wait d cid w ctx"
  note one = disk_wait_props [OF Cons.prems(1) d Cons.prems(3) refl, of cid]
  have rest: "wait_volumes (added @ [vn]) vns cid w ?ctx1 = (ctx', e)"
    using Cons.prems(4) d by simp
  have "\<forall>vn \<in> set vns. gget (sb_volumes ?ctx1) vn \<noteq> None" "w < length (h_wgs ?ctx1)"
    using one Cons.prems(2,3) by auto
  note IH = Cons.IH [OF conjunct1 [OF one] this rest]
  have dl: "d < length (h_disks ctx)"
    using Cons.prems(1) d by (auto simp: disk_inv_def dest: dinv_vol(1))
  have len: "length (h_disks ?ctx1) = length (h_disks ctx)" and vols: "sb_volumes ?ctx1 = sb_volumes ctx"
    using one by blast+
  have mono1: "set (gkeys (obs (h_disks ctx) e)) \<subseteq> set (gkeys (obs (h_disks ?ctx1) e))"
    and mono2: "set (gkeys (obs (h_disks ?ctx1) e)) \<subseteq> set (gkeys (obs (h_disks ctx') e))"
    if "e < length (h_disks ctx)" for e
    using one IH that unfolding len by blast+
  have first: "cid \<in> set (gkeys (obs (h_disks ctx') d))" using one mono2 [OF dl] by blast
  show ?case
  proof (intro conjI ballI allI impI)
    fix v assume "v \<in> set (vn # vns)"
    then consider "v = vn" | "v \<in> set vns" by auto
    then show "\<exists>d. gget (sb_volumes ctx) v = Some d \<and> cid \<in> set (gkeys (obs (h_disks ctx') d))"
      using first d IH unfolding vols by cases blast+
  next
    fix e assume "e < length (h_disks ctx)"
    then show "set (gkeys (obs (h_disks ctx) e)) \<subseteq> set (gkeys (obs (h_disks ctx') e))"
      using mono1 mono2 by blast
  qed (use one IH in simp_all)
qed auto

lemma validate_volumes_None: "validate_volumes vols vs = None \<Longrightarrow> \<forall>vn \<in> set (gkeys vs). gget vols vn \<noteq> None"
  by (induction vols vs rule: validate_volumes.induct) (auto split: if_splits option.splits)

lemma new_wg_inv:
  assumes "disk_inv X ctx" "new_wg ctx = (ctx1, w)"
  shows "disk_inv X ctx1" "w < length (h_wgs ctx1)" "sb_volumes ctx1 = sb_volumes ctx"
    "sb_containers ctx1 = sb_containers ctx" "h_disks ctx1 = h_disks ctx" "sb_go ctx1 = sb_go ctx"
proof -
  have ctx1: "ctx1 = ctx\<lparr>h_wgs := h_wgs ctx @ [0]\<rparr>" "w = length (h_wgs ctx)"
    using assms(2) by (simp_all add: new_wg_def)
  then show "w < length (h_wgs ctx1)" "sb_volumes ctx1 = sb_volumes ctx"
    "sb_containers ctx1 = sb_containers ctx" "h_disks ctx1 = h_disks ctx" and go: "sb_go ctx1 = sb_go ctx" by simp_all
  show "disk_inv X ctx1"
    using dinv_new_wg [OF assms(1) [unfolded disk_inv_def]] sigs_go [OF go] rems_go [OF go]
    by (simp add: disk_inv_def ctx1)
qed

lemma add_root:
  assumes inv: "disk_inv {} ctx" and new: "gget (sb_containers ctx) (cd_Id c) = None" and w: "w < length (h_wgs ctx)"
    and use: "\<And>vn. vn \<in> set (gkeys (cd_Volumes c)) \<Longrightarrow>
        \<exists>d. gget (sb_volumes ctx) vn = Some d \<and> cd_Id c \<in> set (gkeys (obs (h_disks ctx) d))"
    and dc: "dc_observers dc = []" and nd: "new_disk dc ctx = (ctx1, root)"
    and ctx2: "ctx2 = disk_insert root None ctx1" and ctx3: "ctx3 = disk_wait root (cd_Id c) w ctx2"
  shows "disk_inv {} (ctx3\<lparr>sb_containers := gput (cd_Id c) \<lparr>cc_desc = c, cc_root = root\<rparr> (sb_containers ctx3)\<rparr>)"
proof -
  let ?n = "length (h_disks ctx)" and ?f = "\<lambda>dc. dc\<lparr>dc_observers := gput (cd_Id c) w (dc_observers dc)\<rparr>"
  note ins = insert_new_disk [OF nd ctx2]
  then have root: "root = ?n" by simp
  from ins obtain dc' where dc': "h_disks ctx2 = h_disks ctx @ [dc']" "dc_observers dc' = []" "dc_ready dc' = dc_ready dc"
    using dc by auto
  have f: "sb_volumes ctx3 = sb_volumes ctx" "sb_containers ctx3 = sb_containers ctx" "sb_go ctx3 = sb_go ctx2"
    "h_disks ctx3 = h_disks ctx @ [?f dc']"
    "h_wgs ctx3 = (if dc_ready (?f dc') then h_wgs ctx else hupd w (\<lambda>c. c + 1) (h_wgs ctx))"
    using ins dc' ctx3 root
    by (simp_all add: disk_wait_def disk_def upd_disk_def wg_add_def nth_append Let_def)
  let ?ctx4 = "ctx3\<lparr>sb_containers := gput (cd_Id c) \<lparr>cc_desc = c, cc_root = root\<rparr> (sb_containers ctx3)\<rparr>"
  have go: "sb_go ?ctx4 = sb_go ctx2" using f(3) by simp
  have sg0: "sigs ctx ?n = 0" using inv by (simp add: disk_inv_def dinv_def att_ok_def)
  have sg: "sigs ctx2 e = sigs ctx e" if "e \<noteq> ?n" for e using ins root that by simp
  have "sigs ctx2 ?n = (if dc_ready dc' then 0 else 1)" using ins root sg0 dc'(3) by simp
  then have le: "sigs ctx2 ?n \<le> 1" "sigs ctx2 ?n = 1 \<Longrightarrow> \<not> dc_ready (?f dc')"
    by (cases "dc_ready dc'"; simp)+
  have obs: "dc_observers (?f dc') = [(cd_Id c, w)]" using dc'(2) by simp
  have "dinv {} (sb_volumes ctx) (gput (cd_Id c) \<lparr>cc_desc = c, cc_root = root\<rparr> (sb_containers ctx))
      (h_disks ctx @ [?f dc']) (if dc_ready (?f dc') then h_wgs ctx else hupd w (\<lambda>c. c + 1) (h_wgs ctx))
      (sigs ctx2) (rems ctx)"
    by (rule dinv_add_container [OF inv [unfolded disk_inv_def] new obs w sg le])
      (use root use in simp_all)
  moreover have "rems ctx2 = rems ctx" using ins by simp
  ultimately show ?thesis
    unfolding disk_inv_def sigs_go [OF go] rems_go [OF go] by (simp add: f)
qed

lemma AddContainer_inv:
  assumes inv: "disk_inv {} ctx0" and add: "AddContainer c ch ctx0 = Some ctx'"
  shows "disk_inv {} ctx'"
proof -
  define ctx where "ctx = not_ready (CommonErrorResult (NewNotReadyError (sb_Id ctx0))) ch ctx0"
  have ctx: "disk_inv {} ctx" using inv by (simp add: ctx_def)
  note def = AddContainer_def [of c ch ctx0, folded ctx_def, unfolded Let_def]
  show ?thesis
  proof (cases "gget (sb_containers ctx) (cd_Id c) \<noteq> None \<or> validateContainer ctx c \<noteq> None")
    case True
    then have "\<exists>e. ctx' = send_result ch (CommonErrorResult (NewSpecError (cd_Id c) e)) ctx"
      using add unfolding def by (auto split: if_splits)
    then show ?thesis using ctx by auto
  next
    case False
    then have new: "gget (sb_containers ctx) (cd_Id c) = None" and valid: "validateContainer ctx c = None" by auto
    obtain ctx1 w where wg: "new_wg ctx = (ctx1, w)" by fastforce
    note ctx1 = new_wg_inv [OF ctx wg]
    obtain ctx2 e where wv: "wait_volumes [] (gkeys (cd_Volumes c)) (cd_Id c) w ctx1 = (ctx2, e)" by fastforce
    have "\<forall>vn \<in> set (gkeys (cd_Volumes c)). gget (sb_volumes ctx1) vn \<noteq> None"
      using validate_volumes_None [OF valid [unfolded validateContainer_def]] ctx1(3) by simp
    note ctx2 = wait_volumes_props [OF ctx1(1) this ctx1(2) wv]
    obtain dc where dc: "NewDiskContext (cd_RootVolume c) = Some dc"
      using add new valid wg wv ctx2 unfolding def by (auto split: option.splits)
    obtain ctx3 root where nd: "new_disk (dc\<lparr>dc_isRootVol := True\<rparr>) ctx2 = (ctx3, root)" by fastforce
    let ?ctx5 = "disk_wait root (cd_Id c) w (disk_insert root None ctx3)"
    let ?cc = "\<lparr>cc_desc = c, cc_root = root\<rparr>"
    have ctx': "ctx' = spawn [AddReady ?cc w ch] (?ctx5\<lparr>sb_containers := gput (cd_Id c) ?cc (sb_containers ?ctx5)\<rparr>)"
      using add new valid wg wv ctx2 dc nd unfolding def by simp
    have "disk_inv {} (?ctx5\<lparr>sb_containers := gput (cd_Id c) ?cc (sb_containers ?ctx5)\<rparr>)"
    proof (rule add_root [OF _ _ _ _ _ nd refl refl])
      show "disk_inv {} ctx2" using ctx2 by blast
      show "gget (sb_containers ctx2) (cd_Id c) = None" using ctx2 ctx1(4) new by simp
      show "w < length (h_wgs ctx2)" using ctx2 ctx1(2) by simp
      show "dc_observers (dc\<lparr>dc_isRootVol := True\<rparr>) = []" using NewDiskContext_obs [OF dc] by simp
      show "\<exists>d. gget (sb_volumes ctx2) vn = Some d \<and> cd_Id c \<in> set (gkeys (obs (h_disks ctx2) d))"
        if "vn \<in> set (gkeys (cd_Volumes c))" for vn
        using ctx2 that by metis
    qed
    moreover have "no_disk [AddReady ?cc w ch]" by (simp add: no_disk_def)
    ultimately show ?thesis unfolding ctx' by (simp only: disk_inv_spawn)
  qed
qed

section \<open>Removing a container\<close>

lemma disk_inv_exempt: "disk_inv {} ctx \<Longrightarrow> disk_inv X ctx"
  unfolding disk_inv_def dinv_def use_ok_def by blast

lemma disk_unwait_fields:
  "sb_volumes (disk_unwait d cid ctx) = sb_volumes ctx" "sb_containers (disk_unwait d cid ctx) = sb_containers ctx"
  "h_wgs (disk_unwait d cid ctx) = h_wgs ctx" "sb_go (disk_unwait d cid ctx) = sb_go ctx"
  "h_disks (disk_unwait d cid ctx) =
     hupd d (\<lambda>dc. dc\<lparr>dc_observers := gdel cid (dc_observers dc)\<rparr>) (h_disks ctx)"
proof -
  have "hupd d (\<lambda>dc. dc\<lparr>dc_observers := gdel cid (dc_observers dc)\<rparr>) (h_disks ctx) = h_disks ctx"
    if "gget (obs (h_disks ctx) d) cid = None"
    using that by (simp add: hupd_def list_update_same_conv)
  then show "h_disks (disk_unwait d cid ctx) =
     hupd d (\<lambda>dc. dc\<lparr>dc_observers := gdel cid (dc_observers dc)\<rparr>) (h_disks ctx)"
    by (auto simp: disk_unwait_def disk_def upd_disk_def)
qed (simp_all add: disk_unwait_def upd_disk_def)

lemma disk_unwait_inv:
  assumes "disk_inv X ctx" "gget (sb_volumes ctx) vn = Some d" "cid \<in> X"
  shows "disk_inv X (disk_unwait d cid ctx)"
  unfolding disk_inv_def disk_unwait_fields sigs_go [OF disk_unwait_fields(4)] rems_go [OF disk_unwait_fields(4)]
  by (rule dinv_unwait [OF assms(1) [unfolded disk_inv_def] assms(2,3)])

lemma unwait_volumes_props:
  "disk_inv X ctx \<Longrightarrow> cid \<in> X \<Longrightarrow>
   disk_inv X (unwait_volumes vs cid ctx) \<and> sb_containers (unwait_volumes vs cid ctx) = sb_containers ctx"
proof (induction vs arbitrary: ctx)
  case (Cons v vs)
  show ?case
  proof (cases "gget (sb_volumes ctx) v")
    case (Some d)
    then show ?thesis
      using Cons.IH [of "disk_unwait d cid ctx"] disk_unwait_inv [OF Cons.prems(1) Some Cons.prems(2)] Cons.prems(2)
      by (simp add: disk_unwait_fields)
  qed (use Cons in simp)
qed simp

lemma RemoveContainer_inv:
  assumes inv: "disk_inv {} ctx"
  shows "disk_inv {} (RemoveContainer cid ch ctx)"
proof (cases "IsRunning ctx \<and> gget (sb_containers ctx) cid \<noteq> None")
  case True
  then obtain cc where run: "IsRunning ctx" and cc: "gget (sb_containers ctx) cid = Some cc" by auto
  let ?ctx1 = "unwait_volumes (gkeys (cd_Volumes (cc_desc cc))) cid ctx"
  let ?ctx2 = "disk_unwait (cc_root cc) cid ?ctx1"
  let ?ctx3 = "?ctx2\<lparr>sb_containers := gdel cid (sb_containers ?ctx2)\<rparr>"
  let ?ctx4 = "disk_remove (cc_root cc) ch ?ctx3"
  have eq: "RemoveContainer cid ch ctx = ?ctx4" using run cc by (simp add: RemoveContainer_def Let_def)
  note one = unwait_volumes_props [OF disk_inv_exempt [OF inv], of cid "{cid}", simplified]
  have inv1: "disk_inv {cid} ?ctx1" and c1: "gget (sb_containers ?ctx1) cid = Some cc"
    using one cc by simp_all
  have go: "sb_go ?ctx3 = sb_go ?ctx1" by (simp add: disk_unwait_fields)
  have rm: "rems ?ctx4 e = rems ?ctx1 e" if "e \<noteq> cc_root cc" for e
    using disk_remove_counts(2) [OF that, of ch ?ctx3] rems_go [OF go] by simp
  have view: "dview ?ctx4 = dview ?ctx3" by (rule disk_remove_frame)
  have sg: "sigs ?ctx4 = sigs ?ctx1" using disk_remove_counts(1) [of _ ch ?ctx3] sigs_go [OF go] by simp
  have "dinv {} (sb_volumes ?ctx1) (gdel cid (sb_containers ?ctx1))
      (hupd (cc_root cc) (\<lambda>dc. dc\<lparr>dc_observers := gdel cid (dc_observers dc)\<rparr>) (h_disks ?ctx1))
      (h_wgs ?ctx1) (sigs ?ctx1) (rems ?ctx4)"
    by (rule dinv_remove_container [OF inv1 [unfolded disk_inv_def] c1 rm])
  then have "disk_inv {} ?ctx4"
    using view sg by (simp add: disk_inv_def dview_fields disk_unwait_fields)
  then show ?thesis unfolding eq .
qed (use inv in \<open>auto simp: RemoveContainer_def\<close>)

section \<open>What leaves the disks alone\<close>

fun is_add_call :: "call \<Rightarrow> bool" where
  "is_add_call (DrAddDisk _ _) \<longleftrightarrow> True"
| "is_add_call _ \<longleftrightarrow> False"

text \<open>The SCSI ids given out and the disks handed to the driver.\<close>

definition sview :: "VmContext \<Rightarrow> int \<times> call list" where
  "sview ctx = (sb_scsiId ctx, filter is_add_call (sb_calls ctx))"

lemmas view_defs = dview_def sview_def

definition quiet :: "VmContext \<Rightarrow> VmContext \<Rightarrow> bool" where
  "quiet ctx ctx' \<longleftrightarrow> dview ctx' = dview ctx \<and> sview ctx' = sview ctx \<and>
     (\<exists>gs. (\<forall>as \<in> set gs. no_disk as) \<and> sb_go ctx' = sb_go ctx @ gs)"

lemma no_disk_counts: "no_disk as \<Longrightarrow> filter (is_sig d) as = [] \<and> filter (is_rem d) as = []"
  by (auto simp: no_disk_def filter_empty_conv)

lemma quiet_inv: "quiet ctx ctx' \<Longrightarrow> disk_inv X ctx \<Longrightarrow> disk_inv X ctx'"
proof -
  assume q: "quiet ctx ctx'" and inv: "disk_inv X ctx"
  from q obtain gs where gs: "\<forall>as \<in> set gs. no_disk as" "sb_go ctx' = sb_go ctx @ gs" by (auto simp: quiet_def)
  have "acount (is_sig d) gs = 0 \<and> acount (is_rem d) gs = 0" for d
    using gs(1) by (induction gs) (auto simp: no_disk_counts)
  then have "sigs ctx' = sigs ctx" "rems ctx' = rems ctx"
    using gs(2) by (simp_all add: sigs_def rems_def fun_eq_iff)
  then show ?thesis using disk_inv_frame [OF inv] q by (simp add: quiet_def)
qed

lemma quietI: "dview ctx' = dview ctx \<Longrightarrow> sview ctx' = sview ctx \<Longrightarrow> sb_go ctx' = sb_go ctx \<Longrightarrow> quiet ctx ctx'"
  by (auto simp: quiet_def intro: exI [of _ "[]"])

lemma quiet_refl [simp]: "quiet ctx ctx"
  by (rule quietI) simp_all

lemma quiet_trans [trans]: "quiet a b \<Longrightarrow> quiet b c \<Longrightarrow> quiet a c"
proof -
  assume ab: "quiet a b" and bc: "quiet b c"
  from ab obtain gs where gs: "\<forall>as \<in> set gs. no_disk as" "sb_go b = sb_go a @ gs" by (auto simp: quiet_def)
  from bc obtain hs where hs: "\<forall>as \<in> set hs. no_disk as" "sb_go c = sb_go b @ hs" by (auto simp: quiet_def)
  have "(\<forall>as \<in> set (gs @ hs). no_disk as) \<and> sb_go c = sb_go a @ (gs @ hs)" using gs hs by auto
  then show ?thesis using ab bc unfolding quiet_def by metis
qed

lemma quiet_send_result [simp]: "quiet ctx (send_result ch r ctx')  \<longleftrightarrow> quiet ctx ctx'"
  by (simp add: quiet_def view_defs send_result_def split: option.split)

lemma quiet_after_send: "quiet (send_result ch r ctx) ctx' \<Longrightarrow> quiet ctx ctx'"
  using quiet_trans [of ctx "send_result ch r ctx"] by simp

lemma quiet_log_call [simp]: "\<not> is_add_call c \<Longrightarrow> quiet ctx (log_call c ctx') \<longleftrightarrow> quiet ctx ctx'"
  by (simp add: quiet_def view_defs log_call_def)

lemma quiet_after_log: "\<not> is_add_call c \<Longrightarrow> quiet (log_call c ctx) ctx' \<Longrightarrow> quiet ctx ctx'"
  using quiet_trans [of ctx "log_call c ctx"] by simp

lemma quiet_spawn: "no_disk as \<Longrightarrow> quiet ctx ctx' \<Longrightarrow> quiet ctx (spawn as ctx')"
proof -
  assume as: "no_disk as" and q: "quiet ctx ctx'"
  have "quiet ctx' (spawn as ctx')" using as by (auto simp: quiet_def view_defs spawn_def)
  then show ?thesis by (rule quiet_trans [OF q])
qed

lemma quiet_AddInterface: "quiet ctx (AddInterface nif ch ctx)"
proof -
  have "quiet ctx' (addInterface nif ch ctx')" for ctx'
    by (auto simp: addInterface_def new_inf_def Let_def no_disk_def intro!: quiet_spawn)
      (auto simp: quiet_def view_defs intro: exI [of _ "[]"])
  then show ?thesis by (auto simp: AddInterface_def intro: quiet_after_send)
qed

lemma quiet_RemoveInterface: "quiet ctx (RemoveInterface i ch ctx)"
proof -
  have "quiet ctx' (removeInterface i ch ctx')" for ctx'
    by (auto simp: removeInterface_def Let_def no_disk_def split: option.split intro!: quiet_spawn)
      (auto simp: quiet_def view_defs intro: exI [of _ "[]"])
  then show ?thesis by (auto simp: RemoveInterface_def intro: quiet_after_send)
qed

lemma quiet_UpdateInterface: "UpdateInterface nif ctx = Some (ctx', e) \<Longrightarrow> quiet ctx ctx'"
  by (auto simp: UpdateInterface_def updateInterface_def Let_def view_defs intro!: quietI
      split: if_splits option.splits sum.splits)

lemma quiet_freeSlot: "quiet ctx (freeSlot i ctx)"
  by (auto simp: freeSlot_def Let_def view_defs intro!: quietI split: option.split)

lemma quiet_netdevInsertFailed: "quiet ctx (netdevInsertFailed i ctx)"
  by (simp add: netdevInsertFailed_def quiet_freeSlot)

lemma quiet_nic_failed: "quiet ctx (nic_failed s ch ctx)"
  by (auto simp: nic_failed_def quiet_netdevInsertFailed split: VmEvent.split)

lemma quiet_cleanup_all: "cleanup_all rs ctx = Some ctx' \<Longrightarrow> quiet ctx ctx'"
proof (induction rs ctx rule: cleanup_all.induct)
  case (3 r rs ctx)
  then have "quiet (cleanupInf r ctx) ctx'" by simp
  moreover have "quiet ctx (cleanupInf r ctx)" by (simp add: cleanupInf_def)
  ultimately show ?case by (rule quiet_trans [rotated])
qed simp_all

section \<open>Steps of goroutines\<close>

lemma dinv_cong:
  assumes inv: "dinv X vols conts disks wgs sg rm" and len: "length disks' = length disks"
    and eq: "\<And>d. d < length disks \<Longrightarrow>
      dc_observers (disks' ! d) = dc_observers (disks ! d) \<and> dc_ready (disks' ! d) = dc_ready (disks ! d)"
  shows "dinv X vols conts disks' wgs sg rm"
proof -
  have att: "d < length disks" if "d \<in> set (att vols conts)" for d
    using inv that unfolding dinv_def att_ok_def by blast
  have pend: "pend disks' sg = pend disks sg" using len eq by (auto simp: pend_def fun_eq_iff intro!: sum.cong)
  have 1: "att_ok vols conts disks' sg rm"
    using inv eq len unfolding dinv_def att_ok_def by simp
  have 2: "obs_ok (set (att vols conts)) disks' (length wgs)"
    using inv eq len unfolding dinv_def obs_ok_def by simp
  have 3: "wg_ok disks' wgs sg" using inv pend unfolding dinv_def wg_ok_def by simp
  have 4: "use_ok X vols conts disks'"
    using inv eq [OF att [OF att_conts]] eq [OF att [OF att_vols]] unfolding dinv_def use_ok_def by metis
  show ?thesis using 1 2 3 4 by (simp add: dinv_def)
qed

lemma quiet_cc_add: "quiet ctx (cc_add cc ch ctx)"
  by (simp add: cc_add_def Let_def)

lemma quiet_slots: "quiet ctx (fst (applySlot ctx))" "quiet ctx (fst (NextPciAddr ctx))"
  by (auto simp: applySlot_def NextPciAddr_def Let_def view_defs intro!: quietI split: option.split)

lemma quiet_configureInterface: "quiet ctx (fst (configureInterface i p name nif rnd ctx))"
proof -
  have *: "quiet ctx (log_call (DrAddNic h g) (ctx\<lparr>h_infs := hs, nc_eth := e, nc_idMap := m\<rparr>))" for h g hs e m
    by (simp, rule quietI) (simp_all add: view_defs)
  show ?thesis
    using * by (auto simp: configureInterface_def new_inf_def Let_def simp del: quiet_log_call split: option.split)
qed

lemma quiet_NicConfigure:
  assumes "NicConfigure_step nif ch rnd ctx = (ctx', acts)"
  shows "quiet ctx ctx' \<and> no_disk acts"
proof -
  obtain ctx1 idx where 1: "applySlot ctx = (ctx1, idx)" by force
  have q1: "quiet ctx ctx1" using quiet_slots(1) [of ctx] 1 by simp
  obtain ctx2 pci where 2: "NextPciAddr ctx1 = (ctx2, pci)" by force
  have q2: "quiet ctx ctx2" using quiet_slots(2) [of ctx1] 2 quiet_trans [OF q1] by simp
  have q3: "quiet ctx (fst (configureInterface i p name n rnd ctx2))" for i p name n
    by (rule quiet_trans [OF q2 quiet_configureInterface])
  show ?thesis
  proof (cases "idx < 0 \<or> nextAvailableDevName ctx1 = []")
    case True
    then show ?thesis using assms 1 q1 by (auto simp: NicConfigure_step_def Let_def no_disk_def)
  next
    case False
    let ?nif = "if id_Id nif = [] then nif\<lparr>id_Id := itoa idx\<rparr> else nif"
    obtain ctx3 n ev where 3: "configureInterface idx pci (nextAvailableDevName ctx1) ?nif rnd ctx2 = (ctx3, n, ev)"
      by (metis prod_cases3)
    have "quiet ctx ctx3" using q3 [of idx pci "nextAvailableDevName ctx1" ?nif] unfolding 3 by simp
    then show ?thesis
      using assms False unfolding NicConfigure_step_def 1 2 3 prod.case Let_def
      by (auto simp: no_disk_def split: option.splits)
  qed
qed

lemma quiet_NicReply:
  assumes "NicReply_step nif ch ev ctx = Some ctx'"
  shows "quiet ctx ctx'"
proof -
  have "quiet ctx (ctx\<lparr>h_infs := hs\<rparr>)" for hs by (rule quietI) (simp_all add: view_defs)
  then show ?thesis
    using assms quiet_nic_failed by (auto simp: NicReply_step_def split: option.splits VmEvent.splits)
qed

lemma quiet_NicRemoveReply: "quiet ctx (NicRemoveReply_step r i ch ev ctx)"
  by (auto simp: NicRemoveReply_step_def cleanupInf_def Let_def quiet_freeSlot split: option.split VmEvent.split)

lemma quiet_Close: "Close ctx = Some ctx' \<Longrightarrow> quiet ctx ctx'"
proof (cases "sb_closeOnce ctx")
  case False
  assume c: "Close ctx = Some ctx'"
  let ?ctx0 = "unsetTimeout (log_call AgClose (ctx\<lparr>sb_closeOnce := True\<rparr>))"
  obtain ctx1 where n: "networks_close ?ctx0 = Some ctx1" using c False by (auto simp: Close_def Let_def split: option.splits)
  have "quiet ctx ?ctx0" by (auto intro!: quietI simp: unsetTimeout_def view_defs log_call_def)
  moreover have "quiet ?ctx0 ctx1"
  proof -
    obtain z where z: "cleanup_all (gvals (nc_eth ?ctx0)) ?ctx0 = Some z" "ctx1 = z\<lparr>nc_eth := [], nc_lo := [], nc_idMap := []\<rparr>"
      using n by (auto simp: networks_close_def)
    have "quiet z ctx1" unfolding z(2) by (rule quietI) (simp_all add: view_defs)
    then show ?thesis by (rule quiet_trans [OF quiet_cleanup_all [OF z(1)]])
  qed
  moreover have "quiet ctx1 ctx'" using c False n
    by (auto simp: Close_def Let_def view_defs log_call_def intro!: quietI split: if_splits)
  ultimately show ?thesis by (blast intro: quiet_trans)
qed (auto simp: Close_def)

lemma quiet_send_client: "send_client r ctx = Some ctx' \<Longrightarrow> quiet ctx ctx'"
  by (auto simp: send_client_def view_defs intro!: quietI split: if_splits)

lemma quiet_reports:
  "quiet ctx (reportVmShutdown ctx)" "quiet ctx (reportVmFault c ctx)" "quiet ctx (poweroffVM ctx)"
  by (auto simp: reportVmShutdown_def reportVmFault_def poweroffVM_def recovered_def send_client_def view_defs
      intro!: quietI split: option.split)

lemma quiet_handler: "run_handler h ctx ev = Some ctx' \<Longrightarrow> quiet ctx ctx'"
proof -
  assume h: "run_handler h ctx ev = Some ctx'"
  have close: "quiet ctx ctx'" if "Close (reportVmShutdown ctx) = Some ctx' \<or> Close (poweroffVM ctx) = Some ctx'"
    using that quiet_Close quiet_reports quiet_trans by blast
  have unexpected: "quiet ctx ctx'" if "unexpectedEventHandler ctx ev s = Some ctx'" for s
    using that by (auto simp: unexpectedEventHandler_def reportUnexpectedRequest_def quiet_send_client split: if_splits)
  have become: "quiet ctx' (Become st s ctx')" for st s ctx'
    by (auto simp: Become_def view_defs intro!: quietI)
  have shut: "quiet ctx (Become st s (spawn [ShutdownVM] ctx))" for st s
    by (rule quiet_trans [OF quiet_spawn become]) (simp_all add: no_disk_def)
  have rel: "quiet ctx ctx'" if "reportSuccess m (Become st s ctx) = Some ctx'" for m st s
    using that quiet_send_client become quiet_trans unfolding reportSuccess_def by blast
  show ?thesis
    using h close unexpected shut rel
    by (cases h) (auto simp: stateRunning_handler_def stateTerminating_handler_def split: EventCode.splits)
qed

lemma action_quiet:
  assumes "action_step a e ctx = Next (ctx', acts)" "\<And>d. \<not> is_sig d a \<and> \<not> is_rem d a"
  shows "quiet ctx ctx' \<and> no_disk acts"
  using assms
proof (cases "(a, e, ctx)" rule: action_step.cases)
  case (9 uv ctx)
  have "quiet ctx (setTimeout ctx)" by (rule quietI) (auto simp: setTimeout_def unsetTimeout_def view_defs)
  then show ?thesis using assms 9 by (auto simp: ShutdownVM_step_def no_disk_def)
next
  case (10 e ctx)
  then show ?thesis using assms by (auto simp: ShutdownReply_step_def no_disk_def quiet_reports split: option.splits)
qed (auto simp: no_disk_def lift_crash_def quiet_cc_add quiet_nic_failed quiet_NicRemoveReply
    intro: quiet_Close quiet_NicReply dest: quiet_NicConfigure split: if_splits option.splits)

lemma go_counts:
  assumes "n < length (sb_go ctx)" "sb_go ctx ! n \<noteq> []" "quiet ctx ctx' \<or> sb_go ctx' = sb_go ctx"
  shows "sigs (ctx'\<lparr>sb_go := (sb_go ctx')[n := acts @ tl (sb_go ctx ! n)]\<rparr>) d + (if is_sig d (hd (sb_go ctx ! n)) then 1 else 0)
      = sigs ctx d + length (filter (is_sig d) acts)"
    "rems (ctx'\<lparr>sb_go := (sb_go ctx')[n := acts @ tl (sb_go ctx ! n)]\<rparr>) d + (if is_rem d (hd (sb_go ctx ! n)) then 1 else 0)
      = rems ctx d + length (filter (is_rem d) acts)"
proof -
  obtain gs where gs: "\<forall>as \<in> set gs. no_disk as" "sb_go ctx' = sb_go ctx @ gs"
    using assms(3) by (force simp: quiet_def)
  have none: "acount (is_sig d) gs = 0 \<and> acount (is_rem d) gs = 0"
    using gs(1) by (induction gs) (auto simp: no_disk_counts)
  show "sigs (ctx'\<lparr>sb_go := (sb_go ctx')[n := acts @ tl (sb_go ctx ! n)]\<rparr>) d + (if is_sig d (hd (sb_go ctx ! n)) then 1 else 0)
      = sigs ctx d + length (filter (is_sig d) acts)"
    "rems (ctx'\<lparr>sb_go := (sb_go ctx')[n := acts @ tl (sb_go ctx ! n)]\<rparr>) d + (if is_rem d (hd (sb_go ctx ! n)) then 1 else 0)
      = rems ctx d + length (filter (is_rem d) acts)"
    using none acount_replace [OF assms(1,2), of "is_sig d" acts] acount_replace [OF assms(1,2), of "is_rem d" acts] assms(1)
    by (simp_all add: sigs_def rems_def gs(2) list_update_append)
qed

text \<open>The head of a goroutine is counted.\<close>

lemma head_count:
  assumes "n < length (sb_go ctx)" "sb_go ctx ! n = a # as"
  shows "is_sig d a \<Longrightarrow> sigs ctx d > 0" "is_rem d a \<Longrightarrow> rems ctx d > 0"
  using go_counts [of n ctx ctx "[]" d] assms by simp_all

lemma go_step_signal:
  assumes inv: "disk_inv {} ctx" and n: "n < length (sb_go ctx)" "sb_go ctx ! n = a # as"
    and a: "a = InsertedDisk d \<or> a = FailedDisk d"
  shows "\<exists>ctx'. go_step n e ctx = Next ctx' \<and> disk_inv {} ctx'"
proof -
  obtain ok where step: "action_step a e ctx = lift_crash (map_option (\<lambda>c. (c, [])) (disk_signal ok d ctx))"
    using a by (auto simp: disk_inserted_def disk_failed_def)
  have sig: "sigs ctx d > 0" using head_count(1) [OF n] a by auto
  have d: "d < length (h_disks ctx)"
    using inv sig unfolding disk_inv_def dinv_def att_ok_def by (metis linorder_not_less not_gr_zero)
  define sg where "sg = (\<lambda>e. if e = d then sigs ctx d - 1 else sigs ctx e)"
  obtain wgs where wgs: "wg_done_all (gvals (obs (h_disks ctx) d)) (h_wgs ctx) = Some wgs"
    "dinv {} (sb_volumes ctx) (sb_containers ctx) (hupd d (\<lambda>dc. dc\<lparr>dc_ready := ok\<rparr>) (h_disks ctx)) wgs sg (rems ctx)"
    using dinv_signal [OF inv [unfolded disk_inv_def] d sig, of sg ok] by (auto simp: sg_def)
  let ?c = "upd_disk d (\<lambda>dc. dc\<lparr>dc_ready := ok\<rparr>) (ctx\<lparr>h_wgs := wgs\<rparr>)"
  let ?c' = "?c\<lparr>sb_go := (sb_go ?c)[n := [] @ tl (sb_go ctx ! n)]\<rparr>"
  have step': "go_step n e ctx = Next ?c'"
    using n step wgs(1) by (simp add: go_step_def disk_signal_def disk_def lift_crash_def)
  have go: "sb_go ?c = sb_go ctx" by (simp add: upd_disk_def)
  have "sigs ?c' e = sg e" "rems ?c' e = rems ctx e" for e
    using go_counts [of n ctx ?c "[]" e] n go a sig by (auto simp: sg_def)
  then have "sigs ?c' = sg" "rems ?c' = rems ctx" by (simp_all add: fun_eq_iff)
  then have "disk_inv {} ?c'" using wgs(2) by (simp add: disk_inv_def upd_disk_def)
  then show ?thesis using step' by blast
qed

definition same_disks :: "VmContext \<Rightarrow> VmContext \<Rightarrow> bool" where
  "same_disks ctx c \<longleftrightarrow> sb_go c = sb_go ctx \<and> length (h_disks c) = length (h_disks ctx) \<and>
     (\<forall>d < length (h_disks ctx). dc_observers (h_disks c ! d) = dc_observers (h_disks ctx ! d) \<and>
        dc_ready (h_disks c ! d) = dc_ready (h_disks ctx ! d)) \<and>
     sb_volumes c = sb_volumes ctx \<and> sb_containers c = sb_containers ctx \<and> h_wgs c = h_wgs ctx"

lemma same_disks_simps [simp]:
  "same_disks ctx ctx" "same_disks ctx (log_call f ctx)"
  "same_disks ctx (upd_disk d (\<lambda>dc. dc\<lparr>dc_desc := g dc\<rparr>) ctx)"
  by (auto simp: same_disks_def log_call_def upd_disk_def hupd_def nth_list_update)

lemma insert_acts:
  assumes a: "a = InsertDisk d ch \<or> a = InsertReply d ch" and act: "action_step a e ctx = Next (c, acts)"
  shows "same_disks ctx c \<and> length (filter (is_sig x) acts) = (if x = d then 1 else 0) \<and> filter (is_rem x) acts = []"
proof (cases "a = InsertDisk d ch")
  case True
  then show ?thesis using act by (auto simp: InsertDisk_step_def Let_def)
next
  case False
  then obtain ev where "a = InsertReply d ch" "e = EnvEvent ev" using a act by (cases e) auto
  then have "InsertReply_step d ch ev ctx = (c, acts)" using act by simp
  then show ?thesis
    by (cases ev; cases "the ev") (auto simp: InsertReply_step_def Let_def)
qed

lemma go_step_insert:
  assumes inv: "disk_inv {} ctx" and n: "n < length (sb_go ctx)" "sb_go ctx ! n = a # as"
    and a: "a = InsertDisk d ch \<or> a = InsertReply d ch" and step: "go_step n e ctx = Next ctx'"
  shows "disk_inv {} ctx'"
proof -
  obtain c acts where act: "action_step a e ctx = Next (c, acts)"
    and ctx': "ctx' = c\<lparr>sb_go := (sb_go c)[n := acts @ tl (sb_go ctx ! n)]\<rparr>"
    using step n by (auto simp: go_step_def split: outcome.splits)
  have new: "\<And>e. length (filter (is_sig e) acts) = (if e = d then 1 else 0) \<and> filter (is_rem e) acts = []"
    and go: "sb_go c = sb_go ctx" and len: "length (h_disks c) = length (h_disks ctx)"
    and eq: "\<And>d. d < length (h_disks ctx) \<Longrightarrow> dc_observers (h_disks c ! d) = dc_observers (h_disks ctx ! d) \<and>
      dc_ready (h_disks c ! d) = dc_ready (h_disks ctx ! d)"
    and rest: "sb_volumes c = sb_volumes ctx" "sb_containers c = sb_containers ctx" "h_wgs c = h_wgs ctx"
    using insert_acts [OF a act] unfolding same_disks_def by blast+
  have "sigs ctx' e = sigs ctx e" "rems ctx' e = rems ctx e" for e
    using go_counts [of n ctx c acts e] n go a new [of e] unfolding ctx' by (auto split: if_splits)
  then have cnt: "sigs ctx' = sigs ctx" "rems ctx' = rems ctx" by (simp_all add: fun_eq_iff)
  have "dinv {} (sb_volumes ctx) (sb_containers ctx) (h_disks c) (h_wgs ctx) (sigs ctx) (rems ctx)"
    by (rule dinv_cong [OF inv [unfolded disk_inv_def] len eq])
  then show ?thesis using cnt rest by (simp add: disk_inv_def ctx')
qed

lemma go_step_remove:
  assumes inv: "disk_inv {} ctx" and n: "n < length (sb_go ctx)" "sb_go ctx ! n = a # as"
    and a: "a = RemoveDisk d ch \<or> a = RemoveReply d ch" and step: "go_step n e ctx = Next ctx'"
  shows "disk_inv {} ctx'"
proof -
  obtain c acts where act: "action_step a e ctx = Next (c, acts)"
    and ctx': "ctx' = c\<lparr>sb_go := (sb_go c)[n := acts @ tl (sb_go ctx ! n)]\<rparr>"
    using step n by (auto simp: go_step_def split: outcome.splits)
  have new: "\<And>e. e \<noteq> d \<Longrightarrow> filter (is_sig e) acts = [] \<and> filter (is_rem e) acts = []"
    and go: "sb_go c = sb_go ctx" and view: "dview c = dview ctx"
    using a act by (cases e; auto simp: RemoveDisk_step_def RemoveReply_step_def frame
        Let_def split: option.splits VmEvent.splits)+
  have rem: "rems ctx d > 0" using head_count(2) [OF n] a by auto
  have d: "d < length (h_disks ctx)" "d \<notin> set (att (sb_volumes ctx) (sb_containers ctx))"
    using inv rem unfolding disk_inv_def dinv_def att_ok_def by (metis linorder_not_less not_gr_zero)+
  have cnt: "sigs ctx' e = sigs ctx e \<and> rems ctx' e = rems ctx e" if "e \<noteq> d" for e
    using go_counts [of n ctx c acts e] n go a new [OF that] that unfolding ctx' by auto
  have "dinv {} (sb_volumes ctx) (sb_containers ctx) (h_disks ctx) (h_wgs ctx) (sigs ctx') (rems ctx')"
    by (rule dinv_detached [OF inv [unfolded disk_inv_def] d cnt])
  then show ?thesis using view by (simp add: disk_inv_def ctx' view_defs)
qed

lemma go_step_inv:
  assumes inv: "disk_inv {} ctx" and step: "go_step n e ctx = Next ctx'"
  shows "disk_inv {} ctx'"
proof -
  obtain a as where n: "n < length (sb_go ctx)" "sb_go ctx ! n = a # as"
    using step by (cases "sb_go ctx ! n") (auto simp: go_step_def split: if_splits)
  obtain c acts where act: "action_step a e ctx = Next (c, acts)"
    and ctx': "ctx' = c\<lparr>sb_go := (sb_go c)[n := acts @ tl (sb_go ctx ! n)]\<rparr>"
    using step n by (auto simp: go_step_def split: outcome.splits)
  consider (sig) d where "a = InsertedDisk d \<or> a = FailedDisk d"
    | (ins) d ch where "a = InsertDisk d ch \<or> a = InsertReply d ch"
    | (rem) d ch where "a = RemoveDisk d ch \<or> a = RemoveReply d ch"
    | (none) "\<And>d. \<not> is_sig d a \<and> \<not> is_rem d a"
    by (cases a) auto
  then show ?thesis
  proof cases
    case sig
    then show ?thesis using go_step_signal [OF inv n sig, of e] step by auto
  next
    case none
    note q = action_quiet [OF act none]
    have "sigs ctx' d = sigs ctx d" "rems ctx' d = rems ctx d" for d
      using go_counts [of n ctx c acts d] n q none [of d] no_disk_counts [of acts d] unfolding ctx' by auto
    then have "sigs ctx' = sigs ctx" "rems ctx' = rems ctx" by (simp_all add: fun_eq_iff)
    moreover have "dview ctx' = dview ctx" using q by (simp add: quiet_def ctx' view_defs)
    ultimately show ?thesis by (intro disk_inv_frame [OF inv])
  qed (use go_step_insert [OF inv n] go_step_remove [OF inv n] step in blast)+
qed

section \<open>The invariant of the sandbox\<close>

lemma launched_disk_inv: "launched ctx \<Longrightarrow> disk_inv {} ctx"
proof -
  assume "launched ctx"
  then have "sb_volumes ctx = [] \<and> sb_containers ctx = [] \<and> h_disks ctx = [] \<and> h_wgs ctx = [] \<and> sb_go ctx = []"
    by (auto simp: launched_def Launch_def InitContext_def Let_def log_call_def split: if_splits prod.splits option.splits)
  then show ?thesis by (simp add: disk_inv_def dinv_defs att_def pend_def sigs_def rems_def)
qed

lemma quiet_calls:
  "quiet ctx (fst (createContainer i r ctx))" "quiet ctx (fst (startContainer i r ctx))"
  "startPod r ctx = Some (ctx', e) \<Longrightarrow> quiet ctx ctx'"
  "SendVmEvent ev ctx = Some ctx' \<Longrightarrow> quiet ctx ctx'"
  "loop_step ctx = Next ctx' \<Longrightarrow> quiet ctx ctx'"
proof -
  show "quiet ctx (fst (createContainer i r ctx))" "quiet ctx (fst (startContainer i r ctx))"
    by (auto simp: createContainer_def startContainer_def agentCreate_def Let_def split: option.split sum.split)
  show "startPod r ctx = Some (ctx', e) \<Longrightarrow> quiet ctx ctx'"
    by (auto simp: startPod_def Let_def reportSuccess_def intro: quiet_after_log [rotated] quiet_send_client quiet_reports(2)
        split: option.splits)
  show "SendVmEvent ev ctx = Some ctx' \<Longrightarrow> quiet ctx ctx'"
    by (auto simp: SendVmEvent_def view_defs intro!: quietI split: if_splits)
  show "loop_step ctx = Next ctx' \<Longrightarrow> quiet ctx ctx'"
  proof -
    assume step: "loop_step ctx = Next ctx'"
    have upd: "quiet ctx (ctx\<lparr>sb_loop := l\<rparr>)" "quiet ctx (ctx\<lparr>sb_Hub := h, sb_loop := l\<rparr>)" for l h
      by (auto simp: view_defs intro!: quietI)
    have "quiet ctx ctx'" if "run_handler h (ctx\<lparr>sb_loop := l\<rparr>) ev = Some ctx'" for h l ev
      using quiet_trans [OF upd(1) quiet_handler [OF that]] .
    then show ?thesis
      using step upd by (auto simp: loop_step_def lift_crash_def split: loop_pc.splits list.splits option.splits)
  qed
qed

lemma exec_disk_inv:
  assumes inv: "disk_inv {} ctx" and step: "sb_exec l ctx = Next ctx'"
  shows "disk_inv {} ctx'"
proof -
  have hub: "quiet ctx (ctx\<lparr>sb_Hub := h\<rparr>)" "quiet ctx (ctx\<lparr>sb_timer := t, sb_Hub := h\<rparr>)" for h t
    by (auto simp: view_defs intro!: quietI)
  show ?thesis
  proof (cases l)
    case (Go n e)
    then show ?thesis using go_step_inv [OF inv] step by simp
  next
    case (CallAddContainer c ch)
    then show ?thesis using AddContainer_inv [OF inv] step by (auto simp: lift_crash_def split: option.splits)
  next
    case (CallAddVolume v ch)
    then show ?thesis using AddVolume_inv [OF inv] step by (auto simp: lift_crash_def split: option.splits)
  qed (use inv step hub RemoveContainer_inv [OF inv] RemoveVolume_inv [OF inv] quiet_inv [OF _ inv] quiet_calls
      quiet_AddInterface quiet_RemoveInterface quiet_UpdateInterface quiet_reports(3)
      in \<open>auto simp: lift_crash_def split: if_splits option.splits\<close>)
qed

interpretation disks: sandbox_invariant "disk_inv {}"
  by unfold_locales (rule launched_disk_inv exec_disk_inv, assumption+)+

end
