(* ===== verification/ScsiInv.thy ===== *)
theory ScsiInv
  imports DiskSteps "HOL-Library.Multiset"
begin

text \<open>
  The SCSI ids of a sandbox: no two disks that are handed to the driver, or wait to be, have the
  same id. The invariant counts the ids in the calls made and in the pending \<open>InsertDisk\<close> steps.
\<close>

fun ins_drefs :: "action list \<Rightarrow> dref list" where
  "ins_drefs [] = []"
| "ins_drefs (a # as) = (case a of InsertDisk d _ \<Rightarrow> d # ins_drefs as | _ \<Rightarrow> ins_drefs as)"

lemma ins_drefs_append [simp]: "ins_drefs (as @ bs) = ins_drefs as @ ins_drefs bs"
  by (induction as) (auto split: action.split)

definition pending :: "VmContext \<Rightarrow> dref list" where
  "pending ctx = concat (map ins_drefs (sb_go ctx))"

definition scsi :: "VmContext \<Rightarrow> dref \<Rightarrow> int" where
  "scsi ctx d = dd_ScsiId (dc_desc (disk ctx d))"

fun call_scsi :: "call \<Rightarrow> int" where
  "call_scsi (DrAddDisk _ desc) = dd_ScsiId desc"
| "call_scsi _ = 0"

definition added_ids :: "VmContext \<Rightarrow> int list" where
  "added_ids ctx = map call_scsi (filter is_add_call (sb_calls ctx))"

definition scsi_inv :: "VmContext \<Rightarrow> bool" where
  "scsi_inv ctx \<longleftrightarrow>
     distinct (added_ids ctx @ map (scsi ctx) (pending ctx)) \<and>
     (\<forall>i \<in> set (added_ids ctx @ map (scsi ctx) (pending ctx)). i < sb_scsiId ctx) \<and>
     (\<forall>d \<in> set (pending ctx). d < length (h_disks ctx))"

section \<open>Steps that give out no id\<close>

definition stable :: "VmContext \<Rightarrow> VmContext \<Rightarrow> bool" where
  "stable ctx ctx' \<longleftrightarrow> sview ctx' = sview ctx \<and> mset (pending ctx') = mset (pending ctx) \<and>
     length (h_disks ctx) \<le> length (h_disks ctx') \<and> (\<forall>d < length (h_disks ctx). scsi ctx' d = scsi ctx d)"

lemma stable_inv:
  assumes "stable ctx ctx'" "scsi_inv ctx"
  shows "scsi_inv ctx'"
proof -
  have eq: "set (pending ctx') = set (pending ctx)" "added_ids ctx' = added_ids ctx" "sb_scsiId ctx' = sb_scsiId ctx"
    using assms(1) mset_eq_setD by (auto simp: stable_def sview_def added_ids_def)
  have m: "map (scsi ctx') (pending ctx') = map (scsi ctx) (pending ctx')"
    using assms eq by (auto simp: stable_def scsi_inv_def)
  have perm: "mset (added_ids ctx' @ map (scsi ctx') (pending ctx')) = mset (added_ids ctx @ map (scsi ctx) (pending ctx))"
    unfolding m using assms(1) eq by (simp add: stable_def)
  show ?thesis
    using assms eq perm mset_eq_imp_distinct_iff [OF perm] mset_eq_setD [OF perm]
    unfolding scsi_inv_def stable_def by (metis order_less_le_trans)
qed

lemma stable_refl [simp]: "stable ctx ctx"
  by (simp add: stable_def)

lemma stable_trans [trans]: "stable a b \<Longrightarrow> stable b c \<Longrightarrow> stable a c"
  unfolding stable_def by (metis order_trans order_less_le_trans)

lemma no_disk_drefs: "no_disk as \<Longrightarrow> ins_drefs as = []"
proof (induction as)
  case (Cons a as)
  then show ?case by (cases a) (auto simp: no_disk_def)
qed simp

lemma quiet_stable: "quiet ctx ctx' \<Longrightarrow> stable ctx ctx'"
proof -
  assume q: "quiet ctx ctx'"
  then obtain gs where gs: "\<forall>as \<in> set gs. no_disk as" "sb_go ctx' = sb_go ctx @ gs" by (auto simp: quiet_def)
  have "concat (map ins_drefs gs) = []" using gs(1) by (auto simp: no_disk_drefs)
  then show ?thesis using q gs(2) by (simp add: stable_def quiet_def pending_def scsi_def disk_def dview_def)
qed

lemma stableI:
  assumes "sview ctx' = sview ctx" "sb_go ctx' = sb_go ctx" "length (h_disks ctx) \<le> length (h_disks ctx')"
    "\<And>d. d < length (h_disks ctx) \<Longrightarrow> scsi ctx' d = scsi ctx d"
  shows "stable ctx ctx'"
  using assms by (simp add: stable_def pending_def)

lemma stable_disk_ops:
  "stable ctx (disk_wait d i w ctx)" "stable ctx (disk_unwait d i ctx)" "stable ctx (fst (new_wg ctx))"
  "stable ctx (fst (new_disk dc ctx))" "stable ctx (disk_remove d ch ctx)" "stable ctx (send_result ch r ctx)"
  "stable ctx (ctx\<lparr>sb_volumes := vols\<rparr>)" "stable ctx (ctx\<lparr>sb_containers := conts\<rparr>)"
  "stable ctx (not_ready r ch ctx)"
proof -
  show s: "stable ctx (send_result ch r ctx)" for ch r by (rule quiet_stable) simp
  show "stable ctx (disk_wait d i w ctx)" "stable ctx (disk_unwait d i ctx)"
    by (auto simp: disk_wait_def disk_unwait_def Let_def upd_disk_def wg_add_def hupd_def sview_def scsi_def disk_def
        nth_list_update intro!: stableI)
  show "stable ctx (fst (new_wg ctx))" "stable ctx (fst (new_disk dc ctx))"
    by (auto simp: new_wg_def new_disk_def sview_def scsi_def disk_def nth_append intro!: stableI)
  show "stable ctx (ctx\<lparr>sb_volumes := vols\<rparr>)" "stable ctx (ctx\<lparr>sb_containers := conts\<rparr>)"
    by (auto simp: sview_def scsi_def disk_def intro!: stableI)
  have "stable ctx (spawn [RemoveDisk d ch] ctx)"
    by (simp add: stable_def spawn_def sview_def pending_def scsi_def disk_def)
  then show "stable ctx (disk_remove d ch ctx)" using s by (simp add: disk_remove_def Let_def)
  show "stable ctx (not_ready r ch ctx)" using s by (simp add: not_ready_def)
qed

lemmas scsi_keep = stable_disk_ops [THEN stable_inv]

lemma stable_rollback: "stable ctx (rollback vs cid ctx)"
proof (induction vs arbitrary: ctx)
  case (Cons v vs)
  then show ?case
    using stable_trans [OF stable_disk_ops(2) Cons] by (simp split: option.split)
qed simp

lemma stable_unwait_volumes: "stable ctx (unwait_volumes vs cid ctx)"
proof (induction vs arbitrary: ctx)
  case (Cons v vs)
  then show ?case
    using stable_trans [OF stable_disk_ops(2) Cons] by (simp split: option.split)
qed simp

lemma stable_wait_volumes: "stable ctx (fst (wait_volumes added vns cid w ctx))"
proof (induction vns arbitrary: added ctx)
  case (Cons v vs)
  then show ?case
    using stable_trans [OF stable_disk_ops(1) Cons] stable_rollback by (simp split: option.split)
qed simp

section \<open>Steps that give out an id\<close>

lemma scsi_inv_insert:
  assumes inv: "scsi_inv ctx" and new: "new_disk dc ctx = (ctx1, d)"
  shows "scsi_inv (disk_insert d ch ctx1)"
proof -
  have inv1: "scsi_inv ctx1"
    using stable_inv [OF stable_disk_ops(4) inv, of dc] new by simp
  have d: "d < length (h_disks ctx1)" "d \<notin> set (pending ctx1)"
    using inv new by (auto simp: new_disk_def scsi_inv_def pending_def)
  show ?thesis
  proof (cases "dc_ready (disk ctx1 d)")
    case True
    then show ?thesis using stable_inv [OF stable_disk_ops(6) inv1] by (simp add: disk_insert_def)
  next
    case False
    let ?c = "ctx1\<lparr>sb_scsiId := sb_scsiId ctx1 + 1,
      h_disks := hupd d (\<lambda>dc. dc\<lparr>dc_desc := dc_desc dc\<lparr>dd_ScsiId := sb_scsiId ctx1\<rparr>\<rparr>) (h_disks ctx1)\<rparr>"
    let ?c' = "spawn [InsertDisk d ch] ?c"
    have eq: "disk_insert d ch ctx1 = ?c'" using False by (simp add: disk_insert_cases)
    have pend: "pending ?c' = pending ctx1 @ [d]" by (simp add: pending_def spawn_def)
    have ids: "scsi ?c' d = sb_scsiId ctx1" "\<And>e. e \<noteq> d \<Longrightarrow> scsi ?c' e = scsi ctx1 e"
      using d(1) by (simp_all add: scsi_def disk_def spawn_def hupd_def)
    have "map (scsi ?c') (pending ?c') = map (scsi ctx1) (pending ctx1) @ [sb_scsiId ctx1]"
    proof -
      have "map (scsi ?c') (pending ctx1) = map (scsi ctx1) (pending ctx1)"
        by (rule map_cong [OF refl], rule ids(2)) (use d(2) in auto)
      then show ?thesis using ids(1) by (simp only: pend map_append list.map)
    qed
    then have all: "added_ids ?c' @ map (scsi ?c') (pending ?c') = (added_ids ctx1 @ map (scsi ctx1) (pending ctx1)) @ [sb_scsiId ctx1]"
      by (simp add: added_ids_def spawn_def)
    have bound: "\<forall>i \<in> set (added_ids ctx1 @ map (scsi ctx1) (pending ctx1)). i < sb_scsiId ctx1"
      and dist: "distinct (added_ids ctx1 @ map (scsi ctx1) (pending ctx1))"
      and valid: "\<forall>e \<in> set (pending ctx1). e < length (h_disks ctx1)"
      using inv1 unfolding scsi_inv_def by blast+
    have "distinct (added_ids ?c' @ map (scsi ?c') (pending ?c'))"
      unfolding all using dist bound by (simp only: distinct_append) auto
    moreover have "\<forall>i \<in> set (added_ids ?c' @ map (scsi ?c') (pending ?c')). i < sb_scsiId ?c'"
      unfolding all using bound by (auto simp: spawn_def intro: less_imp_le)
    moreover have "\<forall>e \<in> set (pending ?c'). e < length (h_disks ?c')"
      unfolding pend using valid d(1) by (auto simp: spawn_def hupd_def)
    ultimately show ?thesis unfolding eq scsi_inv_def by blast
  qed
qed

lemma AddVolume_scsi:
  assumes inv: "scsi_inv ctx" and step: "AddVolume vol ch ctx = Some ctx'"
  shows "scsi_inv ctx'"
proof -
  let ?c0 = "not_ready (CommonErrorResult (NewNotReadyError (sb_Id ctx))) ch ctx"
  have inv0: "scsi_inv ?c0" by (rule stable_inv [OF stable_disk_ops(9) inv])
  show ?thesis
  proof (cases "gget (sb_volumes ?c0) (vd_Name vol) = None")
    case False
    then show ?thesis
      using step stable_inv [OF stable_disk_ops(6) inv0] by (auto simp: AddVolume_def Let_def)
  next
    case True
    then obtain dc where dc: "NewDiskContext vol = Some dc"
      using step by (auto simp: AddVolume_def Let_def split: option.splits)
    obtain c1 d where new: "new_disk dc ?c0 = (c1, d)" by force
    define c2 where "c2 = (if IsDir vol \<or> IsNas vol then send_result ch (NewResultBase (vd_Name vol) True []) c1
      else disk_insert d ch c1)"
    have "ctx' = c2\<lparr>sb_volumes := gput (vd_Name vol) d (sb_volumes c2)\<rparr>"
      using step True dc new by (auto simp: AddVolume_def Let_def c2_def)
    moreover have "scsi_inv c2"
    proof -
      have "scsi_inv c1" using stable_inv [OF stable_disk_ops(4) inv0, of dc] new by simp
      then show ?thesis using stable_inv [OF stable_disk_ops(6)] scsi_inv_insert [OF inv0 new] by (simp add: c2_def)
    qed
    ultimately show ?thesis using stable_inv [OF stable_disk_ops(7)] by blast
  qed
qed

lemma AddContainer_scsi:
  assumes inv: "scsi_inv ctx" and step: "AddContainer c ch ctx = Some ctx'"
  shows "scsi_inv ctx'"
proof -
  let ?c0 = "not_ready (CommonErrorResult (NewNotReadyError (sb_Id ctx))) ch ctx"
  have inv0: "scsi_inv ?c0" by (rule stable_inv [OF stable_disk_ops(9) inv])
  note err = stable_inv [OF stable_disk_ops(6)]
  show ?thesis
  proof (cases "gget (sb_containers ?c0) (cd_Id c) = None \<and> validateContainer ?c0 c = None")
    case False
    then show ?thesis using step err [OF inv0] by (auto simp: AddContainer_def Let_def split: option.splits if_splits)
  next
    case True
    obtain c1 w where w: "new_wg ?c0 = (c1, w)" by force
    obtain c2 e where v: "wait_volumes [] (gkeys (cd_Volumes c)) (cd_Id c) w c1 = (c2, e)" by force
    have "scsi_inv c1" using stable_inv [OF stable_disk_ops(3) inv0] w by simp
    then have inv2: "scsi_inv c2" using stable_inv [OF stable_wait_volumes] v by (metis fst_conv)
    show ?thesis
    proof (cases e)
      case (Some e')
      then show ?thesis using step True w v err [OF inv2] by (auto simp: AddContainer_def Let_def)
    next
      case None
      then obtain dc where dc: "NewDiskContext (cd_RootVolume c) = Some dc"
        using step True w v by (auto simp: AddContainer_def Let_def split: option.splits)
      obtain c3 r where r: "new_disk (dc\<lparr>dc_isRootVol := True\<rparr>) c2 = (c3, r)" by force
      let ?c5 = "disk_wait r (cd_Id c) w (disk_insert r None c3)"
      let ?cc = "\<lparr>cc_desc = c, cc_root = r\<rparr>"
      have "ctx' = spawn [AddReady ?cc w ch] (?c5\<lparr>sb_containers := gput (cd_Id c) ?cc (sb_containers ?c5)\<rparr>)"
        using step True w v None dc r by (simp add: AddContainer_def Let_def)
      moreover have "scsi_inv ?c5" by (rule stable_inv [OF stable_disk_ops(1) scsi_inv_insert [OF inv2 r]])
      moreover have "stable x (spawn [AddReady ?cc w ch] x)" for x
        by (rule quiet_stable, rule quiet_spawn) (simp_all add: no_disk_def)
      ultimately show ?thesis using stable_inv stable_disk_ops(8) by metis
    qed
  qed
qed

lemma Remove_scsi:
  assumes inv: "scsi_inv ctx"
  shows "scsi_inv (RemoveVolume n ch ctx)" "scsi_inv (RemoveContainer cid ch ctx)"
  using inv
  by (auto simp: RemoveVolume_def RemoveContainer_def Let_def split: option.split
      intro!: scsi_keep stable_unwait_volumes [THEN stable_inv])

section \<open>Goroutines\<close>

lemma pending_replace:
  assumes "n < length gs" "gs ! n = a # as"
  shows "mset (concat (map ins_drefs (gs[n := acts @ as]))) + mset (ins_drefs [a]) =
    mset (concat (map ins_drefs gs)) + mset (ins_drefs acts)"
proof -
  obtain xs ys where "gs = xs @ (a # as) # ys" "length xs = n"
    using assms by (metis id_take_nth_drop length_take min.absorb4)
  then show ?thesis by (cases a) auto
qed

lemma action_stable:
  assumes act: "action_step a e ctx = Next (c, acts)" and a: "\<And>d ch. a \<noteq> InsertDisk d ch"
  shows "stable ctx c \<and> ins_drefs acts = [] \<and> (\<exists>gs. sb_go c = sb_go ctx @ gs)"
proof -
  consider (reply) d ch ev where "a = InsertReply d ch" "e = EnvEvent ev" "InsertReply_step d ch ev ctx = (c, acts)"
    | (signal) d ok where "disk_signal ok d ctx = Some c" "acts = []"
    | (rem) d ch where "a = RemoveDisk d ch"
    | (remreply) d ch ev where "a = RemoveReply d ch" "e = EnvEvent ev" "RemoveReply_step d ch ev ctx = (c, acts)"
    | (none) "\<And>d. \<not> is_sig d a \<and> \<not> is_rem d a"
    using act a by (cases a; cases e) (auto simp: disk_inserted_def disk_failed_def)
  then show ?thesis
  proof cases
    case reply
    have "stable ctx (upd_disk d (\<lambda>dc. dc\<lparr>dc_desc := dc_desc dc\<lparr>dd_DeviceName := x, dd_ScsiAddr := y\<rparr>\<rparr>) ctx)" for x y
      by (auto simp: upd_disk_def hupd_def sview_def scsi_def disk_def nth_list_update intro!: stableI)
    moreover have "sb_go (upd_disk d f ctx) = sb_go ctx" for f by (simp add: upd_disk_def)
    ultimately show ?thesis
      using reply by (cases ev; cases "the ev") (auto simp: InsertReply_step_def Let_def)
  next
    case signal
    then show ?thesis
      by (auto simp: disk_signal_def upd_disk_def hupd_def sview_def scsi_def disk_def nth_list_update intro!: stableI)
  next
    case rem
    then have "quiet ctx c \<and> acts = [RemoveReply d ch]" using act by (auto simp: RemoveDisk_step_def Let_def)
    then show ?thesis using quiet_stable by (auto simp: quiet_def)
  next
    case remreply
    then show ?thesis by (cases ev; cases "the ev") (auto simp: RemoveReply_step_def Let_def)
  next
    case none
    then show ?thesis using action_quiet [OF act] quiet_stable no_disk_drefs by (auto simp: quiet_def)
  qed
qed

lemma go_step_scsi:
  assumes inv: "scsi_inv ctx" and step: "go_step n e ctx = Next ctx'"
  shows "scsi_inv ctx'"
proof -
  obtain a as where n: "n < length (sb_go ctx)" "sb_go ctx ! n = a # as"
    using step by (cases "sb_go ctx ! n") (auto simp: go_step_def split: if_splits)
  obtain c acts where act: "action_step a e ctx = Next (c, acts)"
    and ctx': "ctx' = c\<lparr>sb_go := (sb_go c)[n := acts @ as]\<rparr>"
    using step n by (auto simp: go_step_def split: outcome.splits)
  show ?thesis
  proof (cases "\<exists>d ch. a = InsertDisk d ch")
    case True
    then obtain d ch where a: "a = InsertDisk d ch" by blast
    have c: "c = log_call (DrAddDisk (if dc_isRootVol (disk ctx d) then ''image'' else ''volume'') (dc_desc (disk ctx d))) ctx"
      "acts = [InsertReply d ch]"
      using act a by (auto simp: InsertDisk_step_def Let_def)
    have p: "mset (pending ctx) = mset (pending ctx') + {#d#}"
      using pending_replace [OF n, of acts] a c by (simp add: pending_def ctx' log_call_def)
    have ids: "added_ids ctx' = added_ids ctx @ [scsi ctx d]" "scsi ctx' = scsi ctx"
      by (simp_all add: c ctx' added_ids_def scsi_def disk_def log_call_def fun_eq_iff)
    have perm: "mset (added_ids ctx' @ map (scsi ctx') (pending ctx')) = mset (added_ids ctx @ map (scsi ctx) (pending ctx))"
      by (simp add: ids p)
    have "set (pending ctx') \<subseteq> set (pending ctx)" using p by (metis set_mset_mset union_iff subsetI)
    then show ?thesis
      using inv mset_eq_imp_distinct_iff [OF perm] mset_eq_setD [OF perm]
      unfolding scsi_inv_def by (auto simp: c ctx' log_call_def)
  next
    case False
    then have st: "stable ctx c" "ins_drefs acts = []" and head: "ins_drefs [a] = []"
      and "\<exists>gs. sb_go c = sb_go ctx @ gs"
      using action_stable [OF act] by (auto split: action.split)
    then obtain gs where go: "sb_go c = sb_go ctx @ gs" by blast
    have "mset (pending ctx') = mset (pending c)"
      using pending_replace [of n "sb_go c" a as acts] n st(2) head go
      by (simp add: pending_def ctx' nth_append)
    then have "stable c ctx'" by (simp add: stable_def ctx' sview_def scsi_def disk_def)
    then show ?thesis using stable_inv [OF _ inv] stable_trans st(1) by blast
  qed
qed

lemma launched_scsi: "launched ctx \<Longrightarrow> scsi_inv ctx"
  by (auto simp: launched_def Launch_def InitContext_def Let_def log_call_def scsi_inv_def added_ids_def pending_def
      split: if_splits prod.splits option.splits)

lemma exec_scsi:
  assumes inv: "scsi_inv ctx" and step: "sb_exec l ctx = Next ctx'"
  shows "scsi_inv ctx'"
proof -
  have hub: "quiet ctx (ctx\<lparr>sb_Hub := h\<rparr>)" "quiet ctx (ctx\<lparr>sb_timer := t, sb_Hub := h\<rparr>)" for h t
    by (auto simp: view_defs intro!: quietI)
  show ?thesis
  proof (cases l)
    case (Go n e)
    then show ?thesis using go_step_scsi [OF inv] step by simp
  next
    case (CallAddContainer c ch)
    then show ?thesis using AddContainer_scsi [OF inv] step by (auto simp: lift_crash_def split: option.splits)
  next
    case (CallAddVolume v ch)
    then show ?thesis using AddVolume_scsi [OF inv] step by (auto simp: lift_crash_def split: option.splits)
  qed (use inv step hub Remove_scsi [OF inv] stable_inv [OF quiet_stable inv] quiet_calls
      quiet_AddInterface quiet_RemoveInterface quiet_UpdateInterface quiet_reports(3)
      in \<open>auto simp: lift_crash_def split: if_splits option.splits\<close>)
qed

interpretation scsi_ids: sandbox_invariant scsi_inv
  by unfold_locales (rule launched_scsi exec_scsi, assumption+)+

end
