(* ===== verification/CloseInv.thy ===== *)
theory CloseInv
  imports DiskSteps
begin

text \<open>
  The end of a sandbox: the handler, the client channel and the flag of \<^verbatim>\<open>closeOnce\<close> move together,
  and the client is told of the shutdown at most once.
\<close>

type_synonym life_view = "bool \<times> bool \<times> stateHandler option \<times> string \<times> VmResponse list"

definition life :: "VmContext \<Rightarrow> life_view" where
  "life ctx = (sb_closeOnce ctx, sb_clientClosed ctx, sb_handler ctx, sb_current ctx, sb_client ctx)"

section \<open>Operations that leave the life cycle alone\<close>

named_theorems life_frame \<open>operations that keep the life cycle fields\<close>

lemma life_basic [life_frame]:
  "life (send_result ch r ctx) = life ctx" "life (log_call c ctx) = life ctx" "life (spawn as ctx) = life ctx"
  "life (upd_disk d f ctx) = life ctx" "life (wg_add w i ctx) = life ctx"
  "life (ctx\<lparr>sb_go := g\<rparr>) = life ctx" "life (ctx\<lparr>sb_volumes := v\<rparr>) = life ctx"
  "life (ctx\<lparr>sb_containers := c'\<rparr>) = life ctx" "life (ctx\<lparr>h_wgs := ws\<rparr>) = life ctx"
  "life (ctx\<lparr>h_infs := hs\<rparr>) = life ctx" "life (ctx\<lparr>nc_eth := e\<rparr>) = life ctx"
  "life (ctx\<lparr>nc_idMap := m\<rparr>) = life ctx" "life (ctx\<lparr>nc_lo := lo\<rparr>) = life ctx"
  "life (ctx\<lparr>sb_Hub := h\<rparr>) = life ctx" "life (ctx\<lparr>sb_timer := t\<rparr>) = life ctx" "life (ctx\<lparr>sb_loop := l\<rparr>) = life ctx"
  "life (ctx\<lparr>h_disks := ds\<rparr>) = life ctx" "life (ctx\<lparr>sb_pciAddr := i\<rparr>) = life ctx" "life (ctx\<lparr>sb_scsiId := i\<rparr>) = life ctx"
  by (simp_all add: life_def send_result_def log_call_def spawn_def upd_disk_def wg_add_def split: option.split)

lemma life_disk [life_frame]:
  "life (disk_wait d i w ctx) = life ctx" "life (disk_unwait d i ctx) = life ctx"
  "life (disk_insert d ch ctx) = life ctx" "life (disk_remove d ch ctx) = life ctx"
  "life (not_ready r ch ctx) = life ctx" "life (fst (new_disk dc ctx)) = life ctx" "life (fst (new_wg ctx)) = life ctx"
  by (simp_all add: disk_wait_def disk_unwait_def disk_insert_cases disk_remove_def not_ready_def new_disk_def new_wg_def
      Let_def life_frame)

lemma life_rollback [life_frame]: "life (rollback vs cid ctx) = life ctx"
  by (induction vs arbitrary: ctx) (auto simp: life_frame split: option.split)

lemma life_unwait_volumes [life_frame]: "life (unwait_volumes vs cid ctx) = life ctx"
  by (induction vs arbitrary: ctx) (auto simp: life_frame split: option.split)

lemma life_wait_volumes [life_frame]: "life (fst (wait_volumes added vns cid w ctx)) = life ctx"
  by (induction vns arbitrary: added ctx) (auto simp: life_frame split: option.split)

lemma life_volumes [life_frame]:
  "life (RemoveVolume n ch ctx) = life ctx" "life (RemoveContainer cid ch ctx) = life ctx"
  by (simp_all add: RemoveVolume_def RemoveContainer_def Let_def life_frame split: option.split)

lemma life_AddVolume: "AddVolume vol ch ctx = Some ctx' \<Longrightarrow> life ctx' = life ctx"
  using life_disk(6) by (auto simp: AddVolume_def Let_def life_frame new_disk_def split: option.splits if_splits)

lemma life_AddContainer:
  assumes "AddContainer c ch ctx = Some ctx'"
  shows "life ctx' = life ctx"
proof -
  let ?c0 = "not_ready (CommonErrorResult (NewNotReadyError (sb_Id ctx))) ch ctx"
  obtain c2 e where v: "wait_volumes [] (gkeys (cd_Volumes c)) (cd_Id c) (length (h_wgs ?c0)) (?c0\<lparr>h_wgs := h_wgs ?c0 @ [0]\<rparr>) = (c2, e)"
    by force
  have "life c2 = life ctx"
    using arg_cong [OF v, of "\<lambda>p. life (fst p)"] by (simp add: life_frame)
  then show ?thesis
    using assms v by (auto simp: AddContainer_def Let_def life_frame new_disk_def new_wg_def split: option.splits if_splits)
qed

lemma life_network [life_frame]:
  "life (freeSlot k ctx) = life ctx" "life (netdevInsertFailed k ctx) = life ctx" "life (nic_failed s ch ctx) = life ctx"
  "life (cleanupInf r ctx) = life ctx" "life (AddInterface nif ch ctx) = life ctx"
  "life (RemoveInterface i ch ctx) = life ctx" "life (NicRemoveReply_step r i ch ev ctx) = life ctx"
proof -
  show free: "life (freeSlot k ctx) = life ctx" for k ctx
    by (simp add: freeSlot_def Let_def life_frame split: option.split)
  show failed: "life (netdevInsertFailed k ctx) = life ctx" for k ctx
    by (simp add: netdevInsertFailed_def free)
  show "life (nic_failed s ch ctx) = life ctx"
    by (simp add: nic_failed_def life_frame failed split: VmEvent.split)
  show clean: "life (cleanupInf r ctx) = life ctx" for ctx by (simp add: cleanupInf_def life_frame)
  have "life (addInterface nif ch ctx) = life ctx" for ctx
    by (simp add: addInterface_def new_inf_def Let_def life_frame)
  then show "life (AddInterface nif ch ctx) = life ctx" by (simp add: AddInterface_def life_frame)
  have "life (removeInterface i ch ctx) = life ctx" for ctx
    by (simp add: removeInterface_def Let_def life_frame split: option.split)
  then show "life (RemoveInterface i ch ctx) = life ctx" by (simp add: RemoveInterface_def life_frame)
  show "life (NicRemoveReply_step r i ch ev ctx) = life ctx"
    by (simp add: NicRemoveReply_step_def Let_def life_frame free clean split: option.split VmEvent.split)
qed

lemma life_UpdateInterface: "UpdateInterface nif ctx = Some (ctx', e) \<Longrightarrow> life ctx' = life ctx"
  by (auto simp: UpdateInterface_def updateInterface_def Let_def life_frame split: if_splits option.splits sum.splits)

lemma life_NicConfigure: "NicConfigure_step nif ch rnd ctx = (ctx', acts) \<Longrightarrow> life ctx' = life ctx"
proof -
  assume step: "NicConfigure_step nif ch rnd ctx = (ctx', acts)"
  have conf: "life (fst (configureInterface i p name n rnd c)) = life c" for i p name n c
    by (simp add: configureInterface_def new_inf_def Let_def life_frame split: option.split)
  have slots: "life (fst (applySlot c)) = life c" "life (fst (NextPciAddr c)) = life c" for c
    by (simp_all add: applySlot_def NextPciAddr_def Let_def life_frame)
  obtain c1 idx where 1: "applySlot ctx = (c1, idx)" by force
  obtain c2 pci where 2: "NextPciAddr c1 = (c2, pci)" by force
  let ?nif = "if id_Id nif = [] then nif\<lparr>id_Id := itoa idx\<rparr> else nif"
  obtain c3 n ev where 3: "configureInterface idx pci (nextAvailableDevName c1) ?nif rnd c2 = (c3, n, ev)"
    by (metis prod_cases3)
  have "life c1 = life ctx" "life c3 = life ctx"
    using slots [of ctx] slots [of c1] conf [of idx pci "nextAvailableDevName c1" ?nif c2] 1 2 3 by simp_all
  then show ?thesis
    using step unfolding NicConfigure_step_def 1 2 3 prod.case Let_def
    by (auto simp: life_frame split: option.splits if_splits)
qed

lemma cleanup_all_calls: "cleanup_all rs ctx = Some ctx' \<Longrightarrow> \<exists>cs. ctx' = ctx\<lparr>sb_calls := cs\<rparr>"
proof (induction rs ctx rule: cleanup_all.induct)
  case (1 ctx)
  then show ?case by (auto intro: exI [of _ "sb_calls ctx"])
next
  case (3 r rs ctx)
  then obtain cs where "ctx' = (cleanupInf r ctx)\<lparr>sb_calls := cs\<rparr>" by auto
  then show ?case by (auto simp: cleanupInf_def log_call_def)
qed simp

section \<open>The invariant\<close>

definition shutdowns :: "VmContext \<Rightarrow> nat" where
  "shutdowns ctx = length (filter (\<lambda>r. rsp_Code r = E_VM_SHUTDOWN) (sb_client ctx))"

definition close_inv :: "VmContext \<Rightarrow> bool" where
  "close_inv ctx \<longleftrightarrow>
     sb_clientClosed ctx = sb_closeOnce ctx \<and> (sb_closeOnce ctx \<longrightarrow> sb_handler ctx = None \<and> \<not> IsRunning ctx) \<and>
     shutdowns ctx \<le> (if sb_closeOnce ctx then 1 else 0)"

lemma life_inv: "life ctx' = life ctx \<Longrightarrow> close_inv ctx' = close_inv ctx"
  by (simp add: life_def close_inv_def shutdowns_def IsRunning_def)

lemma Close_spec:
  assumes "Close ctx = Some ctx'"
  shows "if sb_closeOnce ctx then ctx' = ctx
    else \<not> sb_clientClosed ctx \<and>
      life ctx' = (True, True, None, ''None'', sb_client ctx) \<and>
      (if bc_EnableVsock (sb_Boot ctx) \<and> sb_GuestCid ctx > 0
       then sb_GuestCid ctx' = 0 \<and> sb_cids ctx' = ReleaseCid (sb_cids ctx) (sb_GuestCid ctx)
       else sb_GuestCid ctx' = sb_GuestCid ctx \<and> sb_cids ctx' = sb_cids ctx)"
proof (cases "sb_closeOnce ctx")
  case False
  let ?c0 = "unsetTimeout (log_call AgClose (ctx\<lparr>sb_closeOnce := True\<rparr>))"
  obtain c1 where c1: "networks_close ?c0 = Some c1"
    using assms False by (auto simp: Close_def Let_def split: option.splits)
  then obtain z where "cleanup_all (gvals (nc_eth ?c0)) ?c0 = Some z" "c1 = z\<lparr>nc_eth := [], nc_lo := [], nc_idMap := []\<rparr>"
    by (auto simp: networks_close_def)
  then obtain cs where "c1 = ?c0\<lparr>sb_calls := cs, nc_eth := [], nc_lo := [], nc_idMap := []\<rparr>"
    using cleanup_all_calls by fastforce
  then show ?thesis
    using assms False c1
    by (auto simp: Close_def Let_def life_def log_call_def unsetTimeout_def split: if_splits)
qed (use assms in \<open>simp add: Close_def\<close>)

lemma close_inv_Close:
  assumes "Close ctx = Some ctx'" "sb_clientClosed ctx = sb_closeOnce ctx"
    "sb_closeOnce ctx \<longrightarrow> sb_handler ctx = None \<and> \<not> IsRunning ctx" "shutdowns ctx \<le> 1"
  shows "close_inv ctx'"
  using Close_spec [OF assms(1)] assms(2-4)
  by (auto simp: close_inv_def life_def shutdowns_def IsRunning_def StateRunning_def split: if_splits)

lemma life_reports [life_frame]: "life (poweroffVM ctx) = life ctx" "life (setTimeout ctx) = life ctx"
  by (simp_all add: poweroffVM_def setTimeout_def unsetTimeout_def life_frame)

lemma client_inv:
  assumes "close_inv ctx" "send_client r ctx = Some ctx'" "rsp_Code r \<noteq> E_VM_SHUTDOWN"
  shows "close_inv ctx'"
  using assms by (auto simp: close_inv_def send_client_def shutdowns_def IsRunning_def split: if_splits)

lemma shutdown_close_inv:
  assumes inv: "close_inv ctx" and open_: "\<not> sb_closeOnce ctx" and close: "Close (reportVmShutdown ctx) = Some ctx'"
  shows "close_inv ctx'"
proof (rule close_inv_Close [OF close])
  show "sb_clientClosed (reportVmShutdown ctx) = sb_closeOnce (reportVmShutdown ctx)"
    "shutdowns (reportVmShutdown ctx) \<le> 1"
    "sb_closeOnce (reportVmShutdown ctx) \<longrightarrow> sb_handler (reportVmShutdown ctx) = None \<and> \<not> IsRunning (reportVmShutdown ctx)"
    using inv open_ by (auto simp: close_inv_def reportVmShutdown_def recovered_def send_client_def shutdowns_def)
qed

lemma poweroff_close_inv:
  assumes inv: "close_inv ctx" and close: "Close (poweroffVM ctx) = Some ctx'"
  shows "close_inv ctx'"
  using close_inv_Close [OF close] inv life_inv [OF life_reports(1), of ctx]
  by (auto simp: close_inv_def split: if_splits)

lemma handler_close_inv:
  assumes inv: "close_inv ctx" and h: "sb_handler ctx = Some h" and step: "run_handler h ctx ev = Some ctx'"
  shows "close_inv ctx'"
proof -
  have open_: "\<not> sb_closeOnce ctx" using inv h by (auto simp: close_inv_def)
  have unexpected: "close_inv ctx'" if "unexpectedEventHandler ctx ev s = Some ctx'" for s
    using that inv client_inv [OF inv]
    by (auto simp: unexpectedEventHandler_def reportUnexpectedRequest_def response_def split: if_splits)
  have become: "close_inv (Become st s c)" if "close_inv c" "\<not> sb_closeOnce c" for st s c
    using that by (auto simp: Become_def close_inv_def shutdowns_def)
  have spawned: "close_inv (spawn as ctx)" "\<not> sb_closeOnce (spawn as ctx)" for as
    using inv open_ life_inv [OF life_basic(3)] by (auto simp: spawn_def)
  have rel: "close_inv ctx'" if "reportSuccess m (Become st s ctx) = Some ctx'" for m st s
    using client_inv [OF become [OF inv open_]] that by (auto simp: reportSuccess_def response_def)
  show ?thesis
    using step unexpected inv shutdown_close_inv [OF inv open_] poweroff_close_inv [OF inv] become [OF spawned] rel
    by (cases h) (auto simp: stateRunning_handler_def stateTerminating_handler_def split: EventCode.splits)
qed

lemma action_life:
  assumes act: "action_step a e ctx = Next (c, acts)"
  shows "life c = life ctx \<or> Close ctx = Some c"
proof -
  have signal: "life c = life ctx" if "disk_signal ok d ctx = Some c" for ok d
    using that by (auto simp: disk_signal_def life_frame)
  have reply: "life c = life ctx" if "InsertReply_step d ch ev ctx = (c, acts)" for d ch ev
    using that by (cases ev; cases "the ev") (auto simp: InsertReply_step_def Let_def life_frame)
  have rem: "life c = life ctx" if "RemoveReply_step d ch ev ctx = (c, acts)" for d ch ev
    using that by (cases ev; cases "the ev") (auto simp: RemoveReply_step_def Let_def life_frame)
  have nic: "life c = life ctx" if "NicReply_step nif ch ev ctx = Some c" for nif ch ev
    using that by (auto simp: NicReply_step_def life_frame split: option.splits VmEvent.splits)
  have add: "life (cc_add cc ch ctx) = life ctx" for cc ch by (simp add: cc_add_def Let_def life_frame)
  show ?thesis
    using act
    by (cases "(a, e, ctx)" rule: action_step.cases)
      (auto simp: InsertDisk_step_def RemoveDisk_step_def ShutdownVM_step_def ShutdownReply_step_def Let_def life_frame
        add disk_inserted_def disk_failed_def intro: signal reply rem nic life_NicConfigure split: if_splits)
qed

lemma action_close_inv:
  assumes inv: "close_inv ctx" and act: "action_step a e ctx = Next (c, acts)"
  shows "close_inv c"
proof -
  have "close_inv c" if "Close ctx = Some c"
    using close_inv_Close [OF that] inv by (auto simp: close_inv_def split: if_splits)
  then show ?thesis using action_life [OF act] inv life_inv by blast
qed

text \<open>The labels that may move the life cycle.\<close>

fun life_label :: "label \<Rightarrow> bool" where
  "life_label Loop \<longleftrightarrow> True"
| "life_label (Go _ _) \<longleftrightarrow> True"
| "life_label (CallStartPod _) \<longleftrightarrow> True"
| "life_label _ \<longleftrightarrow> False"

lemma exec_life:
  assumes step: "sb_exec l ctx = Next ctx'" and l: "\<not> life_label l"
  shows "life ctx' = life ctx"
proof -
  have "life (fst (createContainer i r ctx)) = life ctx" "life (fst (startContainer i r ctx)) = life ctx" for i r
    by (auto simp: createContainer_def startContainer_def agentCreate_def Let_def life_frame split: option.split sum.split)
  moreover have "life c = life ctx" if "SendVmEvent ev ctx = Some c" for ev c
    using that by (auto simp: SendVmEvent_def life_frame split: if_splits)
  moreover have "life (ctx\<lparr>sb_timer := t, sb_Hub := h\<rparr>) = life ctx" for t h by (simp add: life_def)
  ultimately show ?thesis
    using step l
    by (cases l) (auto simp: life_frame dest: life_AddContainer life_AddVolume life_UpdateInterface split: if_splits option.splits)
qed

lemma go_step_action:
  assumes "go_step n e ctx = Next ctx'"
  obtains a c acts where "action_step a e ctx = Next (c, acts)" "life ctx' = life c" "close_inv ctx' = close_inv c"
  using assms life_basic(6) life_inv [OF life_basic(6)] by (auto simp: go_step_def split: outcome.splits if_splits)

lemma exec_close_inv:
  assumes inv: "close_inv ctx" and step: "sb_exec l ctx = Next ctx'"
  shows "close_inv ctx'"
proof (cases "life_label l")
  case False
  then show ?thesis using exec_life [OF step] inv life_inv by blast
next
  case True
  then consider "l = Loop" | n e where "l = Go n e" | r where "l = CallStartPod r" by (cases l) auto
  then show ?thesis
  proof cases
    case 1
    have "close_inv (ctx\<lparr>sb_loop := LoopTest\<rparr>)" using inv life_inv [OF life_basic(16)] by blast
    then have "close_inv c" if "sb_handler ctx = Some h" "run_handler h (ctx\<lparr>sb_loop := LoopTest\<rparr>) ev = Some c" for h ev c
      using handler_close_inv that by simp
    moreover have "close_inv (ctx\<lparr>sb_loop := l\<rparr>)" "close_inv (ctx\<lparr>sb_Hub := h, sb_loop := l\<rparr>)" for l h
      using inv by (simp_all add: close_inv_def shutdowns_def IsRunning_def)
    ultimately show ?thesis
      using step 1 by (auto simp: loop_step_def split: loop_pc.splits list.splits option.splits)
  next
    case 2
    then show ?thesis using step action_close_inv [OF inv] by (metis go_step_action sb_exec.simps(16))
  next
    case 3
    let ?c = "log_call (AgStartSandbox (nc_config ctx) [shareStorage]) ctx"
    have "close_inv ?c" using inv life_inv [OF life_basic(2)] by blast
    then show ?thesis
      using step 3 client_inv [of ?c]
      by (auto simp: startPod_def Let_def reportSuccess_def reportVmFault_def recovered_def response_def split: option.splits)
  qed
qed

text \<open>A closed sandbox: every step leaves the life cycle and the responses as they are.\<close>

lemma closed_life:
  assumes inv: "close_inv ctx" and closed: "sb_closeOnce ctx" and step: "sb_exec l ctx = Next ctx'"
  shows "life ctx' = life ctx"
proof (cases "life_label l")
  case False
  then show ?thesis using exec_life [OF step] by blast
next
  case True
  have h: "sb_handler ctx = None" "sb_clientClosed ctx" using inv closed by (auto simp: close_inv_def)
  consider "l = Loop" | n e where "l = Go n e" | r where "l = CallStartPod r" using True by (cases l) auto
  then show ?thesis
  proof cases
    case 1
    then show ?thesis
      using step h by (auto simp: loop_step_def life_def split: loop_pc.splits list.splits)
  next
    case 2
    have "life c = life ctx" if "action_step a e ctx = Next (c, acts)" for a c acts
      using action_life [OF that] Close_spec [of ctx c] closed by auto
    then show ?thesis using step 2 by (metis go_step_action sb_exec.simps(16))
  next
    case 3
    then show ?thesis
      using step h
      by (auto simp: startPod_def Let_def reportSuccess_def reportVmFault_def recovered_def send_client_def
          life_frame log_call_def split: option.splits) (simp_all add: life_def)
  qed
qed

lemma launched_close_inv: "launched ctx \<Longrightarrow> close_inv ctx"
  by (auto simp: launched_def Launch_def InitContext_def Let_def log_call_def close_inv_def shutdowns_def
      split: if_splits prod.splits option.splits)

interpretation closing: sandbox_invariant close_inv
  by unfold_locales (rule launched_close_inv exec_close_inv, assumption+)+

end
