(* ===== verification/SandboxProps.thy ===== *)
theory SandboxProps
  imports ScsiInv CloseInv
begin

text \<open>
  The properties of the sandbox that rest on its invariants, and runs of it that evaluate.
\<close>

section \<open>A run to evaluate\<close>

definition demo_boot :: BootConfig where
  "demo_boot = \<lparr>bc_CPU = 1, bc_Memory = 128, bc_BootToBeTemplate = False, bc_BootFromTemplate = False,
     bc_EnableVsock = False, bc_EnableVhostUser = False, bc_KataAgent = False, bc_MemoryPath = [],
     bc_DevicesStatePath = [], bc_Kernel = [], bc_Initrd = [], bc_Bios = [], bc_Cbfs = [],
     bc_InboundAverage = [], bc_InboundPeak = [], bc_OutboundAverage = [], bc_OutboundPeak = []\<rparr>"

definition demo_sandbox :: VmContext where
  "demo_sandbox = Launch (the (fst (InitContext ''vm'' demo_boot
     \<lparr>ie_mkdir = True, ie_driver = True, ie_vsock = True\<rparr> NewDefaultVsockCidAllocator)))"

definition demo_volume :: VolumeDescription where
  "demo_volume = \<lparr>vd_Name = ''vol'', vd_Source = ''/img'', vd_Format = ''raw'', vd_Fstype = ''ext4'',
     vd_Options = None, vd_DockerVolume = False, vd_ReadOnly = False\<rparr>"

definition demo_container :: ContainerDescription where
  "demo_container = \<lparr>cd_Id = ''c'', cd_Name = ''c'', cd_Image = [], cd_Labels = [], cd_StopSignal = [],
     cd_RootVolume = \<lparr>vd_Name = ''c'', vd_Source = ''c'', vd_Format = ''vfs'', vd_Fstype = ''dir'',
       vd_Options = None, vd_DockerVolume = False, vd_ReadOnly = False\<rparr>,
     cd_RootPath = ''rootfs'', cd_UGI = None,
     cd_Volumes = [(''vol'', \<lparr>vr_Name = ''vol'', vr_MountPoints = [\<lparr>vm_Path = ''/data'', vm_ReadOnly = False\<rparr>]\<rparr>)],
     cd_Initialize = False,
     cd_OciSpec = \<lparr>os_Hostname = [], os_Process = None, os_Root = None, os_Mounts = [], os_Sysctl = []\<rparr>\<rparr>"

definition demo_labels :: "label list" where
  "demo_labels = [CallAddVolume demo_volume (Some 0), CallAddContainer demo_container (Some 1), Go 0 NoEnv,
     Go 0 (EnvEvent (Some (BlockdevInsertedEvent ''sda'' ''0:0''))), Go 0 NoEnv]"

definition demo_state :: VmContext where
  "demo_state = (case sb_run demo_labels demo_sandbox of Next c \<Rightarrow> c | _ \<Rightarrow> demo_sandbox)"

lemma launched_demo: "launched demo_sandbox"
proof -
  let ?env = "\<lparr>ie_mkdir = True, ie_driver = True, ie_vsock = True\<rparr>"
  have "fst (InitContext ''vm'' demo_boot ?env NewDefaultVsockCidAllocator) \<noteq> None"
    by (simp add: InitContext_def demo_boot_def Let_def)
  then obtain c cids where "InitContext ''vm'' demo_boot ?env NewDefaultVsockCidAllocator = (Some c, cids)"
    by (metis not_None_eq prod.collapse)
  then show ?thesis unfolding launched_def demo_sandbox_def by fastforce
qed

lemma demo_run: "sb_run demo_labels demo_sandbox = Next demo_state"
proof -
  have "case sb_run demo_labels demo_sandbox of Next _ \<Rightarrow> True | _ \<Rightarrow> False" by code_simp
  then show ?thesis by (simp add: demo_state_def split: outcome.splits)
qed

lemma demo_reachable: "reachable demo_state"
  by (rule reachable_run [OF reach_init [OF launched_demo] demo_run])

lemma demo_go: "sb_go demo_state ! 0 = [InsertedDisk 0]" "length (sb_go demo_state) = 2"
  "sb_volumes demo_state = [(''vol'', 0)]" "gget (sb_containers demo_state) ''c'' = Some \<lparr>cc_desc = demo_container, cc_root = 1\<rparr>"
  by code_simp+

section \<open>Disks\<close>

text \<open>
  C1: In every reachable state of a sandbox, the goroutine of a disk that tells the observers of
  the disk that it was inserted or failed can take that step: \<^verbatim>\<open>wg.Done()\<close> never makes a wait group
  negative, which would panic.
\<close>

theorem disk_signal_safe:
  assumes "reachable ctx" "n < length (sb_go ctx)" "sb_go ctx ! n = a # as" "a = InsertedDisk d \<or> a = FailedDisk d"
  shows "\<exists>ctx'. go_step n e ctx = Next ctx'"
  using go_step_signal [OF disks.reachable_I [OF assms(1)] assms(2-4)] by blast

theorem disk_signal_safe_witness:
  "reachable demo_state \<and> sb_go demo_state ! 0 = [InsertedDisk 0] \<and> (\<exists>ctx'. go_step 0 NoEnv demo_state = Next ctx')"
  using disk_signal_safe [OF demo_reachable, of 0 "InsertedDisk 0" "[]" 0 NoEnv] demo_reachable demo_go by simp

text \<open>
  C2: In every reachable state a volume that a registered container names is in the volume map,
  and \<^verbatim>\<open>RemoveVolume\<close> of it answers "in use" and keeps every volume.
\<close>

theorem volume_in_use:
  assumes "reachable ctx" "gget (sb_containers ctx) cid = Some cc" "vn \<in> set (gkeys (cd_Volumes (cc_desc cc)))"
  shows "(\<exists>d. gget (sb_volumes ctx) vn = Some d) \<and>
    RemoveVolume vn ch ctx = send_result ch (NewResultBase vn False ''in use'')
      (not_ready (NewResultBase vn True ''pod not running'') ch ctx) \<and>
    sb_volumes (RemoveVolume vn ch ctx) = sb_volumes ctx"
proof -
  obtain d where d: "gget (sb_volumes ctx) vn = Some d" "cid \<in> set (gkeys (obs (h_disks ctx) d))"
    using disks.reachable_I [OF assms(1)] assms(2,3) map_of_SomeD [OF assms(2)]
    unfolding disk_inv_def dinv_def use_ok_def by blast
  then have "obs (h_disks ctx) d \<noteq> []" by auto
  moreover have "dview (not_ready r ch ctx) = dview ctx" for r by (simp add: not_ready_def frame)
  ultimately show ?thesis
    using d(1) by (auto simp: RemoveVolume_def Let_def disk_containers_def disk_def dview_def send_result_def split: option.split)
qed

theorem volume_in_use_witness:
  "RemoveVolume ''vol'' (Some 7) demo_state = send_result (Some 7) (NewResultBase ''vol'' False ''in use'')
     (not_ready (NewResultBase ''vol'' True ''pod not running'') (Some 7) demo_state)"
  using volume_in_use [OF demo_reachable demo_go(4), of "''vol''" "Some 7"] by (simp add: demo_container_def)

text \<open>
  C4: In every reachable state the disks handed to the driver by \<^verbatim>\<open>AddDisk\<close> have pairwise different
  SCSI ids, all of them below the next id to be given out.
\<close>

theorem scsi_ids_distinct:
  assumes "reachable ctx"
  shows "distinct (map call_scsi (filter is_add_call (sb_calls ctx))) \<and>
    set (map call_scsi (filter is_add_call (sb_calls ctx))) \<subseteq> {..<sb_scsiId ctx}"
  using scsi_ids.reachable_I [OF assms] by (auto simp: scsi_inv_def added_ids_def)

theorem scsi_ids_distinct_witness:
  "reachable demo_state \<and> length (filter is_add_call (sb_calls demo_state)) = 1 \<and>
   distinct (map call_scsi (filter is_add_call (sb_calls demo_state)))"
proof -
  have "length (filter is_add_call (sb_calls demo_state)) = 1" by code_simp
  then show ?thesis using demo_reachable scsi_ids_distinct [OF demo_reachable] by blast
qed

section \<open>The end of a sandbox\<close>


text \<open>A run that ends with the exit of the virtual machine.\<close>

definition exit_labels :: "label list" where
  "exit_labels = [HubEvent VmExit, Loop, Loop, Loop]"

definition exit_state :: VmContext where
  "exit_state = (case sb_run exit_labels demo_sandbox of Next c \<Rightarrow> c | _ \<Rightarrow> demo_sandbox)"

lemma exit_reachable: "reachable exit_state"
proof -
  have "case sb_run exit_labels demo_sandbox of Next _ \<Rightarrow> True | _ \<Rightarrow> False" by code_simp
  then have "sb_run exit_labels demo_sandbox = Next exit_state" by (simp add: exit_state_def split: outcome.splits)
  then show ?thesis by (rule reachable_run [OF reach_init [OF launched_demo]])
qed


definition crash_labels :: "label list" where
  "crash_labels = [CallSendVmEvent (ShutdownCommand False), Loop, Loop, Loop, Loop, Go 0 NoEnv, HubEvent VmExit, Loop,
     Go 0 (EnvErr (Some ''broken'')), Go 0 NoEnv]"


end
