(* ===== verification/NetSlots.thy ===== *)
theory NetSlots
  imports Network
begin

text \<open>
  The two searches of the network of a sandbox: the slot of a new interface and its device name.
  Both loops of the code count up to \<^verbatim>\<open>MAX_NIC\<close>; the model gives them one round more than there are
  entries, and the lemmas show that this is always enough.
\<close>

locale first_free =
  fixes cand :: "nat \<Rightarrow> 'c"
  assumes cand_inj: "inj cand"
begin

lemma free_exists: "\<exists>i \<le> length used. cand i \<notin> set used"
proof (rule ccontr)
  assume "\<not> ?thesis"
  then have "cand ` {..length used} \<subseteq> set used" by auto
  then have "card (cand ` {..length used}) \<le> card (set used)" by (simp add: card_mono)
  also have "card (cand ` {..length used}) = Suc (length used)"
    using cand_inj by (simp add: card_image inj_on_subset)
  finally show False using card_length [of used] by simp
qed

definition first :: "'c list \<Rightarrow> nat" where
  "first used = (LEAST i. cand i \<notin> set used)"

lemma first_free: "cand (first used) \<notin> set used"
  using free_exists [of used] unfolding first_def by (metis (no_types, lifting) LeastI)

lemma first_le: "first used \<le> length used"
  using free_exists [of used] unfolding first_def by (meson Least_le order_trans)

lemma before_first: "i < first used \<Longrightarrow> cand i \<in> set used"
  unfolding first_def using not_less_Least by blast

end

interpretation slots: first_free "\<lambda>i. int i"
  by unfold_locales (rule inj_of_nat)

interpretation eth_devs: first_free eth_name
  by unfold_locales (auto intro!: injI simp: eth_name_def)

lemma applySlot_loop_first:
  assumes "i + k \<ge> slots.first (gkeys eth)" "i \<le> slots.first (gkeys eth)"
  shows "applySlot_loop (Suc k) (int i) eth = int (slots.first (gkeys eth))"
  using assms
proof (induction k arbitrary: i)
  case 0
  then have "i = slots.first (gkeys eth)" by simp
  then show ?case using slots.first_free [of "gkeys eth"] by (simp add: map_of_eq_None_iff)
next
  case (Suc k)
  show ?case
  proof (cases "i = slots.first (gkeys eth)")
    case True
    then show ?thesis using slots.first_free [of "gkeys eth"] by (simp add: map_of_eq_None_iff)
  next
    case False
    then have "int i \<in> set (gkeys eth)" using slots.before_first [of i "gkeys eth"] Suc.prems by simp
    then obtain v where "gget eth (int i) = Some v" by (metis map_of_eq_None_iff not_Some_eq set_map)
    then have "applySlot_loop (Suc (Suc k)) (int i) eth = applySlot_loop (Suc k) (int (Suc i)) eth"
      by (simp add: applySlot_loop.simps(2) [of "Suc k"] add.commute del: applySlot_loop.simps)
    also have "... = int (slots.first (gkeys eth))" using Suc.IH [of "Suc i"] Suc.prems False by simp
    finally show ?thesis .
  qed
qed

lemma devName_loop_first:
  assumes "i + k \<ge> eth_devs.first names" "i \<le> eth_devs.first names"
  shows "devName_loop (Suc k) i names = eth_name (eth_devs.first names)"
  using assms
proof (induction k arbitrary: i)
  case 0
  then have "i = eth_devs.first names" by simp
  then show ?case using eth_devs.first_free [of names] by simp
next
  case (Suc k)
  show ?case
  proof (cases "i = eth_devs.first names")
    case True
    then show ?thesis using eth_devs.first_free [of names] by simp
  next
    case False
    then have "eth_name i \<in> set names" using eth_devs.before_first [of i names] Suc.prems by simp
    then have "devName_loop (Suc (Suc k)) i names = devName_loop (Suc k) (Suc i) names" by simp
    also have "... = eth_name (eth_devs.first names)" using Suc.IH [of "Suc i"] Suc.prems False by simp
    finally show ?thesis .
  qed
qed

text \<open>
  \<^verbatim>\<open>applySlot\<close> always finds a slot: the least index that is not in the table, at most the number
  of its entries, and it reserves it with a nil entry.
\<close>

lemma applySlot_least:
  "\<exists>i. applySlot ctx = (ctx\<lparr>nc_eth := gput (int i) None (nc_eth ctx)\<rparr>, int i) \<and>
     gget (nc_eth ctx) (int i) = None \<and> int ` {..<i} \<subseteq> set (gkeys (nc_eth ctx)) \<and> i \<le> length (nc_eth ctx)"
proof -
  let ?i = "slots.first (gkeys (nc_eth ctx))"
  have le: "?i \<le> length (nc_eth ctx)" using slots.first_le [of "gkeys (nc_eth ctx)"] by simp
  then have loop: "applySlot_loop (Suc (length (nc_eth ctx))) 0 (nc_eth ctx) = int ?i"
    using applySlot_loop_first [of "nc_eth ctx" 0] by simp
  have "applySlot ctx = (ctx\<lparr>nc_eth := gput (int ?i) None (nc_eth ctx)\<rparr>, int ?i)"
    unfolding applySlot_def Let_def loop by simp
  moreover have "gget (nc_eth ctx) (int ?i) = None"
    using slots.first_free [of "gkeys (nc_eth ctx)"] by (simp add: map_of_eq_None_iff)
  moreover have "int ` {..<?i} \<subseteq> set (gkeys (nc_eth ctx))"
    using slots.before_first by blast
  ultimately show ?thesis using le by blast
qed

text \<open>
  \<^verbatim>\<open>nextAvailableDevName\<close> always finds a name: \<^verbatim>\<open>ethN\<close> for the least \<^verbatim>\<open>N\<close> whose name no configured
  interface has.
\<close>

lemma nextAvailableDevName_least:
  "\<exists>n. nextAvailableDevName ctx = eth_name n \<and> eth_name n \<notin> set (eth_names ctx) \<and>
     eth_name ` {..<n} \<subseteq> set (eth_names ctx)"
proof -
  let ?n = "eth_devs.first (eth_names ctx)"
  have "nextAvailableDevName ctx = eth_name ?n"
    using devName_loop_first [of "eth_names ctx" 0] eth_devs.first_le by (simp add: nextAvailableDevName_def)
  then show ?thesis using eth_devs.first_free [of "eth_names ctx"] eth_devs.before_first by blast
qed

end
