(* ===== verification/Persistence.thy ===== *)
theory Persistence
  imports Lifecycle
begin

text \<open>
  Saving and restoring a sandbox (\<^verbatim>\<open>hypervisor/persistence.go\<close>, \<^verbatim>\<open>VmAssociate\<close>): the persistent form
  of a sandbox, \<^verbatim>\<open>dump\<close>, and the construction of a sandbox from it. The driver state is opaque
  (a type variable); what the driver, the agent and the random source answer are arguments.
  A result \<open>None\<close> is a panic, \<open>Inl\<close> an error.
\<close>

definition CURRENT_PERSIST_VERSION :: int where "CURRENT_PERSIST_VERSION = 20171210"
definition COMPATIBLE_PERSIST_VERSION :: int where "COMPATIBLE_PERSIST_VERSION = CURRENT_PERSIST_VERSION"

record VmHwStatus =
  hw_PciAddr :: int
  hw_ScsiId :: int
  hw_AttachId :: uint64
  hw_GuestCid :: uint32

record PersistVolumeInfo =
  pv_Name :: string
  pv_Filename :: string
  pv_Format :: string
  pv_Fstype :: string
  pv_DeviceName :: string
  pv_ScsiId :: int
  pv_ContainerIds :: "string list"
  pv_IsRootVol :: bool
  pv_MontPoints :: "string list"

record PersistNetworkInfo =
  pn_Id :: string
  pn_Index :: int
  pn_PciAddr :: int
  pn_HostDevice :: string
  pn_DeviceName :: string
  pn_NewName :: string
  pn_IpAddr :: string
  pn_Mac :: string
  pn_Mtu :: nat

record 'd PersistInfo =
  pi_PersistVersion :: int
  pi_Id :: string
  pi_Paused :: bool
  pi_DriverInfo :: 'd
  pi_SandboxConfig :: "SandboxConfig option"
  pi_HwStat :: VmHwStatus
  pi_VolumeList :: "PersistVolumeInfo list"
  pi_NetworkList :: "PersistNetworkInfo list"
  pi_PortList :: "PortDescription list"
  pi_Containers :: "(string, ContainerDescription) gomap"

section \<open>Dump\<close>

definition dd_dump :: "DiskDescriptor \<Rightarrow> PersistVolumeInfo" where
  "dd_dump blk =
     \<lparr>pv_Name = dd_Name blk, pv_Filename = dd_Filename blk, pv_Format = dd_Format blk, pv_Fstype = dd_Fstype blk,
      pv_DeviceName = dd_DeviceName blk, pv_ScsiId = dd_ScsiId blk, pv_ContainerIds = [], pv_IsRootVol = False,
      pv_MontPoints = []\<rparr>"

definition blockInfo :: "PersistVolumeInfo \<Rightarrow> DiskDescriptor" where
  "blockInfo vol =
     \<lparr>dd_Name = pv_Name vol, dd_Filename = pv_Filename vol, dd_Format = pv_Format vol, dd_Fstype = pv_Fstype vol,
      dd_DeviceName = pv_DeviceName vol, dd_ScsiId = pv_ScsiId vol, dd_ScsiAddr = [], dd_DockerVolume = False,
      dd_ReadOnly = False, dd_Options = []\<rparr>"

definition dumpHwInfo :: "uint64 \<Rightarrow> VmContext \<Rightarrow> VmHwStatus" where
  "dumpHwInfo lastStreamSeq ctx =
     \<lparr>hw_PciAddr = sb_pciAddr ctx, hw_ScsiId = sb_scsiId ctx, hw_AttachId = lastStreamSeq, hw_GuestCid = sb_GuestCid ctx\<rparr>"

definition dump_volume :: "VmContext \<Rightarrow> dref \<Rightarrow> PersistVolumeInfo" where
  "dump_volume ctx d = (dd_dump (dc_desc (disk ctx d)))\<lparr>pv_ContainerIds := gkeys (dc_observers (disk ctx d))\<rparr>"

definition dump_root :: "VmContext \<Rightarrow> ContainerContext \<Rightarrow> PersistVolumeInfo" where
  "dump_root ctx c =
     (dd_dump (dc_desc (disk ctx (cc_root c))))\<lparr>pv_ContainerIds := [cd_Id (cc_desc c)], pv_IsRootVol := True\<rparr>"

definition dump_lo :: "InterfaceCreated \<Rightarrow> PersistNetworkInfo" where
  "dump_lo nic =
     \<lparr>pn_Id = ic_Id nic, pn_Index = ic_Index nic, pn_PciAddr = ic_PCIAddr nic, pn_HostDevice = ic_HostDevice nic,
      pn_DeviceName = ic_DeviceName nic, pn_NewName = [], pn_IpAddr = ic_IpAddr nic, pn_Mac = [], pn_Mtu = 0\<rparr>"

definition dump_eth :: "InterfaceCreated \<Rightarrow> PersistNetworkInfo" where
  "dump_eth nic =
     \<lparr>pn_Id = ic_Id nic, pn_Index = ic_Index nic, pn_PciAddr = ic_PCIAddr nic, pn_HostDevice = ic_HostDevice nic,
      pn_DeviceName = ic_DeviceName nic, pn_NewName = ic_NewName nic, pn_IpAddr = ic_IpAddr nic,
      pn_Mac = ic_MacAddr nic, pn_Mtu = ic_Mtu nic\<rparr>"

text \<open>The entries of \<^verbatim>\<open>eth\<close>; a reserved slot is a nil dereference.\<close>

fun dump_eths :: "InterfaceCreated list \<Rightarrow> infref option list \<Rightarrow> PersistNetworkInfo list option" where
  "dump_eths infs [] = Some []"
| "dump_eths infs (None # rs) = None"
| "dump_eths infs (Some r # rs) = map_option ((#) (dump_eth (infs ! r))) (dump_eths infs rs)"

definition dump :: "string + 'd \<Rightarrow> uint64 \<Rightarrow> VmContext \<Rightarrow> (string + 'd PersistInfo) option" where
  "dump dr lastStreamSeq ctx =
     (case dr of
        Inl e \<Rightarrow> Some (Inl e)
      | Inr d \<Rightarrow>
          (case dump_eths (h_infs ctx) (gvals (nc_eth ctx)) of
             None \<Rightarrow> None
           | Some eths \<Rightarrow>
               Some (Inr \<lparr>pi_PersistVersion = CURRENT_PERSIST_VERSION, pi_Id = sb_Id ctx,
                 pi_Paused = (sb_PauseState ctx = PauseStatePaused), pi_DriverInfo = d,
                 pi_SandboxConfig = nc_config ctx, pi_HwStat = dumpHwInfo lastStreamSeq ctx,
                 pi_VolumeList = map (dump_volume ctx) (gvals (sb_volumes ctx)) @ map (dump_root ctx) (gvals (sb_containers ctx)),
                 pi_NetworkList = map (\<lambda>r. dump_lo (h_infs ctx ! r)) (gvals (nc_lo ctx)) @ eths,
                 pi_PortList = nc_ports ctx,
                 pi_Containers = fold (\<lambda>c. gput (cd_Id (cc_desc c)) (cc_desc c)) (gvals (sb_containers ctx)) []\<rparr>)))"

section \<open>Restore\<close>

definition loadHwStatus :: "VmHwStatus \<Rightarrow> VmContext \<Rightarrow> VmContext \<times> string option" where
  "loadHwStatus hw ctx0 =
     (let ctx = ctx0\<lparr>sb_pciAddr := hw_PciAddr hw, sb_scsiId := hw_ScsiId hw, sb_GuestCid := hw_GuestCid hw\<rparr>
      in if hw_GuestCid hw \<noteq> 0 then
           (case MarkCidInuse (sb_cids ctx) (hw_GuestCid hw) of
              (cids, True) \<Rightarrow> (ctx\<lparr>sb_cids := cids, sb_Boot := (sb_Boot ctx)\<lparr>bc_EnableVsock := True\<rparr>\<rparr>, None)
            | (cids, False) \<Rightarrow> (ctx\<lparr>sb_cids := cids\<rparr>,
                Some (''conflicting vsock guest cid '' @ utoa (unat (hw_GuestCid hw)) @ '': already in use'')))
         else (ctx, None))"

text \<open>One entry of the network list; \<open>rnd\<close> is the random id for an entry without one.\<close>

definition load_inf :: "string \<Rightarrow> PersistNetworkInfo \<Rightarrow> VmContext \<Rightarrow> VmContext" where
  "load_inf rnd p ctx =
     (let ifc = \<lparr>ic_Id = (if pn_Id p = [] then rnd else pn_Id p), ic_Index = pn_Index p, ic_PCIAddr = pn_PciAddr p,
                 ic_TapFd = 0, ic_Bridge = [], ic_HostDevice = pn_HostDevice p, ic_DeviceName = pn_DeviceName p,
                 ic_MacAddr = pn_Mac p, ic_IpAddr = pn_IpAddr p, ic_NewName = pn_NewName p, ic_Mtu = pn_Mtu p,
                 ic_RouteTable = []\<rparr>;
          (ctx1, r) = new_inf ifc ctx;
          ctx2 = (if ic_DeviceName ifc = ''lo'' then ctx1\<lparr>nc_lo := gput (pn_IpAddr p) r (nc_lo ctx1)\<rparr>
                  else ctx1\<lparr>nc_eth := gput (pn_Index p) (Some r) (nc_eth ctx1)\<rparr>)
      in ctx2\<lparr>nc_idMap := gput (pn_Id p) r (nc_idMap ctx2)\<rparr>)"

fun load_infs :: "(nat \<Rightarrow> string) \<Rightarrow> nat \<Rightarrow> PersistNetworkInfo list \<Rightarrow> VmContext \<Rightarrow> VmContext" where
  "load_infs rnd k [] ctx = ctx"
| "load_infs rnd k (p # ps) ctx = load_infs rnd (Suc k) ps (load_inf (rnd k) p ctx)"

text \<open>\<^verbatim>\<open>nc.ports[i] = p\<close> on the empty slice of a new context is an index panic.\<close>

definition networks_load :: "(nat \<Rightarrow> string) \<Rightarrow> 'd PersistInfo \<Rightarrow> VmContext \<Rightarrow> VmContext option" where
  "networks_load rnd pinfo ctx =
     (if length (pi_PortList pinfo) > length (nc_ports ctx) then None
      else Some (load_infs rnd 0 (pi_NetworkList pinfo)
        (ctx\<lparr>nc_config := pi_SandboxConfig pinfo,
             nc_ports := pi_PortList pinfo @ drop (length (pi_PortList pinfo)) (nc_ports ctx)\<rparr>)))"

text \<open>
  The volumes: the images by container id and the volumes by container id.
\<close>

fun load_volumes ::
  "PersistVolumeInfo list \<Rightarrow> (string, DiskDescriptor) gomap \<Rightarrow> (string, dref list) gomap \<Rightarrow> VmContext \<Rightarrow>
   string + ((string, DiskDescriptor) gomap \<times> (string, dref list) gomap \<times> VmContext)" where
  "load_volumes [] imageMap volumeMap ctx = Inr (imageMap, volumeMap, ctx)"
| "load_volumes (vol # vols) imageMap volumeMap ctx =
     (let binfo = blockInfo vol in
      if pv_IsRootVol vol then
        (case pv_ContainerIds vol of
           [cid] \<Rightarrow> load_volumes vols (gput cid binfo imageMap) volumeMap ctx
         | _ \<Rightarrow> Inl ''persistent data corrupt, root volume mismatch'')
      else
        (let (ctx1, d) = new_disk \<lparr>dc_desc = binfo, dc_isRootVol = False, dc_ready = True, dc_observers = []\<rparr> ctx;
             ctx2 = ctx1\<lparr>sb_volumes := gput (dd_Name binfo) d (sb_volumes ctx1)\<rparr>;
             volumeMap' = fold (\<lambda>cid vm. gput cid ((case gget vm cid of None \<Rightarrow> [] | Some ds \<Rightarrow> ds) @ [d]) vm)
               (pv_ContainerIds vol) volumeMap
         in load_volumes vols imageMap volumeMap' ctx2))"

fun wait_restored :: "dref list \<Rightarrow> string \<Rightarrow> wgref \<Rightarrow> VmContext \<Rightarrow> VmContext" where
  "wait_restored [] cid w ctx = ctx"
| "wait_restored (d # ds) cid w ctx = wait_restored ds cid w (disk_wait d cid w ctx)"

definition restored_volumes :: "VmContext \<Rightarrow> dref list \<Rightarrow> (string, VolumeReference) gomap" where
  "restored_volumes ctx ds =
     fold (\<lambda>d. gput (dd_Name (dc_desc (disk ctx d))) \<lparr>vr_Name = [], vr_MountPoints = []\<rparr>) ds []"

definition load_container ::
  "(string, dref list) gomap \<Rightarrow> DiskDescriptor \<Rightarrow> string \<Rightarrow> ContainerDescription \<Rightarrow> VmContext \<Rightarrow> VmContext" where
  "load_container volumeMap bInfo cid des ctx =
     (let (ctx1, root) = new_disk \<lparr>dc_desc = bInfo, dc_isRootVol = True, dc_ready = True, dc_observers = []\<rparr> ctx;
          (ctx2, wgDisk) = new_wg ctx1;
          (des', ctx3) = (case gget volumeMap cid of
             None \<Rightarrow> (des, ctx2)
           | Some volList \<Rightarrow>
               (des\<lparr>cd_Volumes := restored_volumes ctx2 volList\<rparr>, wait_restored volList (cd_Id des) wgDisk ctx2));
          ctx4 = disk_wait root (cd_Id des) wgDisk ctx3
      in ctx4\<lparr>sb_containers := gput (cd_Id des) \<lparr>cc_desc = des', cc_root = root\<rparr> (sb_containers ctx4)\<rparr>)"

fun load_containers ::
  "(string, DiskDescriptor) gomap \<Rightarrow> (string, dref list) gomap \<Rightarrow> (string \<times> ContainerDescription) list \<Rightarrow> VmContext \<Rightarrow>
   string + VmContext" where
  "load_containers imageMap volumeMap [] ctx = Inr ctx"
| "load_containers imageMap volumeMap ((cid, des) # cs) ctx =
     (case gget imageMap cid of
        None \<Rightarrow> Inl ''persistent data corrupt, lack of container root volume''
      | Some bInfo \<Rightarrow> load_containers imageMap volumeMap cs (load_container volumeMap bInfo cid des ctx))"

definition empty_boot :: BootConfig where
  "empty_boot = \<lparr>bc_CPU = 0, bc_Memory = 0, bc_BootToBeTemplate = False, bc_BootFromTemplate = False,
     bc_EnableVsock = False, bc_EnableVhostUser = False, bc_KataAgent = False, bc_MemoryPath = [],
     bc_DevicesStatePath = [], bc_Kernel = [], bc_Initrd = [], bc_Bios = [], bc_Cbfs = [],
     bc_InboundAverage = [], bc_InboundPeak = [], bc_OutboundAverage = [], bc_OutboundPeak = []\<rparr>"

definition newer_version :: "int \<Rightarrow> string" where
  "newer_version v = ''error: detech saved data of newer version: PersistInfo's PersistVersion is '' @ itoa v @
     '', but compiled code version is '' @ itoa CURRENT_PERSIST_VERSION"

definition older_version :: "int \<Rightarrow> string" where
  "older_version v = ''error: detech saved data of older version, but no compatible handler for it: PersistInfo's PersistVersion is '' @
     itoa v @ '', but lowest compatible version is '' @ itoa COMPATIBLE_PERSIST_VERSION"

text \<open>
  The reply of the driver to \<^verbatim>\<open>LoadContext\<close> is the error \<open>load\<close>, and \<open>mkdir\<close> the error of making the
  share directory. The second component is the id allocator, which the code changes in place.
\<close>

definition vmContext ::
  "('d \<Rightarrow> string option) \<Rightarrow> string option \<Rightarrow> (nat \<Rightarrow> string) \<Rightarrow> DefaultVsockCidAllocator \<Rightarrow> 'd PersistInfo \<Rightarrow>
   (string + VmContext) option \<times> DefaultVsockCidAllocator" where
  "vmContext load mkdir rnd cids pinfo =
     (if pi_PersistVersion pinfo > CURRENT_PERSIST_VERSION
      then (Some (Inl (newer_version (pi_PersistVersion pinfo))), cids)
      else if pi_PersistVersion pinfo < COMPATIBLE_PERSIST_VERSION
      then (Some (Inl (older_version (pi_PersistVersion pinfo))), cids)
      else case load (pi_DriverInfo pinfo) of
        Some e \<Rightarrow> (Some (Inl e), cids)
      | None \<Rightarrow>
          (case InitContext (pi_Id pinfo) empty_boot \<lparr>ie_mkdir = (mkdir = None), ie_driver = True, ie_vsock = False\<rparr> cids of
             (None, cids0) \<Rightarrow> (Some (Inl (the mkdir)), cids0)
           | (Some ctx0, cids0) \<Rightarrow>
               (let ctx1 = (if pi_Paused pinfo then ctx0\<lparr>sb_PauseState := PauseStatePaused\<rparr> else ctx0) in
                case loadHwStatus (pi_HwStat pinfo) ctx1 of
                  (ctx2, Some e) \<Rightarrow> (Some (Inl e), sb_cids ctx2)
                | (ctx2, None) \<Rightarrow>
                    (case networks_load rnd pinfo ctx2 of
                       None \<Rightarrow> (None, sb_cids ctx2)
                     | Some ctx3 \<Rightarrow>
                         (case load_volumes (pi_VolumeList pinfo) [] [] ctx3 of
                            Inl e \<Rightarrow> (Some (Inl e), sb_cids ctx3)
                          | Inr (imageMap, volumeMap, ctx4) \<Rightarrow>
                              (Some (load_containers imageMap volumeMap (pi_Containers pinfo) ctx4), sb_cids ctx4))))))"

text \<open>
  \<^verbatim>\<open>VmAssociate\<close> behind the JSON decoding of the saved data; the agent may fail to connect.
\<close>

definition VmAssociate ::
  "('d \<Rightarrow> string option) \<Rightarrow> string option \<Rightarrow> (nat \<Rightarrow> string) \<Rightarrow> string option \<Rightarrow> DefaultVsockCidAllocator \<Rightarrow> string \<Rightarrow>
   string + 'd PersistInfo \<Rightarrow> (string + VmContext) option \<times> DefaultVsockCidAllocator" where
  "VmAssociate load mkdir rnd agent cids vmId pack =
     (case pack of
        Inl e \<Rightarrow> (Some (Inl e), cids)
      | Inr pinfo \<Rightarrow>
          if pi_Id pinfo \<noteq> vmId then (Some (Inl (''VM ID mismatch, '' @ vmId @ '' vs '' @ pi_Id pinfo)), cids)
          else (case vmContext load mkdir rnd cids pinfo of
                  (Some (Inr ctx), cids') \<Rightarrow>
                    ((case agent of Some e \<Rightarrow> Some (Inl e) | None \<Rightarrow> Some (Inr (log_call DrAssociate ctx))), cids')
                | r \<Rightarrow> r))"

end
