(* ===== verification/VolumeInv.thy ===== *)
theory VolumeInv
  imports DiskSteps
begin

text \<open>
  The volume map: a volume is stored under its own name, and who waits for it is a registered
  container that names it. With the invariant of the disks this ties volumes and containers
  together in both directions.
\<close>

definition dname :: "DiskContext list \<Rightarrow> dref \<Rightarrow> string" where
  "dname disks d = dd_Name (dc_desc (disks ! d))"

abbreviation okeys :: "DiskContext list \<Rightarrow> dref \<Rightarrow> string set" where
  "okeys disks d \<equiv> set (gkeys (obs disks d))"

definition vinv :: "volmap \<Rightarrow> contmap \<Rightarrow> DiskContext list \<Rightarrow> bool" where
  "vinv vols conts disks \<longleftrightarrow>
     (\<forall>n d. gget vols n = Some d \<longrightarrow> d < length disks \<and> dname disks d = n \<and>
        (\<forall>cid \<in> okeys disks d. \<exists>cc. gget conts cid = Some cc \<and> n \<in> set (gkeys (cd_Volumes (cc_desc cc)))))"

definition vol_inv :: "VmContext \<Rightarrow> bool" where
  "vol_inv ctx \<longleftrightarrow> vinv (sb_volumes ctx) (sb_containers ctx) (h_disks ctx)"

text \<open>Names stay, and a disk \<open>e\<close> gets no observers beyond \<open>F e\<close>.\<close>

definition kept :: "(dref \<Rightarrow> string set) \<Rightarrow> DiskContext list \<Rightarrow> DiskContext list \<Rightarrow> bool" where
  "kept F disks disks' \<longleftrightarrow> length disks \<le> length disks' \<and>
     (\<forall>e < length disks. dname disks' e = dname disks e \<and> okeys disks' e \<subseteq> F e)"

lemma kept_same: "disks' = disks \<Longrightarrow> kept (okeys disks) disks disks'"
  by (simp add: kept_def)

lemma kept_upd:
  assumes "\<And>dc. dd_Name (dc_desc (f dc)) = dd_Name (dc_desc dc)" "\<And>dc. dc_observers (f dc) = dc_observers dc"
  shows "kept (okeys disks) disks (hupd d f disks)"
proof -
  have "dname (hupd d f disks) e = dname disks e \<and> obs (hupd d f disks) e = obs disks e" if "e < length disks" for e
    using that assms by (cases "e = d") (simp_all add: hupd_def dname_def)
  then show ?thesis by (simp add: kept_def hupd_def)
qed

lemma kept_trans: "kept F a b \<Longrightarrow> kept (okeys b) b c \<Longrightarrow> kept F a c"
  unfolding kept_def by (metis order_trans order_less_le_trans)

lemma keptD:
  assumes "kept F a b" "e < length a"
  shows "e < length b" "dname b e = dname a e" "okeys b e \<subseteq> F e"
  using assms unfolding kept_def by auto

lemma keptI:
  assumes "length a \<le> length b" "\<And>e. e < length a \<Longrightarrow> dname b e = dname a e" "\<And>e. e < length a \<Longrightarrow> okeys b e \<subseteq> F e"
  shows "kept F a b"
  using assms unfolding kept_def by auto

lemma vinv_kept:
  assumes inv: "vinv vols conts disks" and kept: "kept (okeys disks) disks disks'"
  shows "vinv vols conts disks'"
  unfolding vinv_def
proof (intro allI impI conjI ballI)
  fix n d assume n: "gget vols n = Some d"
  have d: "d < length disks" "dname disks d = n" using inv n unfolding vinv_def by blast+
  note k = keptD [OF kept d(1)]
  show "d < length disks'" "dname disks' d = n" using k d by simp_all
  fix c assume "c \<in> okeys disks' d"
  then have "c \<in> okeys disks d" using k(3) by blast
  then show "\<exists>cc. gget conts c = Some cc \<and> n \<in> set (gkeys (cd_Volumes (cc_desc cc)))"
    using inv n unfolding vinv_def by blast
qed

lemma vinv_add_volume:
  assumes "vinv vols conts disks" "kept (okeys disks) disks disks'" "d < length disks'" "dname disks' d = n" "obs disks' d = []"
  shows "vinv (gput n d vols) conts disks'"
  using vinv_kept [OF assms(1,2)] assms(3-5) unfolding vinv_def by simp

lemma vinv_remove_volume: "vinv vols conts disks \<Longrightarrow> vinv (gdel n vols) conts disks"
  unfolding vinv_def by simp

lemma vinv_add_container:
  assumes inv: "vinv vols conts disks" and new: "gget conts cid = None"
    and kept: "kept (\<lambda>e. okeys disks e \<union> (if \<exists>vn \<in> set (gkeys (cd_Volumes (cc_desc cc))). gget vols vn = Some e then {cid} else {}))
      disks disks'"
  shows "vinv vols (gput cid cc conts) disks'"
  unfolding vinv_def
proof (intro allI impI conjI ballI)
  fix n d assume n: "gget vols n = Some d"
  have d: "d < length disks" "dname disks d = n" using inv n unfolding vinv_def by blast+
  then show "d < length disks'" "dname disks' d = n" using kept unfolding kept_def by (metis order_less_le_trans, metis)
  fix c assume "c \<in> okeys disks' d"
  then have "c \<in> okeys disks d \<or> (c = cid \<and> (\<exists>vn \<in> set (gkeys (cd_Volumes (cc_desc cc))). gget vols vn = Some d))"
    using kept d(1) unfolding kept_def by (auto split: if_splits)
  then show "\<exists>cc'. gget (gput cid cc conts) c = Some cc' \<and> n \<in> set (gkeys (cd_Volumes (cc_desc cc')))"
  proof (elim disjE conjE bexE)
    assume "c \<in> okeys disks d"
    then obtain cc' where "gget conts c = Some cc'" "n \<in> set (gkeys (cd_Volumes (cc_desc cc')))"
      using inv n unfolding vinv_def by blast
    moreover have "c \<noteq> cid" using new calculation(1) by auto
    ultimately show ?thesis by auto
  next
    fix vn assume vn: "c = cid" "vn \<in> set (gkeys (cd_Volumes (cc_desc cc)))" "gget vols vn = Some d"
    then have "vn = n" using inv d(2) unfolding vinv_def by blast
    then show ?thesis using vn by simp
  qed
qed

lemma vinv_remove_container:
  assumes inv: "vinv vols conts disks" and cc: "gget conts cid = Some cc"
    and kept: "kept (\<lambda>e. okeys disks e - (if \<exists>vn \<in> set (gkeys (cd_Volumes (cc_desc cc))). gget vols vn = Some e then {cid} else {}))
      disks disks'"
  shows "vinv vols (gdel cid conts) disks'"
  unfolding vinv_def
proof (intro allI impI conjI ballI)
  fix n d assume n: "gget vols n = Some d"
  have d: "d < length disks" "dname disks d = n" using inv n unfolding vinv_def by blast+
  then show "d < length disks'" "dname disks' d = n" using kept unfolding kept_def by (metis order_less_le_trans, metis)
  fix c assume "c \<in> okeys disks' d"
  then have c: "c \<in> okeys disks d" "c = cid \<Longrightarrow> \<not> (\<exists>vn \<in> set (gkeys (cd_Volumes (cc_desc cc))). gget vols vn = Some d)"
    using kept d(1) unfolding kept_def by (auto split: if_splits)
  then obtain cc' where cc': "gget conts c = Some cc'" "n \<in> set (gkeys (cd_Volumes (cc_desc cc')))"
    using inv n unfolding vinv_def by blast
  then have "c \<noteq> cid" using c(2) cc n by (metis option.inject)
  then show "\<exists>cc'. gget (gdel cid conts) c = Some cc' \<and> n \<in> set (gkeys (cd_Volumes (cc_desc cc')))"
    using cc' by simp
qed

section \<open>The operations\<close>

lemma kept_mono: "kept F a b \<Longrightarrow> (\<And>e. e < length a \<Longrightarrow> F e \<subseteq> G e) \<Longrightarrow> kept G a b"
  unfolding kept_def by (meson subset_trans)

lemma kept_minus:
  assumes ab: "kept (\<lambda>e. okeys a e - C e) a b" and bc: "kept (\<lambda>e. okeys b e - D e) b c"
  shows "kept (\<lambda>e. okeys a e - (C e \<union> D e)) a c"
proof (rule keptI)
  show "length a \<le> length c" using ab bc unfolding kept_def by linarith
  fix e assume "e < length a"
  note k = keptD [OF ab this]
  note k' = keptD [OF bc k(1)]
  show "dname c e = dname a e" using k k' by simp
  show "okeys c e \<subseteq> okeys a e - (C e \<union> D e)" using k(3) k'(3) by blast
qed

lemma kept_plus:
  assumes ab: "kept (\<lambda>e. okeys a e \<union> C e) a b" and bc: "kept (\<lambda>e. okeys b e \<union> D e) b c"
  shows "kept (\<lambda>e. okeys a e \<union> (C e \<union> D e)) a c"
proof (rule keptI)
  show "length a \<le> length c" using ab bc unfolding kept_def by linarith
  fix e assume "e < length a"
  note k = keptD [OF ab this]
  note k' = keptD [OF bc k(1)]
  show "dname c e = dname a e" using k k' by simp
  show "okeys c e \<subseteq> okeys a e \<union> (C e \<union> D e)" using k(3) k'(3) by blast
qed

lemma disk_unwait_kept:
  "kept (\<lambda>e. okeys (h_disks ctx) e - (if e = d then {cid} else {})) (h_disks ctx) (h_disks (disk_unwait d cid ctx))"
  unfolding kept_def disk_unwait_fields hupd_def dname_def
  by (auto simp: nth_list_update gkeys_gdel simp del: set_map)

lemma unwait_volumes_kept:
  "kept (\<lambda>e. okeys (h_disks ctx) e - (if \<exists>vn \<in> set vs. gget (sb_volumes ctx) vn = Some e then {cid} else {}))
     (h_disks ctx) (h_disks (unwait_volumes vs cid ctx))"
proof (induction vs arbitrary: ctx)
  case Nil
  then show ?case by (simp add: kept_def)
next
  case (Cons v vs)
  show ?case
  proof (cases "gget (sb_volumes ctx) v")
    case None
    then show ?thesis using Cons [of ctx] by (simp add: kept_def)
  next
    case (Some d)
    have "kept (\<lambda>e. okeys (h_disks ctx) e - ((if e = d then {cid} else {}) \<union>
        (if \<exists>vn \<in> set vs. gget (sb_volumes ctx) vn = Some e then {cid} else {})))
      (h_disks ctx) (h_disks (unwait_volumes vs cid (disk_unwait d cid ctx)))"
      by (rule kept_minus [OF disk_unwait_kept]) (use Cons [of "disk_unwait d cid ctx"] in \<open>simp only: disk_unwait_fields\<close>)
    then show ?thesis unfolding unwait_volumes.simps Some option.case
      by (rule kept_mono) (use Some in auto)
  qed
qed

lemma disk_wait_kept:
  "kept (\<lambda>e. okeys (h_disks ctx) e \<union> (if e = d then {cid} else {})) (h_disks ctx) (h_disks (disk_wait d cid w ctx))"
  unfolding kept_def disk_wait_def dname_def
  by (auto simp: Let_def upd_disk_def wg_add_def hupd_def nth_list_update gkeys_gput disk_def simp del: set_map)

lemma wait_volumes_kept:
  assumes "\<forall>vn \<in> set vns. gget (sb_volumes ctx) vn \<noteq> None"
  shows "kept (\<lambda>e. okeys (h_disks ctx) e \<union> (if \<exists>vn \<in> set vns. gget (sb_volumes ctx) vn = Some e then {cid} else {}))
     (h_disks ctx) (h_disks (fst (wait_volumes added vns cid w ctx)))"
  using assms
proof (induction vns arbitrary: added ctx)
  case Nil
  then show ?case by (simp add: kept_def)
next
  case (Cons v vs)
  then obtain d where d: "gget (sb_volumes ctx) v = Some d" by auto
  have vols: "sb_volumes (disk_wait d cid w ctx) = sb_volumes ctx"
    by (simp add: disk_wait_def Let_def upd_disk_def wg_add_def)
  have "kept (\<lambda>e. okeys (h_disks ctx) e \<union> ((if e = d then {cid} else {}) \<union>
      (if \<exists>vn \<in> set vs. gget (sb_volumes ctx) vn = Some e then {cid} else {})))
    (h_disks ctx) (h_disks (fst (wait_volumes (added @ [v]) vs cid w (disk_wait d cid w ctx))))"
    by (rule kept_plus [OF disk_wait_kept]) (use Cons.IH [of "disk_wait d cid w ctx" "added @ [v]"] Cons.prems vols in simp)
  then show ?case unfolding wait_volumes.simps d option.case
    by (rule kept_mono) (use d in auto)
qed

lemma insert_kept:
  assumes "new_disk dc ctx = (ctx1, d)"
  shows "kept (okeys (h_disks ctx)) (h_disks ctx) (h_disks (disk_insert d ch ctx1))"
    "d < length (h_disks (disk_insert d ch ctx1))" "dname (h_disks (disk_insert d ch ctx1)) d = dd_Name (dc_desc dc)"
    "obs (h_disks (disk_insert d ch ctx1)) d = dc_observers dc"
  using assms
  by (auto simp: new_disk_def disk_insert_cases kept_def dname_def send_result_def spawn_def hupd_def nth_append
      split: option.split)

lemma AddVolume_vol:
  assumes inv: "vol_inv ctx" and step: "AddVolume vol ch ctx = Some ctx'"
  shows "vol_inv ctx'"
proof -
  let ?c0 = "not_ready (CommonErrorResult (NewNotReadyError (sb_Id ctx))) ch ctx"
  have v0: "dview ?c0 = dview ctx" by (simp add: not_ready_def frame)
  show ?thesis
  proof (cases "gget (sb_volumes ?c0) (vd_Name vol) = None")
    case False
    then show ?thesis
      using step inv v0 by (auto simp: AddVolume_def Let_def vol_inv_def dview_def send_result_def split: option.splits)
  next
    case True
    then obtain dc where dc: "NewDiskContext vol = Some dc"
      using step by (auto simp: AddVolume_def Let_def split: option.splits)
    then have name: "dd_Name (dc_desc dc) = vd_Name vol" "dc_observers dc = []"
      by (auto simp: NewDiskContext_def Let_def split: if_splits)
    obtain c1 d where new: "new_disk dc ?c0 = (c1, d)" by force
    define c2 where "c2 = (if IsDir vol \<or> IsNas vol then send_result ch (NewResultBase (vd_Name vol) True []) c1
      else disk_insert d ch c1)"
    have ctx': "ctx' = c2\<lparr>sb_volumes := gput (vd_Name vol) d (sb_volumes c2)\<rparr>"
      using step True dc new by (auto simp: AddVolume_def Let_def c2_def)
    have fields: "sb_volumes c2 = sb_volumes ctx" "sb_containers c2 = sb_containers ctx"
      using new v0 by (auto simp: c2_def new_disk_def disk_insert_cases send_result_def spawn_def dview_def split: option.split)
    have kept: "kept (okeys (h_disks ctx)) (h_disks ctx) (h_disks c2)" "d < length (h_disks c2)"
      "dname (h_disks c2) d = vd_Name vol" "obs (h_disks c2) d = []"
      using insert_kept [OF new, of ch] v0 name new
      by (auto simp: c2_def new_disk_def dview_def kept_def dname_def send_result_def nth_append split: option.split)
    show ?thesis
      using vinv_add_volume [OF inv [unfolded vol_inv_def] kept] by (simp add: ctx' vol_inv_def fields)
  qed
qed

lemma RemoveVolume_vol:
  assumes inv: "vol_inv ctx"
  shows "vol_inv (RemoveVolume n ch ctx)"
proof -
  let ?c0 = "not_ready (NewResultBase n True ''pod not running'') ch ctx"
  have v0: "dview ?c0 = dview ctx" by (simp add: not_ready_def frame)
  have "vol_inv (ctx'\<lparr>sb_volumes := gdel n (sb_volumes ctx')\<rparr>)" if "dview ctx' = dview ctx" for ctx'
    using that inv vinv_remove_volume by (simp add: vol_inv_def dview_def)
  moreover have "vol_inv (disk_remove d ch c) = vol_inv c" "vol_inv (send_result ch r c) = vol_inv c" for d r c
    using disk_remove_frame [of d ch c] send_result_frame(1) [of ch r c] by (simp_all add: vol_inv_def dview_def)
  moreover have "vol_inv ?c0" using inv v0 by (simp add: vol_inv_def dview_def)
  ultimately show ?thesis using v0 by (auto simp: RemoveVolume_def Let_def split: option.split)
qed

lemma wait_volumes_same:
  "\<forall>vn \<in> set vns. gget (sb_volumes ctx) vn \<noteq> None \<Longrightarrow>
   snd (wait_volumes added vns cid w ctx) = None \<and>
   sb_volumes (fst (wait_volumes added vns cid w ctx)) = sb_volumes ctx \<and>
   sb_containers (fst (wait_volumes added vns cid w ctx)) = sb_containers ctx"
proof (induction vns arbitrary: added ctx)
  case (Cons v vs)
  then obtain d where d: "gget (sb_volumes ctx) v = Some d" by auto
  have "sb_volumes (disk_wait d cid w ctx) = sb_volumes ctx" "sb_containers (disk_wait d cid w ctx) = sb_containers ctx"
    by (simp_all add: disk_wait_def Let_def upd_disk_def wg_add_def)
  then show ?case using Cons.IH [of "disk_wait d cid w ctx" "added @ [v]"] Cons.prems d by simp
qed simp

lemma AddContainer_vol:
  assumes inv: "vol_inv ctx" and step: "AddContainer c ch ctx = Some ctx'"
  shows "vol_inv ctx'"
proof -
  let ?c0 = "not_ready (CommonErrorResult (NewNotReadyError (sb_Id ctx))) ch ctx"
  have v0: "dview ?c0 = dview ctx" by (simp add: not_ready_def frame)
  have inv0: "vol_inv ?c0" using inv v0 by (simp add: vol_inv_def dview_def)
  show ?thesis
  proof (cases "gget (sb_containers ?c0) (cd_Id c) = None \<and> validateContainer ?c0 c = None")
    case False
    then have "\<exists>r. ctx' = send_result ch r ?c0"
      using step by (auto simp: AddContainer_def Let_def split: option.splits if_splits)
    then show ?thesis using inv0 by (auto simp: vol_inv_def send_result_def split: option.split)
  next
    case True
    obtain c1 w where w: "new_wg ?c0 = (c1, w)" by force
    have c1: "sb_volumes c1 = sb_volumes ctx" "sb_containers c1 = sb_containers ctx" "h_disks c1 = h_disks ctx"
      using w v0 by (auto simp: new_wg_def dview_def)
    obtain c2 e where wv: "wait_volumes [] (gkeys (cd_Volumes c)) (cd_Id c) w c1 = (c2, e)" by force
    have ok: "\<forall>vn \<in> set (gkeys (cd_Volumes c)). gget (sb_volumes c1) vn \<noteq> None"
      using validate_volumes_None [of "sb_volumes ?c0" "cd_Volumes c"] True v0 c1(1)
      by (simp add: validateContainer_def dview_def)
    note c2 = wait_volumes_same [OF ok, of "[]" "cd_Id c" w, unfolded wv, simplified]
    note k2 = wait_volumes_kept [OF ok, of "cd_Id c" "[]" w, unfolded wv fst_conv]
    obtain dc where dc: "NewDiskContext (cd_RootVolume c) = Some dc"
      using step True w wv c2 by (auto simp: AddContainer_def Let_def split: option.splits)
    obtain c3 r where r: "new_disk (dc\<lparr>dc_isRootVol := True\<rparr>) c2 = (c3, r)" by force
    let ?c4 = "disk_insert r None c3" and ?c5 = "disk_wait r (cd_Id c) w (disk_insert r None c3)"
    let ?cc = "\<lparr>cc_desc = c, cc_root = r\<rparr>"
    have ctx': "ctx' = spawn [AddReady ?cc w ch] (?c5\<lparr>sb_containers := gput (cd_Id c) ?cc (sb_containers ?c5)\<rparr>)"
      using step True w wv c2 dc r by (simp add: AddContainer_def Let_def)
    have f5: "sb_volumes ?c5 = sb_volumes ctx" "sb_containers ?c5 = sb_containers ctx" "r = length (h_disks c2)"
      using r c2 c1 by (auto simp: disk_wait_def Let_def upd_disk_def wg_add_def new_disk_def disk_insert_cases spawn_def
          send_result_def split: option.split)
    let ?F = "\<lambda>e. if \<exists>vn \<in> set (gkeys (cd_Volumes c)). gget (sb_volumes ctx) vn = Some e then {cd_Id c} else {}"
    have "kept (\<lambda>e. okeys (h_disks ctx) e \<union> ?F e) (h_disks ctx) (h_disks ?c4)"
      using k2 insert_kept(1) [OF r] by (metis (no_types) c1(1,3) kept_trans)
    from kept_plus [OF this disk_wait_kept [of ?c4 r "cd_Id c" w]]
    have "kept (\<lambda>e. okeys (h_disks ctx) e \<union> ?F e) (h_disks ctx) (h_disks ?c5)"
      by (rule kept_mono) (use k2 f5(3) c1(3) in \<open>auto simp: kept_def\<close>)
    then have "vinv (sb_volumes ctx) (gput (cd_Id c) ?cc (sb_containers ctx)) (h_disks ?c5)"
      using vinv_add_container [OF inv [unfolded vol_inv_def], of "cd_Id c" ?cc] True v0 by (simp add: dview_def)
    then show ?thesis using f5 by (simp add: ctx' vol_inv_def spawn_def)
  qed
qed

lemma RemoveContainer_vol:
  assumes inv: "vol_inv ctx"
  shows "vol_inv (RemoveContainer cid ch ctx)"
proof (cases "IsRunning ctx \<and> gget (sb_containers ctx) cid \<noteq> None")
  case False
  then show ?thesis
    using inv by (auto simp: RemoveContainer_def vol_inv_def send_result_def split: option.split)
next
  case True
  then obtain cc where cc: "gget (sb_containers ctx) cid = Some cc" by auto
  let ?vs = "gkeys (cd_Volumes (cc_desc cc))"
  let ?c1 = "unwait_volumes ?vs cid ctx"
  let ?c2 = "disk_unwait (cc_root cc) cid ?c1"
  let ?c3 = "?c2\<lparr>sb_containers := gdel cid (sb_containers ?c2)\<rparr>"
  have eq: "RemoveContainer cid ch ctx = disk_remove (cc_root cc) ch ?c3"
    using True cc by (simp add: RemoveContainer_def Let_def)
  have f: "sb_volumes (unwait_volumes vs cid c) = sb_volumes c \<and> sb_containers (unwait_volumes vs cid c) = sb_containers c" for vs c
    by (induction vs arbitrary: c) (auto simp: disk_unwait_fields split: option.split)
  have "kept (\<lambda>e. okeys (h_disks ctx) e - (if \<exists>vn \<in> set ?vs. gget (sb_volumes ctx) vn = Some e then {cid} else {}))
      (h_disks ctx) (h_disks ?c2)"
    by (rule kept_mono [OF kept_minus [OF unwait_volumes_kept disk_unwait_kept]]) auto
  from vinv_remove_container [OF inv [unfolded vol_inv_def] cc this]
  have "vol_inv ?c3" using f by (simp add: vol_inv_def disk_unwait_fields)
  then show ?thesis using disk_remove_frame [of "cc_root cc" ch ?c3] unfolding eq by (simp add: vol_inv_def dview_def)
qed

lemma action_vol:
  assumes inv: "vol_inv ctx" and act: "action_step a e ctx = Next (c, acts)"
  shows "vol_inv c"
proof -
  consider (ins) d ch where "a = InsertDisk d ch \<or> a = RemoveDisk d ch"
    | (reply) d ch ev where "a = InsertReply d ch" "InsertReply_step d ch ev ctx = (c, acts)"
    | (signal) d ok where "disk_signal ok d ctx = Some c"
    | (remreply) d ch ev where "a = RemoveReply d ch" "RemoveReply_step d ch ev ctx = (c, acts)"
    | (none) "\<And>d. \<not> is_sig d a \<and> \<not> is_rem d a"
    using act by (cases a; cases e) (auto simp: disk_inserted_def disk_failed_def)
  then have "sb_volumes c = sb_volumes ctx \<and> sb_containers c = sb_containers ctx \<and>
    kept (okeys (h_disks ctx)) (h_disks ctx) (h_disks c)"
  proof cases
    case ins
    then have "dview c = dview ctx" using act by (auto simp: InsertDisk_step_def RemoveDisk_step_def Let_def frame)
    then show ?thesis using kept_same by (simp add: dview_def)
  next
    case reply
    then show ?thesis
      by (cases ev; cases "the ev")
        (auto simp: InsertReply_step_def Let_def upd_disk_def kept_same simp del: set_map intro!: kept_upd)
  next
    case signal
    then show ?thesis
      by (auto simp: disk_signal_def upd_disk_def simp del: set_map intro!: kept_upd)
  next
    case remreply
    then have "c = ctx" by (cases ev; cases "the ev") (auto simp: RemoveReply_step_def Let_def)
    then show ?thesis using kept_same by simp
  next
    case none
    then have "dview c = dview ctx" using action_quiet [OF act] by (auto simp: quiet_def)
    then show ?thesis using kept_same by (simp add: dview_def)
  qed
  then show ?thesis using inv vinv_kept by (simp add: vol_inv_def)
qed

lemma launched_vol: "launched ctx \<Longrightarrow> vol_inv ctx"
  by (auto simp: launched_def Launch_def InitContext_def Let_def log_call_def vol_inv_def vinv_def
      split: if_splits prod.splits option.splits)

lemma quiet_vol: "quiet ctx ctx' \<Longrightarrow> vol_inv ctx \<Longrightarrow> vol_inv ctx'"
  by (simp add: quiet_def dview_def vol_inv_def)

lemma exec_vol:
  assumes inv: "vol_inv ctx" and step: "sb_exec l ctx = Next ctx'"
  shows "vol_inv ctx'"
proof -
  have hub: "quiet ctx (ctx\<lparr>sb_Hub := h\<rparr>)" "quiet ctx (ctx\<lparr>sb_timer := t, sb_Hub := h\<rparr>)" for h t
    by (auto simp: view_defs intro!: quietI)
  show ?thesis
  proof (cases l)
    case (Go n e)
    then obtain c acts where "action_step (hd (sb_go ctx ! n)) e ctx = Next (c, acts)"
      "ctx' = c\<lparr>sb_go := (sb_go c)[n := acts @ tl (sb_go ctx ! n)]\<rparr>"
      using step by (auto simp: go_step_def split: outcome.splits if_splits)
    then show ?thesis using action_vol [OF inv] by (simp add: vol_inv_def)
  next
    case (CallAddContainer c ch)
    then show ?thesis using AddContainer_vol [OF inv] step by (auto simp: lift_crash_def split: option.splits)
  next
    case (CallAddVolume v ch)
    then show ?thesis using AddVolume_vol [OF inv] step by (auto simp: lift_crash_def split: option.splits)
  qed (use inv step hub RemoveVolume_vol [OF inv] RemoveContainer_vol [OF inv] quiet_vol [OF _ inv] quiet_calls
      quiet_AddInterface quiet_RemoveInterface quiet_UpdateInterface quiet_reports(3)
      in \<open>auto simp: lift_crash_def split: if_splits option.splits\<close>)
qed

interpretation volume_names: sandbox_invariant vol_inv
  by unfold_locales (rule launched_vol exec_vol, assumption+)+

end
