(* ===== verification/Restore.thy ===== *)
theory Restore
  imports Persistence VolumeInv SandboxProps
begin

text \<open>
  A sandbox that is saved and restored: the restored sandbox has the volumes, the containers and the
  counters of the old one, and satisfies its invariants again.
\<close>

lemma fold_gput_fresh:
  assumes "distinct (map f xs)" "\<forall>x \<in> set xs. gget m (f x) = None"
  shows "fold (\<lambda>x. gput (f x) (g x)) xs m = m @ map (\<lambda>x. (f x, g x)) xs"
  using assms
proof (induction xs arbitrary: m)
  case (Cons x xs)
  then have eq: "gput (f x) (g x) m = m @ [(f x, g x)]" by (simp add: gput_absent)
  have "\<forall>y \<in> set xs. gget (gput (f x) (g x) m) (f y) = None"
    using Cons.prems by (simp, metis image_eqI)
  then show ?case using Cons.IH [of "gput (f x) (g x) m"] Cons.prems(1) eq by simp
qed simp

section \<open>Volumes\<close>

definition vlist :: "(string, dref list) gomap \<Rightarrow> string \<Rightarrow> dref set" where
  "vlist vm cid = (case gget vm cid of None \<Rightarrow> {} | Some ds \<Rightarrow> set ds)"

lemma vlist_Nil [simp]: "vlist [] cid = {}"
  by (simp add: vlist_def)

abbreviation vm_add1 :: "dref \<Rightarrow> string list \<Rightarrow> (string, dref list) gomap \<Rightarrow> (string, dref list) gomap" where
  "vm_add1 d ids vm \<equiv> fold (\<lambda>cid vm. gput cid ((case gget vm cid of None \<Rightarrow> [] | Some ds \<Rightarrow> ds) @ [d]) vm) ids vm"

fun vm_add :: "dref \<Rightarrow> string list list \<Rightarrow> (string, dref list) gomap \<Rightarrow> (string, dref list) gomap" where
  "vm_add d [] vm = vm"
| "vm_add d (ids # idss) vm = vm_add (Suc d) idss (vm_add1 d ids vm)"

lemma vlist_add1: "vlist (vm_add1 d ids vm) cid = vlist vm cid \<union> (if cid \<in> set ids then {d} else {})"
proof (induction ids arbitrary: vm)
  case (Cons i ids)
  let ?vm = "gput i ((case gget vm i of None \<Rightarrow> [] | Some ds \<Rightarrow> ds) @ [d]) vm"
  have "vlist ?vm cid = vlist vm cid \<union> (if cid = i then {d} else {})"
    by (auto simp: vlist_def split: option.splits)
  then show ?case using Cons [of ?vm] by auto
qed simp

lemma vlist_add: "vlist (vm_add d idss vm) cid = vlist vm cid \<union> {d + i |i. i < length idss \<and> cid \<in> set (idss ! i)}"
proof (induction idss arbitrary: d vm)
  case (Cons ids idss)
  have "{d + i |i. i < length (ids # idss) \<and> cid \<in> set ((ids # idss) ! i)} =
      (if cid \<in> set ids then {d} else {}) \<union> {Suc d + i |i. i < length idss \<and> cid \<in> set (idss ! i)}"
    (is "?L = ?R")
  proof (intro set_eqI iffI)
    fix x assume "x \<in> ?L"
    then obtain i where "x = d + i" "i < Suc (length idss)" "cid \<in> set ((ids # idss) ! i)" by auto
    then show "x \<in> ?R" by (cases i) auto
  next
    fix x assume "x \<in> ?R"
    then consider "x = d" "cid \<in> set ids" | i where "x = Suc d + i" "i < length idss" "cid \<in> set (idss ! i)"
      by (auto split: if_splits)
    then show "x \<in> ?L"
    proof cases
      case 1
      then show ?thesis by (auto intro: exI [of _ 0])
    next
      case 2
      then show ?thesis by (auto intro: exI [of _ "Suc i"])
    qed
  qed
  then show ?case using Cons [of "Suc d" "vm_add1 d ids vm"] vlist_add1 [of d ids vm cid] by auto
qed simp

definition restored_disk :: "PersistVolumeInfo \<Rightarrow> DiskContext" where
  "restored_disk v = \<lparr>dc_desc = blockInfo v, dc_isRootVol = False, dc_ready = True, dc_observers = []\<rparr>"

lemma blockInfo_name: "dd_Name (blockInfo v) = pv_Name v"
  by (simp add: blockInfo_def)

lemma load_volumes_volumes:
  assumes "\<forall>v \<in> set vs. \<not> pv_IsRootVol v" "distinct (map pv_Name vs)" "\<forall>v \<in> set vs. gget (sb_volumes c) (pv_Name v) = None"
  shows "load_volumes (vs @ rest) im vm c =
    load_volumes rest im (vm_add (length (h_disks c)) (map pv_ContainerIds vs) vm)
      (c\<lparr>h_disks := h_disks c @ map restored_disk vs,
         sb_volumes := sb_volumes c @ zip (map pv_Name vs) [length (h_disks c)..<length (h_disks c) + length vs]\<rparr>)"
  using assms
proof (induction vs arbitrary: vm c)
  case (Cons v vs)
  let ?n = "length (h_disks c)"
  let ?c' = "c\<lparr>h_disks := h_disks c @ [restored_disk v], sb_volumes := sb_volumes c @ [(pv_Name v, ?n)]\<rparr>"
  have step: "load_volumes ((v # vs) @ rest) im vm c = load_volumes (vs @ rest) im (vm_add1 ?n (pv_ContainerIds v) vm) ?c'"
    using Cons.prems by (simp add: new_disk_def restored_disk_def Let_def gput_absent blockInfo_name)
  have "[?n..<?n + length (v # vs)] = ?n # [Suc ?n..<Suc ?n + length vs]" by (simp add: upt_conv_Cons del: upt_Suc)
  moreover have "\<forall>u \<in> set vs. gget (sb_volumes ?c') (pv_Name u) = None"
    using Cons.prems by (simp, metis image_eqI)
  ultimately show ?case
    unfolding step using Cons.IH [of ?c' "vm_add1 ?n (pv_ContainerIds v) vm"] Cons.prems(1,2) by (simp del: upt_Suc)
qed simp

lemma load_volumes_roots:
  assumes "\<forall>v \<in> set vs. pv_IsRootVol v \<and> (\<exists>cid. pv_ContainerIds v = [cid])"
  shows "load_volumes vs im vm c = Inr (fold (\<lambda>v. gput (hd (pv_ContainerIds v)) (blockInfo v)) vs im, vm, c)"
  using assms by (induction vs arbitrary: im) (auto simp: Let_def)

section \<open>Containers\<close>

lemma wait_restored_props:
  assumes "\<forall>d \<in> set ds. d < length (h_disks c) \<and> dc_ready (h_disks c ! d)"
  shows "\<exists>disks'. wait_restored ds cid w c = c\<lparr>h_disks := disks'\<rparr> \<and> length disks' = length (h_disks c) \<and>
    (\<forall>e < length (h_disks c). dc_ready (disks' ! e) = dc_ready (h_disks c ! e) \<and> dc_desc (disks' ! e) = dc_desc (h_disks c ! e) \<and>
      obs disks' e = (if e \<in> set ds \<and> gget (obs (h_disks c) e) cid = None then gput cid w (obs (h_disks c) e)
        else obs (h_disks c) e))"
  using assms
proof (induction ds arbitrary: c)
  case Nil
  show ?case by (rule exI [of _ "h_disks c"]) simp
next
  case (Cons d ds)
  let ?f = "\<lambda>dc. if gget (dc_observers dc) cid = None then dc\<lparr>dc_observers := gput cid w (dc_observers dc)\<rparr> else dc"
  let ?c1 = "c\<lparr>h_disks := hupd d ?f (h_disks c)\<rparr>"
  have d: "d < length (h_disks c)" "dc_ready (h_disks c ! d)" using Cons.prems by auto
  have c1: "disk_wait d cid w c = ?c1"
    using d by (auto simp: disk_wait_def disk_def upd_disk_def Let_def hupd_def)
  have "\<forall>d \<in> set ds. d < length (h_disks ?c1) \<and> dc_ready (h_disks ?c1 ! d)"
    using Cons.prems by (auto simp: hupd_def nth_list_update)
  from Cons.IH [OF this] obtain disks' where disks': "wait_restored ds cid w ?c1 = ?c1\<lparr>h_disks := disks'\<rparr>"
    "length disks' = length (h_disks ?c1)"
    "\<forall>e < length (h_disks ?c1). dc_ready (disks' ! e) = dc_ready (h_disks ?c1 ! e) \<and> dc_desc (disks' ! e) = dc_desc (h_disks ?c1 ! e) \<and>
      obs disks' e = (if e \<in> set ds \<and> gget (obs (h_disks ?c1) e) cid = None then gput cid w (obs (h_disks ?c1) e) else obs (h_disks ?c1) e)"
    by blast
  have "dc_ready (disks' ! e) = dc_ready (h_disks c ! e) \<and> dc_desc (disks' ! e) = dc_desc (h_disks c ! e) \<and>
      obs disks' e = (if e \<in> set (d # ds) \<and> gget (obs (h_disks c) e) cid = None then gput cid w (obs (h_disks c) e)
        else obs (h_disks c) e)" if e: "e < length (h_disks c)" for e
  proof -
    have *: "dc_ready (disks' ! e) = dc_ready (h_disks ?c1 ! e)" "dc_desc (disks' ! e) = dc_desc (h_disks ?c1 ! e)"
      "obs disks' e = (if e \<in> set ds \<and> gget (obs (h_disks ?c1) e) cid = None then gput cid w (obs (h_disks ?c1) e) else obs (h_disks ?c1) e)"
      using disks'(3) e by (simp_all add: hupd_def)
    show ?thesis
    proof (cases "e = d")
      case True
      then have "h_disks ?c1 ! e = ?f (h_disks c ! e)" using d by (simp add: hupd_def)
      then show ?thesis using * True by simp
    next
      case False
      then have "h_disks ?c1 ! e = h_disks c ! e" by (simp add: hupd_def)
      then show ?thesis using * False by simp
    qed
  qed
  then show ?case using disks'(1,2) c1 by (intro exI [of _ disks']) (simp add: hupd_def)
qed

text \<open>
  The description of a restored container, and the state behind a number of restored containers
  \<open>done\<close>: the \<open>n\<close> volumes come first on the heap, the roots follow.
\<close>

definition restored_desc :: "VmContext \<Rightarrow> (string, dref list) gomap \<Rightarrow> string \<times> ContainerDescription \<Rightarrow> ContainerDescription" where
  "restored_desc c4 vm p =
     (case gget vm (fst p) of None \<Rightarrow> snd p | Some ds \<Rightarrow> (snd p)\<lparr>cd_Volumes := restored_volumes c4 ds\<rparr>)"

definition volume_ok :: "VmContext \<Rightarrow> (string, dref list) gomap \<Rightarrow> string set \<Rightarrow> VmContext \<Rightarrow> nat \<Rightarrow> bool" where
  "volume_ok c4 vm C c i \<longleftrightarrow>
     dc_ready (h_disks c ! i) \<and> dc_desc (h_disks c ! i) = dc_desc (h_disks c4 ! i) \<and> gwf (obs (h_disks c) i) \<and>
     okeys (h_disks c) i = {cid \<in> C. i \<in> vlist vm cid} \<and> set (gvals (obs (h_disks c) i)) \<subseteq> {..<length (h_wgs c)}"

definition root_ok :: "(string, DiskDescriptor) gomap \<Rightarrow> VmContext \<Rightarrow> string \<Rightarrow> nat \<Rightarrow> bool" where
  "root_ok im c cid i \<longleftrightarrow>
     dc_ready (h_disks c ! i) \<and> Some (dc_desc (h_disks c ! i)) = gget im cid \<and>
     (\<exists>w < length (h_wgs c). obs (h_disks c) i = [(cid, w)])"

definition rinv ::
  "VmContext \<Rightarrow> (string, DiskDescriptor) gomap \<Rightarrow> (string, dref list) gomap \<Rightarrow> (string \<times> ContainerDescription) list \<Rightarrow> VmContext \<Rightarrow> bool" where
  "rinv c4 im vm ds c \<longleftrightarrow>
     (let n = length (h_disks c4) in
      c\<lparr>h_disks := [], h_wgs := [], sb_containers := []\<rparr> = c4\<lparr>h_disks := [], h_wgs := [], sb_containers := []\<rparr> \<and>
      length (h_disks c) = n + length ds \<and> set (h_wgs c) \<subseteq> {0} \<and>
      (\<forall>i < n. volume_ok c4 vm (set (map fst ds)) c i) \<and>
      (\<forall>j < length ds. root_ok im c (fst (ds ! j)) (n + j)) \<and>
      sb_containers c = map (\<lambda>j. (fst (ds ! j), \<lparr>cc_desc = restored_desc c4 vm (ds ! j), cc_root = n + j\<rparr>)) [0..<length ds])"

lemma restored_volumes_cong:
  "(\<And>d. d \<in> set ds \<Longrightarrow> dc_desc (disk c d) = dc_desc (disk c' d)) \<Longrightarrow> restored_volumes c ds = restored_volumes c' ds"
  unfolding restored_volumes_def by (rule fold_cong) simp_all

lemma load_container_rinv:
  assumes inv: "rinv c4 im vm ds c" and new: "cid \<notin> set (map fst ds)" and cid: "cd_Id des = cid"
    and im: "gget im cid = Some b" and vl: "vlist vm cid \<subseteq> {..<length (h_disks c4)}"
  shows "rinv c4 im vm (ds @ [(cid, des)]) (load_container vm b cid des c)"
proof -
  let ?n = "length (h_disks c4)" and ?r = "length (h_disks c)" and ?w = "length (h_wgs c)"
  let ?root = "\<lparr>dc_desc = b, dc_isRootVol = True, dc_ready = True, dc_observers = []\<rparr>"
  let ?c2 = "c\<lparr>h_disks := h_disks c @ [?root], h_wgs := h_wgs c @ [0]\<rparr>"
  let ?vl = "case gget vm cid of None \<Rightarrow> [] | Some volList \<Rightarrow> volList"
  have i: "c\<lparr>h_disks := [], h_wgs := [], sb_containers := []\<rparr> = c4\<lparr>h_disks := [], h_wgs := [], sb_containers := []\<rparr>"
    "?r = ?n + length ds" "set (h_wgs c) \<subseteq> {0}" "\<And>i. i < ?n \<Longrightarrow> volume_ok c4 vm (set (map fst ds)) c i"
    "\<And>j. j < length ds \<Longrightarrow> root_ok im c (fst (ds ! j)) (?n + j)"
    "sb_containers c = map (\<lambda>j. (fst (ds ! j), \<lparr>cc_desc = restored_desc c4 vm (ds ! j), cc_root = ?n + j\<rparr>)) [0..<length ds]"
    using inv by (simp_all add: rinv_def Let_def)
  have vs: "set ?vl = vlist vm cid" by (auto simp: vlist_def split: option.split)
  have ready: "\<forall>d \<in> set ?vl. d < length (h_disks ?c2) \<and> dc_ready (h_disks ?c2 ! d)"
    using vl i(2) i(4) unfolding vs by (auto simp: nth_append volume_ok_def)
  obtain disks where w: "wait_restored ?vl cid ?w ?c2 = ?c2\<lparr>h_disks := disks\<rparr>" "length disks = Suc ?r"
    and d: "\<And>e. e < Suc ?r \<Longrightarrow> dc_ready (disks ! e) = dc_ready (h_disks ?c2 ! e) \<and> dc_desc (disks ! e) = dc_desc (h_disks ?c2 ! e) \<and>
      obs disks e = (if e \<in> vlist vm cid \<and> gget (obs (h_disks ?c2) e) cid = None then gput cid ?w (obs (h_disks ?c2) e)
        else obs (h_disks ?c2) e)"
  proof -
    have len: "length (h_disks ?c2) = Suc ?r" by simp
    show ?thesis using wait_restored_props [OF ready, of cid ?w] that unfolding vs len by blast
  qed
  let ?disks = "disks[?r := (disks ! ?r)\<lparr>dc_observers := [(cid, ?w)]\<rparr>]"
  let ?cc = "\<lparr>cc_desc = restored_desc c4 vm (cid, des), cc_root = ?r\<rparr>"
  have r: "?r \<notin> vlist vm cid" using vl i(2) by auto
  then have dr: "dc_ready (disks ! ?r)" "dc_desc (disks ! ?r) = b" "obs disks ?r = []"
    using d [of ?r] by simp_all
  have names: "restored_volumes ?c2 ?vl = restored_volumes c4 ?vl"
    by (rule restored_volumes_cong) (use vl i(2,4) vs in \<open>auto simp: disk_def nth_append volume_ok_def\<close>)
  have split: "(case gget vm cid of None \<Rightarrow> (des, ?c2)
       | Some volList \<Rightarrow> (des\<lparr>cd_Volumes := restored_volumes ?c2 volList\<rparr>, wait_restored volList cid ?w ?c2)) =
      (restored_desc c4 vm (cid, des), ?c2\<lparr>h_disks := disks\<rparr>)"
    using names w(1) by (auto simp: restored_desc_def split: option.split)
  have keys: "gkeys (sb_containers c) = map fst ds"
    unfolding i(6) by (rule nth_equalityI) simp_all
  have c': "load_container vm b cid des c =
      c\<lparr>h_disks := ?disks, h_wgs := h_wgs c @ [0], sb_containers := sb_containers c @ [(cid, ?cc)]\<rparr>"
  proof -
    have fresh: "gput cid ?cc (sb_containers c) = sb_containers c @ [(cid, ?cc)]"
      by (rule gput_absent) (use new keys in \<open>simp add: gget_None_keys\<close>)
    have "load_container vm b cid des c =
        (let (des', ctx3) = (case gget vm cid of None \<Rightarrow> (des, ?c2)
           | Some volList \<Rightarrow> (des\<lparr>cd_Volumes := restored_volumes ?c2 volList\<rparr>, wait_restored volList cid ?w ?c2));
           ctx4 = disk_wait ?r cid ?w ctx3
         in ctx4\<lparr>sb_containers := gput cid \<lparr>cc_desc = des', cc_root = ?r\<rparr> (sb_containers ctx4)\<rparr>)"
      by (cases "gget vm cid") (simp_all add: load_container_def new_disk_def new_wg_def cid)
    then show ?thesis
      unfolding split using dr w(2) fresh by (simp add: disk_wait_def disk_def upd_disk_def hupd_def Let_def)
  qed
  have old: "?disks ! e = disks ! e" "h_disks ?c2 ! e = h_disks c ! e" if "e < ?r" for e
    using that by (simp_all add: nth_append)
  have vol: "volume_ok c4 vm (set (map fst (ds @ [(cid, des)]))) (load_container vm b cid des c) e" if e: "e < ?n" for e
  proof -
    have v: "volume_ok c4 vm (set (map fst ds)) c e" using i(4) [OF e] .
    have er: "e < ?r" using e i(2) by simp
    have none: "gget (obs (h_disks c) e) cid = None"
      using v new unfolding volume_ok_def gget_None_keys by blast
    have de: "dc_ready (disks ! e)" "dc_desc (disks ! e) = dc_desc (h_disks c4 ! e)"
      "obs disks e = (if e \<in> vlist vm cid then obs (h_disks c) e @ [(cid, ?w)] else obs (h_disks c) e)"
      using d [of e] er v old(2) [OF er] none gput_absent [OF none] by (simp_all add: volume_ok_def)
    show ?thesis
      using v de new unfolding volume_ok_def c' by (auto simp: old(1) [OF er] gget_None_keys less_Suc_eq)
  qed
  have roots: "root_ok im (load_container vm b cid des c) (fst ((ds @ [(cid, des)]) ! j)) (?n + j)" if j: "j < Suc (length ds)" for j
  proof (cases "j = length ds")
    case True
    then show ?thesis using i(2) w(2) dr im unfolding root_ok_def c' by (simp add: nth_append)
  next
    case False
    then have j: "j < length ds" using j by simp
    have er: "?n + j < ?r" "?n + j \<notin> vlist vm cid" using j i(2) vl by auto
    have "dc_ready (disks ! (?n + j)) = dc_ready (h_disks c ! (?n + j))" "dc_desc (disks ! (?n + j)) = dc_desc (h_disks c ! (?n + j))"
      "obs disks (?n + j) = obs (h_disks c) (?n + j)"
      using d [of "?n + j"] er old(2) [OF er(1)] by simp_all
    then show ?thesis
      using i(5) [OF j] j unfolding root_ok_def c' by (auto simp: old(1) [OF er(1)] nth_append)
  qed
  show ?thesis
    unfolding rinv_def Let_def
  proof (intro conjI allI impI)
    show "(load_container vm b cid des c)\<lparr>h_disks := [], h_wgs := [], sb_containers := []\<rparr> =
        c4\<lparr>h_disks := [], h_wgs := [], sb_containers := []\<rparr>"
      using i(1) unfolding c' by simp
    show "sb_containers (load_container vm b cid des c) = map (\<lambda>j. (fst ((ds @ [(cid, des)]) ! j),
        \<lparr>cc_desc = restored_desc c4 vm ((ds @ [(cid, des)]) ! j), cc_root = ?n + j\<rparr>)) [0..<length (ds @ [(cid, des)])]"
      using i(2,6) unfolding c' by (auto simp: nth_append)
  qed (use vol roots i(2,3) w(2) c' in auto)
qed

lemma load_containers_rinv:
  assumes "rinv c4 im vm ds c" "distinct (map fst (ds @ cs))"
    "\<forall>(cid, des) \<in> set cs. cd_Id des = cid \<and> gget im cid \<noteq> None \<and> vlist vm cid \<subseteq> {..<length (h_disks c4)}"
  shows "\<exists>c'. load_containers im vm cs c = Inr c' \<and> rinv c4 im vm (ds @ cs) c'"
  using assms
proof (induction cs arbitrary: ds c)
  case (Cons p cs)
  obtain cid des where p: "p = (cid, des)" by force
  obtain b where b: "gget im cid = Some b" using Cons.prems(3) p by auto
  have "rinv c4 im vm (ds @ [(cid, des)]) (load_container vm b cid des c)"
    by (rule load_container_rinv [OF Cons.prems(1) _ _ b]) (use Cons.prems(2,3) p in auto)
  from Cons.IH [OF this] Cons.prems(2,3) p b show ?case by auto
qed simp

section \<open>The network\<close>

lemma load_infs_frame:
  "(load_infs rnd k ps c)\<lparr>h_infs := [], nc_eth := [], nc_lo := [], nc_idMap := []\<rparr> =
   c\<lparr>h_infs := [], nc_eth := [], nc_lo := [], nc_idMap := []\<rparr>"
proof (induction ps arbitrary: k c)
  case (Cons p ps)
  have "(load_inf r p c)\<lparr>h_infs := [], nc_eth := [], nc_lo := [], nc_idMap := []\<rparr> =
      c\<lparr>h_infs := [], nc_eth := [], nc_lo := [], nc_idMap := []\<rparr>" for r
    by (simp add: load_inf_def new_inf_def Let_def)
  then show ?case using Cons by simp
qed simp

text \<open>The part of a context that the network does not touch.\<close>

definition core :: "VmContext \<Rightarrow> VmContext" where
  "core c = c\<lparr>h_infs := [], nc_eth := [], nc_lo := [], nc_idMap := [], nc_config := None, nc_ports := []\<rparr>"

lemma core_fields:
  "core c = core c' \<Longrightarrow> sb_Id c = sb_Id c' \<and> sb_PauseState c = sb_PauseState c' \<and> sb_pciAddr c = sb_pciAddr c' \<and>
     sb_scsiId c = sb_scsiId c' \<and> sb_GuestCid c = sb_GuestCid c' \<and> sb_volumes c = sb_volumes c' \<and>
     sb_containers c = sb_containers c' \<and> h_disks c = h_disks c' \<and> h_wgs c = h_wgs c' \<and> sb_go c = sb_go c'"
  by (cases c; cases c') (simp add: core_def)

lemma networks_load_core: "networks_load rnd pinfo c = Some c' \<Longrightarrow> core c' = core c"
proof -
  assume "networks_load rnd pinfo c = Some c'"
  then obtain ps k cfg ports where c': "c' = load_infs rnd k ps (c\<lparr>nc_config := cfg, nc_ports := ports\<rparr>)"
    by (auto simp: networks_load_def split: if_splits)
  show ?thesis
    using arg_cong [OF load_infs_frame [of rnd k ps "c\<lparr>nc_config := cfg, nc_ports := ports\<rparr>"],
        of "\<lambda>c. c\<lparr>nc_config := None, nc_ports := []\<rparr>"]
    unfolding c' core_def by simp
qed

section \<open>Volumes and containers of a dump\<close>

definition saved_volumes :: "VmContext \<Rightarrow> PersistVolumeInfo list" where
  "saved_volumes ctx = map (dump_volume ctx) (gvals (sb_volumes ctx))"

definition saved_roots :: "VmContext \<Rightarrow> PersistVolumeInfo list" where
  "saved_roots ctx = map (dump_root ctx) (gvals (sb_containers ctx))"

definition saved_containers :: "VmContext \<Rightarrow> (string \<times> ContainerDescription) list" where
  "saved_containers ctx = map (\<lambda>(cid, cc). (cid, cc_desc cc)) (sb_containers ctx)"

lemma container_ids:
  assumes "disk_inv {} ctx"
  shows "gwf (sb_containers ctx)" "map (\<lambda>c. cd_Id (cc_desc c)) (gvals (sb_containers ctx)) = gkeys (sb_containers ctx)"
    "gwf (sb_volumes ctx)"
proof -
  show "gwf (sb_containers ctx)" "gwf (sb_volumes ctx)" using assms by (simp_all add: disk_inv_def dinv_def att_ok_def)
  have "\<And>cid cc. (cid, cc) \<in> set (sb_containers ctx) \<Longrightarrow> cd_Id (cc_desc cc) = cid"
    using assms by (auto simp: disk_inv_def dinv_def use_ok_def)
  then show "map (\<lambda>c. cd_Id (cc_desc c)) (gvals (sb_containers ctx)) = gkeys (sb_containers ctx)" by auto
qed

lemma fold_containers:
  assumes "disk_inv {} ctx"
  shows "fold (\<lambda>c. gput (cd_Id (cc_desc c)) (g c)) (gvals (sb_containers ctx)) [] =
    map (\<lambda>c. (cd_Id (cc_desc c), g c)) (gvals (sb_containers ctx))"
proof -
  have "distinct (map (\<lambda>c. cd_Id (cc_desc c)) (gvals (sb_containers ctx)))"
    unfolding container_ids(2) [OF assms] by (rule container_ids(1) [OF assms])
  from fold_gput_fresh [OF this, of "[]" g] show ?thesis by simp
qed

lemma volume_names:
  assumes "vol_inv ctx" "gwf (sb_volumes ctx)"
  shows "map pv_Name (saved_volumes ctx) = gkeys (sb_volumes ctx)"
proof -
  have "pv_Name (dump_volume ctx d) = n" if "(n, d) \<in> set (sb_volumes ctx)" for n d
    using assms that by (auto simp: vol_inv_def vinv_def dname_def dump_volume_def dd_dump_def disk_def)
  then show ?thesis by (auto simp: saved_volumes_def)
qed

lemma saved_dump:
  assumes "disk_inv {} ctx" "dump dr seq ctx = Some (Inr pinfo)"
  shows "pi_VolumeList pinfo = saved_volumes ctx @ saved_roots ctx" "pi_Containers pinfo = saved_containers ctx"
proof -
  show "pi_VolumeList pinfo = saved_volumes ctx @ saved_roots ctx"
    using assms(2) by (auto simp: dump_def saved_volumes_def saved_roots_def split: sum.splits option.splits)
  have "pi_Containers pinfo = fold (\<lambda>c. gput (cd_Id (cc_desc c)) (cc_desc c)) (gvals (sb_containers ctx)) []"
    using assms(2) by (auto simp: dump_def split: sum.splits option.splits)
  also have "... = map (\<lambda>c. (cd_Id (cc_desc c), cc_desc c)) (gvals (sb_containers ctx))"
    by (rule fold_containers [OF assms(1)])
  also have "... = saved_containers ctx"
    using container_ids(2) [OF assms(1)] by (auto simp: saved_containers_def)
  finally show "pi_Containers pinfo = saved_containers ctx" .
qed

lemma load_saved:
  assumes inv: "disk_inv {} ctx" "vol_inv ctx"
    and c: "h_disks c = []" "h_wgs c = []" "sb_volumes c = []" "sb_containers c = []"
  defines "n \<equiv> length (sb_volumes ctx)"
  obtains im vm c4 c' where
    "load_volumes (saved_volumes ctx @ saved_roots ctx) [] [] c = Inr (im, vm, c4)"
    "load_containers im vm (saved_containers ctx) c4 = Inr c'"
    "rinv c4 im vm (saved_containers ctx) c'"
    "c4 = c\<lparr>h_disks := map restored_disk (saved_volumes ctx), sb_volumes := zip (gkeys (sb_volumes ctx)) [0..<n]\<rparr>"
    "\<And>cid. vlist vm cid = {i. i < n \<and> cid \<in> okeys (h_disks ctx) (snd (sb_volumes ctx ! i))}"
    "im = map (\<lambda>cc. (cd_Id (cc_desc cc), blockInfo (dump_root ctx cc))) (gvals (sb_containers ctx))"
proof -
  note ids = container_ids [OF inv(1)]
  note names = volume_names [OF inv(2) ids(3)]
  let ?vs = "saved_volumes ctx"
  let ?c4 = "c\<lparr>h_disks := map restored_disk ?vs, sb_volumes := zip (gkeys (sb_volumes ctx)) [0..<n]\<rparr>"
  let ?vm = "vm_add 0 (map pv_ContainerIds ?vs) []"
  let ?im = "map (\<lambda>cc. (cd_Id (cc_desc cc), blockInfo (dump_root ctx cc))) (gvals (sb_containers ctx))"
  have len: "length ?vs = n" by (simp add: saved_volumes_def n_def)
  have "load_volumes (?vs @ saved_roots ctx) [] [] c = load_volumes (saved_roots ctx) [] ?vm ?c4"
  proof -
    have "\<forall>v \<in> set ?vs. \<not> pv_IsRootVol v" by (auto simp: saved_volumes_def dump_volume_def dd_dump_def)
    moreover have "distinct (map pv_Name ?vs)" unfolding names by (rule ids(3))
    ultimately have "load_volumes (?vs @ saved_roots ctx) [] [] c = load_volumes (saved_roots ctx) []
        (vm_add (length (h_disks c)) (map pv_ContainerIds ?vs) [])
        (c\<lparr>h_disks := h_disks c @ map restored_disk ?vs,
           sb_volumes := sb_volumes c @ zip (map pv_Name ?vs) [length (h_disks c)..<length (h_disks c) + length ?vs]\<rparr>)"
      by (intro load_volumes_volumes) (simp_all add: c)
    then show ?thesis unfolding names len by (simp add: c)
  qed
  also have "... = Inr (fold (\<lambda>v. gput (hd (pv_ContainerIds v)) (blockInfo v)) (saved_roots ctx) [], ?vm, ?c4)"
    by (rule load_volumes_roots) (auto simp: saved_roots_def dump_root_def)
  also have "fold (\<lambda>v. gput (hd (pv_ContainerIds v)) (blockInfo v)) (saved_roots ctx) [] = ?im"
  proof -
    have "fold (\<lambda>v. gput (hd (pv_ContainerIds v)) (blockInfo v)) (saved_roots ctx) [] =
        fold (\<lambda>c. gput (cd_Id (cc_desc c)) (blockInfo (dump_root ctx c))) (gvals (sb_containers ctx)) []"
      by (simp add: saved_roots_def fold_map comp_def) (simp add: dump_root_def)
    then show ?thesis using fold_containers [OF inv(1)] by simp
  qed
  finally have vols: "load_volumes (?vs @ saved_roots ctx) [] [] c = Inr (?im, ?vm, ?c4)" .
  have vl: "vlist ?vm cid = {i. i < n \<and> cid \<in> okeys (h_disks ctx) (snd (sb_volumes ctx ! i))}" for cid
  proof -
    have ids: "pv_ContainerIds (?vs ! i) = gkeys (obs (h_disks ctx) (snd (sb_volumes ctx ! i)))" if "i < n" for i
      using that by (simp add: saved_volumes_def dump_volume_def disk_def n_def)
    have "vlist ?vm cid = {i. i < n \<and> cid \<in> set (pv_ContainerIds (?vs ! i))}"
      by (rule set_eqI) (simp add: vlist_add len cong: conj_cong)
    then show ?thesis by (simp only: ids cong: conj_cong)
  qed
  have start: "rinv ?c4 ?im ?vm [] ?c4"
    using c len by (auto simp: rinv_def volume_ok_def restored_disk_def)
  have dist: "distinct (map fst ([] @ saved_containers ctx))"
    using ids(1) by (simp add: saved_containers_def comp_def case_prod_beta)
  have all: "\<forall>(cid, des) \<in> set (saved_containers ctx). cd_Id des = cid \<and> gget ?im cid \<noteq> None \<and> vlist ?vm cid \<subseteq> {..<length (h_disks ?c4)}"
  proof -
    have "vlist ?vm cid \<subseteq> {..<length (h_disks ?c4)}" for cid using vl [of cid] len by auto
    moreover have "cd_Id (cc_desc cc) = cid \<and> gget ?im cid \<noteq> None" if "(cid, cc) \<in> set (sb_containers ctx)" for cid cc
    proof -
      have "cid \<in> set (gkeys ?im)" using that ids(2) by (force simp: comp_def)
      then show ?thesis using that inv(1) by (auto simp: gget_None_keys disk_inv_def dinv_def use_ok_def)
    qed
    ultimately show ?thesis by (auto simp: saved_containers_def)
  qed
  obtain c' where "load_containers ?im ?vm (saved_containers ctx) ?c4 = Inr c'" "rinv ?c4 ?im ?vm (saved_containers ctx) c'"
    using load_containers_rinv [OF start dist all] by auto
  then show thesis using that [OF vols] vl by blast
qed

section \<open>The round trip\<close>

text \<open>
  What the saved data keeps of a disk, and when a restored sandbox \<open>r\<close> is the old one \<open>ctx\<close>: the same
  counters, the same volumes with the same waiting containers, and the same containers, whose
  descriptions differ at most in the volume references.
\<close>

definition saved_desc :: "DiskDescriptor \<Rightarrow> DiskDescriptor" where
  "saved_desc dd = dd\<lparr>dd_ScsiAddr := [], dd_DockerVolume := False, dd_ReadOnly := False, dd_Options := []\<rparr>"

definition same_volumes :: "VmContext \<Rightarrow> VmContext \<Rightarrow> bool" where
  "same_volumes ctx r \<longleftrightarrow> gkeys (sb_volumes r) = gkeys (sb_volumes ctx) \<and>
     (\<forall>n d. gget (sb_volumes ctx) n = Some d \<longrightarrow>
        (\<exists>d'. gget (sb_volumes r) n = Some d' \<and> dc_ready (disk r d') \<and> dc_desc (disk r d') = saved_desc (dc_desc (disk ctx d)) \<and>
           okeys (h_disks r) d' = okeys (h_disks ctx) d))"

definition same_containers :: "VmContext \<Rightarrow> VmContext \<Rightarrow> bool" where
  "same_containers ctx r \<longleftrightarrow> gkeys (sb_containers r) = gkeys (sb_containers ctx) \<and>
     (\<forall>cid cc. gget (sb_containers ctx) cid = Some cc \<longrightarrow>
        (\<exists>cc'. gget (sb_containers r) cid = Some cc' \<and>
           (cc_desc cc')\<lparr>cd_Volumes := []\<rparr> = (cc_desc cc)\<lparr>cd_Volumes := []\<rparr> \<and>
           set (gkeys (cd_Volumes (cc_desc cc'))) = set (gkeys (cd_Volumes (cc_desc cc))) \<and>
           dc_ready (disk r (cc_root cc')) \<and> dc_desc (disk r (cc_root cc')) = saved_desc (dc_desc (disk ctx (cc_root cc)))))"

lemma blockInfo_dump: "blockInfo (dd_dump dd) = saved_desc dd"
  by (simp add: blockInfo_def dd_dump_def saved_desc_def)

lemma blockInfo_saved: "blockInfo (dump_volume ctx d) = saved_desc (dc_desc (disk ctx d))"
  "blockInfo (dump_root ctx cc) = saved_desc (dc_desc (disk ctx (cc_root cc)))"
  by (simp_all add: dump_volume_def dump_root_def blockInfo_def dd_dump_def saved_desc_def)

lemma restored_volume_names:
  "set (gkeys (restored_volumes c ds)) = {dd_Name (dc_desc (disk c d)) |d. d \<in> set ds}"
proof -
  have "set (gkeys (fold (\<lambda>d. gput (f d) v) ds m)) = f ` set ds \<union> set (gkeys m)"
    for f :: "dref \<Rightarrow> string" and v :: VolumeReference and m
    by (induction ds arbitrary: m) (auto simp: gkeys_gput simp del: set_map)
  then show ?thesis unfolding restored_volumes_def by auto
qed

definition restored_from ::
  "VmContext \<Rightarrow> VmContext \<Rightarrow> VmContext \<Rightarrow> (string, DiskDescriptor) gomap \<Rightarrow> (string, dref list) gomap \<Rightarrow> VmContext \<Rightarrow> bool" where
  "restored_from ctx c c4 im vm r \<longleftrightarrow>
     disk_inv {} ctx \<and> vol_inv ctx \<and> sb_go c = [] \<and>
     c4 = c\<lparr>h_disks := map restored_disk (saved_volumes ctx), sb_volumes := zip (gkeys (sb_volumes ctx)) [0..<length (sb_volumes ctx)]\<rparr> \<and>
     (\<forall>cid. vlist vm cid = {i. i < length (sb_volumes ctx) \<and> cid \<in> okeys (h_disks ctx) (snd (sb_volumes ctx ! i))}) \<and>
     im = map (\<lambda>cc. (cd_Id (cc_desc cc), blockInfo (dump_root ctx cc))) (gvals (sb_containers ctx)) \<and>
     rinv c4 im vm (saved_containers ctx) r"

lemma restored_fields:
  assumes "restored_from ctx c c4 im vm r"
  shows "sb_volumes r = zip (gkeys (sb_volumes ctx)) [0..<length (sb_volumes ctx)]" "sb_go r = []"
    "length (h_disks r) = length (sb_volumes ctx) + length (sb_containers ctx)" "set (h_wgs r) \<subseteq> {0}"
    "r\<lparr>h_disks := [], h_wgs := [], sb_containers := [], sb_volumes := []\<rparr> = c\<lparr>h_disks := [], h_wgs := [], sb_containers := [], sb_volumes := []\<rparr>"
proof -
  have *: "r\<lparr>h_disks := [], h_wgs := [], sb_containers := []\<rparr> = c4\<lparr>h_disks := [], h_wgs := [], sb_containers := []\<rparr>"
    "length (h_disks r) = length (h_disks c4) + length (saved_containers ctx)" "set (h_wgs r) \<subseteq> {0}"
    "c4 = c\<lparr>h_disks := map restored_disk (saved_volumes ctx), sb_volumes := zip (gkeys (sb_volumes ctx)) [0..<length (sb_volumes ctx)]\<rparr>"
    "sb_go c = []"
    using assms by (simp_all add: restored_from_def rinv_def Let_def)
  show "sb_volumes r = zip (gkeys (sb_volumes ctx)) [0..<length (sb_volumes ctx)]" "sb_go r = []"
    using arg_cong [OF *(1), of sb_volumes] arg_cong [OF *(1), of sb_go] *(4,5) by simp_all
  show "length (h_disks r) = length (sb_volumes ctx) + length (sb_containers ctx)" "set (h_wgs r) \<subseteq> {0}"
    using *(2,3,4) by (simp_all add: saved_volumes_def saved_containers_def)
  show "r\<lparr>h_disks := [], h_wgs := [], sb_containers := [], sb_volumes := []\<rparr> = c\<lparr>h_disks := [], h_wgs := [], sb_containers := [], sb_volumes := []\<rparr>"
    using arg_cong [OF *(1), of "\<lambda>x. x\<lparr>sb_volumes := []\<rparr>"] *(4) by simp
qed

lemma restored_volume:
  assumes rf: "restored_from ctx c c4 im vm r" and i: "i < length (sb_volumes ctx)"
  shows "gget (sb_volumes r) (fst (sb_volumes ctx ! i)) = Some i"
    "gget (sb_volumes ctx) (fst (sb_volumes ctx ! i)) = Some (snd (sb_volumes ctx ! i))"
    "dc_ready (disk r i)" "dc_desc (disk r i) = saved_desc (dc_desc (disk ctx (snd (sb_volumes ctx ! i))))"
    "okeys (h_disks r) i = okeys (h_disks ctx) (snd (sb_volumes ctx ! i))"
    "gwf (obs (h_disks r) i)" "set (gvals (obs (h_disks r) i)) \<subseteq> {..<length (h_wgs r)}"
proof -
  let ?v = "sb_volumes ctx ! i"
  have inv: "disk_inv {} ctx" "vol_inv ctx" using rf by (simp_all add: restored_from_def)
  have wf: "gwf (sb_volumes ctx)" by (rule container_ids(3) [OF inv(1)])
  show "gget (sb_volumes r) (fst ?v) = Some i"
  proof -
    have "(fst ?v, i) \<in> set (sb_volumes r)"
      unfolding restored_fields(1) [OF rf] in_set_zip using i by (intro exI [of _ i]) simp
    moreover have "gwf (sb_volumes r)" unfolding restored_fields(1) [OF rf] using wf by simp
    ultimately show ?thesis by (simp only: gget_Some_iff)
  qed
  show get: "gget (sb_volumes ctx) (fst ?v) = Some (snd ?v)"
    using wf i by (simp only: gget_Some_iff prod.collapse nth_mem)
  have len: "length (h_disks c4) = length (sb_volumes ctx)" and desc: "dc_desc (h_disks c4 ! i) = blockInfo (dump_volume ctx (snd ?v))"
    using rf i by (simp_all add: restored_from_def saved_volumes_def restored_disk_def)
  have ok: "volume_ok c4 vm (set (map fst (saved_containers ctx))) r i"
  proof -
    have "rinv c4 im vm (saved_containers ctx) r" using rf unfolding restored_from_def by blast
    then show ?thesis using i unfolding rinv_def Let_def len by blast
  qed
  then show "dc_ready (disk r i)" "dc_desc (disk r i) = saved_desc (dc_desc (disk ctx (snd ?v)))" "gwf (obs (h_disks r) i)"
    "set (gvals (obs (h_disks r) i)) \<subseteq> {..<length (h_wgs r)}"
    using desc by (simp_all add: volume_ok_def disk_def blockInfo_saved)
  have "okeys (h_disks r) i = {cid \<in> set (gkeys (sb_containers ctx)). cid \<in> okeys (h_disks ctx) (snd ?v)}"
    using ok rf i by (simp add: volume_ok_def restored_from_def saved_containers_def comp_def case_prod_beta del: set_map)
  moreover have "okeys (h_disks ctx) (snd ?v) \<subseteq> set (gkeys (sb_containers ctx))"
  proof (rule subsetI)
    fix cid assume "cid \<in> okeys (h_disks ctx) (snd ?v)"
    then obtain cc where "gget (sb_containers ctx) cid = Some cc"
      using inv(2) get unfolding vol_inv_def vinv_def by blast
    then show "cid \<in> set (gkeys (sb_containers ctx))" by (rule gget_in_keys)
  qed
  ultimately show "okeys (h_disks r) i = okeys (h_disks ctx) (snd ?v)" by blast
qed

lemma restored_volume_index:
  assumes rf: "restored_from ctx c c4 im vm r" and n: "gget (sb_volumes r) n = Some i"
  shows "i < length (sb_volumes ctx)" "n = fst (sb_volumes ctx ! i)"
  using map_of_SomeD [OF n] unfolding restored_fields(1) [OF rf] in_set_zip by auto

lemma restored_same_volumes: "restored_from ctx c c4 im vm r \<Longrightarrow> same_volumes ctx r"
proof -
  assume rf: "restored_from ctx c c4 im vm r"
  have "\<exists>i < length (sb_volumes ctx). sb_volumes ctx ! i = (n, d)" if "gget (sb_volumes ctx) n = Some d" for n d
    using map_of_SomeD [OF that] by (simp only: in_set_conv_nth)
  then have "\<exists>d'. gget (sb_volumes r) n = Some d' \<and> dc_ready (disk r d') \<and> dc_desc (disk r d') = saved_desc (dc_desc (disk ctx d)) \<and>
      okeys (h_disks r) d' = okeys (h_disks ctx) d" if "gget (sb_volumes ctx) n = Some d" for n d
    using that restored_volume(1,3-5) [OF rf] by (metis fst_conv snd_conv)
  moreover have "gkeys (sb_volumes r) = gkeys (sb_volumes ctx)" unfolding restored_fields(1) [OF rf] by simp
  ultimately show ?thesis unfolding same_volumes_def by blast
qed

lemma restored_container:
  assumes rf: "restored_from ctx c c4 im vm r" and j: "j < length (sb_containers ctx)"
  defines "cid \<equiv> fst (sb_containers ctx ! j)" and "cc \<equiv> snd (sb_containers ctx ! j)"
    and "i \<equiv> length (sb_volumes ctx) + j"
  shows "gget (sb_containers ctx) cid = Some cc" "sb_containers r ! j = (cid, \<lparr>cc_desc = restored_desc c4 vm (cid, cc_desc cc), cc_root = i\<rparr>)"
    "dc_ready (disk r i)" "dc_desc (disk r i) = saved_desc (dc_desc (disk ctx (cc_root cc)))"
    "\<exists>w < length (h_wgs r). obs (h_disks r) i = [(cid, w)]"
proof -
  have inv: "disk_inv {} ctx" using rf by (simp add: restored_from_def)
  note ids = container_ids [OF inv]
  have p: "sb_containers ctx ! j = (cid, cc)" "(cid, cc) \<in> set (sb_containers ctx)"
    using j by (simp_all add: cid_def cc_def)
  then show "gget (sb_containers ctx) cid = Some cc" using ids(1) by (simp only: gget_Some_iff)
  have "cd_Id (cc_desc cc) = cid" using p(2) inv by (auto simp: disk_inv_def dinv_def use_ok_def)
  have len: "length (h_disks c4) = length (sb_volumes ctx)" using rf by (simp add: restored_from_def saved_volumes_def)
  have sc: "saved_containers ctx ! j = (cid, cc_desc cc)" "length (saved_containers ctx) = length (sb_containers ctx)"
    using j p(1) by (simp_all add: saved_containers_def)
  have ri: "rinv c4 im vm (saved_containers ctx) r" using rf unfolding restored_from_def by blast
  then have "root_ok im r (fst (saved_containers ctx ! j)) i"
    using j unfolding rinv_def Let_def len sc(2) i_def by blast
  then have ok: "root_ok im r cid i" by (simp add: sc)
  then show "dc_ready (disk r i)" "\<exists>w < length (h_wgs r). obs (h_disks r) i = [(cid, w)]"
    by (simp_all add: root_ok_def disk_def)
  have "sb_containers r = map (\<lambda>j. (fst (saved_containers ctx ! j), \<lparr>cc_desc = restored_desc c4 vm (saved_containers ctx ! j),
      cc_root = length (sb_volumes ctx) + j\<rparr>)) [0..<length (saved_containers ctx)]"
    using ri unfolding rinv_def Let_def len by blast
  then show "sb_containers r ! j = (cid, \<lparr>cc_desc = restored_desc c4 vm (cid, cc_desc cc), cc_root = i\<rparr>)"
    using j sc by (simp add: i_def)
  have im: "im = map (\<lambda>cc. (cd_Id (cc_desc cc), blockInfo (dump_root ctx cc))) (gvals (sb_containers ctx))"
    using rf unfolding restored_from_def by blast
  have "gkeys im = gkeys (sb_containers ctx)"
    unfolding ids(2) [symmetric] im by (simp add: comp_def)
  then have "gwf im" using ids(1) by simp
  moreover have "(cid, blockInfo (dump_root ctx cc)) \<in> set im"
    using p(2) \<open>cd_Id (cc_desc cc) = cid\<close> unfolding im by force
  ultimately have "gget im cid = Some (blockInfo (dump_root ctx cc))" by (simp only: gget_Some_iff)
  then show "dc_desc (disk r i) = saved_desc (dc_desc (disk ctx (cc_root cc)))"
    using ok by (simp add: root_ok_def disk_def blockInfo_saved)
qed

lemma restored_desc_volumes:
  assumes rf: "restored_from ctx c c4 im vm r" and cc: "gget (sb_containers ctx) cid = Some cc"
  shows "set (gkeys (cd_Volumes (restored_desc c4 vm (cid, cc_desc cc)))) = set (gkeys (cd_Volumes (cc_desc cc)))"
    "(restored_desc c4 vm (cid, cc_desc cc))\<lparr>cd_Volumes := []\<rparr> = (cc_desc cc)\<lparr>cd_Volumes := []\<rparr>"
proof -
  show "(restored_desc c4 vm (cid, cc_desc cc))\<lparr>cd_Volumes := []\<rparr> = (cc_desc cc)\<lparr>cd_Volumes := []\<rparr>"
    by (simp add: restored_desc_def split: option.split)
  have inv: "disk_inv {} ctx" "vol_inv ctx" using rf by (simp_all add: restored_from_def)
  have wf: "gwf (sb_volumes ctx)" by (rule container_ids(3) [OF inv(1)])
  have vl: "vlist vm cid = {i. i < length (sb_volumes ctx) \<and> cid \<in> okeys (h_disks ctx) (snd (sb_volumes ctx ! i))}"
    using rf unfolding restored_from_def by blast
  show "set (gkeys (cd_Volumes (restored_desc c4 vm (cid, cc_desc cc)))) = set (gkeys (cd_Volumes (cc_desc cc)))"
  proof (cases "gget vm cid")
    case None
    then show ?thesis by (simp add: restored_desc_def)
  next
    case (Some ds)
    have name: "dd_Name (dc_desc (disk c4 i)) = fst (sb_volumes ctx ! i)" if "i < length (sb_volumes ctx)" for i
      using volume_names [OF inv(2) wf] that rf
      by (simp add: restored_from_def disk_def restored_disk_def blockInfo_name saved_volumes_def)
    have "set ds = vlist vm cid" using Some by (simp add: vlist_def)
    then have "set (gkeys (restored_volumes c4 ds)) = (\<lambda>i. dd_Name (dc_desc (disk c4 i))) ` vlist vm cid"
      unfolding restored_volume_names by blast
    also have "... = (\<lambda>i. fst (sb_volumes ctx ! i)) ` vlist vm cid"
      by (rule image_cong) (use name vl in auto)
    also have "... = {fst (sb_volumes ctx ! i) |i. i < length (sb_volumes ctx) \<and> cid \<in> okeys (h_disks ctx) (snd (sb_volumes ctx ! i))}"
      unfolding vl image_Collect by blast
    also have "... = set (gkeys (cd_Volumes (cc_desc cc)))"
    proof (intro set_eqI iffI)
      fix n assume "n \<in> {fst (sb_volumes ctx ! i) |i. i < length (sb_volumes ctx) \<and> cid \<in> okeys (h_disks ctx) (snd (sb_volumes ctx ! i))}"
      then obtain i where i: "n = fst (sb_volumes ctx ! i)" "i < length (sb_volumes ctx)"
        "cid \<in> okeys (h_disks ctx) (snd (sb_volumes ctx ! i))" by blast
      then have get: "gget (sb_volumes ctx) n = Some (snd (sb_volumes ctx ! i))" using restored_volume(2) [OF rf] by simp
      show "n \<in> set (gkeys (cd_Volumes (cc_desc cc)))"
      proof -
        obtain cc' where "gget (sb_containers ctx) cid = Some cc'" "n \<in> set (gkeys (cd_Volumes (cc_desc cc')))"
          using inv(2) i(3) get unfolding vol_inv_def vinv_def by blast
        then show ?thesis using cc by simp
      qed
    next
      fix n assume "n \<in> set (gkeys (cd_Volumes (cc_desc cc)))"
      then obtain d where d: "gget (sb_volumes ctx) n = Some d" "cid \<in> okeys (h_disks ctx) d"
        using inv(1) map_of_SomeD [OF cc] unfolding disk_inv_def dinv_def use_ok_def by blast
      from map_of_SomeD [OF d(1)] obtain i where "i < length (sb_volumes ctx)" "sb_volumes ctx ! i = (n, d)"
        by (auto simp only: in_set_conv_nth)
      then show "n \<in> {fst (sb_volumes ctx ! i) |i. i < length (sb_volumes ctx) \<and> cid \<in> okeys (h_disks ctx) (snd (sb_volumes ctx ! i))}"
        using d(2) by (metis (mono_tags, lifting) fst_conv mem_Collect_eq snd_conv)
    qed
    finally show ?thesis using Some by (simp add: restored_desc_def)
  qed
qed

lemma restored_keys:
  assumes rf: "restored_from ctx c c4 im vm r"
  shows "length (sb_containers r) = length (sb_containers ctx)" "gkeys (sb_containers r) = gkeys (sb_containers ctx)"
    "gwf (sb_containers r)"
proof -
  have "rinv c4 im vm (saved_containers ctx) r" using rf unfolding restored_from_def by blast
  then have *: "length (sb_containers r) = length (saved_containers ctx)" by (simp add: rinv_def Let_def)
  then show len: "length (sb_containers r) = length (sb_containers ctx)" by (simp add: saved_containers_def)
  show keys: "gkeys (sb_containers r) = gkeys (sb_containers ctx)"
    by (rule nth_equalityI) (use len restored_container(2) [OF rf] in simp_all)
  show "gwf (sb_containers r)"
    unfolding keys using rf container_ids(1) by (simp add: restored_from_def)
qed

lemma restored_container_get:
  assumes rf: "restored_from ctx c c4 im vm r" and cc: "gget (sb_containers ctx) cid = Some cc"
  obtains j where "j < length (sb_containers ctx)" "sb_containers ctx ! j = (cid, cc)"
    "gget (sb_containers r) cid = Some \<lparr>cc_desc = restored_desc c4 vm (cid, cc_desc cc), cc_root = length (sb_volumes ctx) + j\<rparr>"
proof -
  from map_of_SomeD [OF cc] obtain j where j: "j < length (sb_containers ctx)" "sb_containers ctx ! j = (cid, cc)"
    by (auto simp only: in_set_conv_nth)
  have "sb_containers r ! j \<in> set (sb_containers r)" using j restored_keys(1) [OF rf] by simp
  then have "gget (sb_containers r) cid = Some \<lparr>cc_desc = restored_desc c4 vm (cid, cc_desc cc), cc_root = length (sb_volumes ctx) + j\<rparr>"
    using restored_container(2) [OF rf j(1)] j(2) restored_keys(3) [OF rf] by (simp add: gget_Some_iff)
  then show thesis using that j by blast
qed

lemma restored_same_containers: "restored_from ctx c c4 im vm r \<Longrightarrow> same_containers ctx r"
proof -
  assume rf: "restored_from ctx c c4 im vm r"
  have "\<exists>cc'. gget (sb_containers r) cid = Some cc' \<and>
      (cc_desc cc')\<lparr>cd_Volumes := []\<rparr> = (cc_desc cc)\<lparr>cd_Volumes := []\<rparr> \<and>
      set (gkeys (cd_Volumes (cc_desc cc'))) = set (gkeys (cd_Volumes (cc_desc cc))) \<and>
      dc_ready (disk r (cc_root cc')) \<and> dc_desc (disk r (cc_root cc')) = saved_desc (dc_desc (disk ctx (cc_root cc)))"
    if cc: "gget (sb_containers ctx) cid = Some cc" for cid cc
  proof -
    obtain j where j: "j < length (sb_containers ctx)" "sb_containers ctx ! j = (cid, cc)"
      "gget (sb_containers r) cid = Some \<lparr>cc_desc = restored_desc c4 vm (cid, cc_desc cc), cc_root = length (sb_volumes ctx) + j\<rparr>"
      using restored_container_get [OF rf cc] .
    show ?thesis
      using j(3) restored_desc_volumes [OF rf cc] restored_container(3,4) [OF rf j(1)] j(2) by (simp del: set_map)
  qed
  then show ?thesis unfolding same_containers_def using restored_keys(2) [OF rf] by blast
qed

lemma restored_vol_inv:
  assumes rf: "restored_from ctx c c4 im vm r"
  shows "vol_inv r"
  unfolding vol_inv_def vinv_def
proof (intro allI impI conjI ballI)
  fix n i assume "gget (sb_volumes r) n = Some i"
  note i = restored_volume_index [OF rf this]
  note v = restored_volume [OF rf i(1)]
  have inv: "vol_inv ctx" using rf by (simp add: restored_from_def)
  show "i < length (h_disks r)" using i(1) restored_fields(3) [OF rf] by simp
  show "dname (h_disks r) i = n"
    using v(2,4) inv i(2) unfolding vol_inv_def vinv_def by (simp add: dname_def disk_def saved_desc_def)
  fix cid assume "cid \<in> okeys (h_disks r) i"
  then obtain cc where cc: "gget (sb_containers ctx) cid = Some cc" "n \<in> set (gkeys (cd_Volumes (cc_desc cc)))"
    using inv v(2,5) i(2) unfolding vol_inv_def vinv_def by blast
  show "\<exists>cc'. gget (sb_containers r) cid = Some cc' \<and> n \<in> set (gkeys (cd_Volumes (cc_desc cc')))"
    using restored_container_get [OF rf cc(1)] restored_desc_volumes(1) [OF rf cc(1)] cc(2)
    by (metis (no_types, lifting) ContainerContext.select_convs(1))
qed

lemma restored_att:
  assumes rf: "restored_from ctx c c4 im vm r"
  shows "att (sb_volumes r) (sb_containers r) = [0..<length (h_disks r)]"
proof -
  have "gvals (sb_volumes r) = [0..<length (sb_volumes ctx)]"
    unfolding restored_fields(1) [OF rf] by simp
  moreover have "map cc_root (gvals (sb_containers r)) = [length (sb_volumes ctx)..<length (h_disks r)]"
  proof (rule nth_equalityI, goal_cases)
    case (2 j)
    then have j: "j < length (sb_containers ctx)" "j < length (sb_containers r)"
      using restored_keys(1) [OF rf] by simp_all
    show ?case using restored_container(2) [OF rf j(1)] j restored_fields(3) [OF rf] by simp
  qed (use restored_keys(1) [OF rf] restored_fields(3) [OF rf] in simp)
  ultimately show ?thesis
    unfolding att_def restored_fields(3) [OF rf] by (simp add: upt_add_eq_append [of 0 "length (sb_volumes ctx)" "length (sb_containers ctx)"])
qed

lemma restored_disk_inv:
  assumes rf: "restored_from ctx c c4 im vm r"
  shows "disk_inv {} r"
proof -
  have inv: "disk_inv {} ctx" using rf by (simp add: restored_from_def)
  note f = restored_fields [OF rf] and att = restored_att [OF rf]
  have none: "sigs r = (\<lambda>_. 0)" "rems r = (\<lambda>_. 0)" by (simp_all add: sigs_def rems_def f(2) fun_eq_iff)
  have wfv: "gwf (sb_volumes r)" unfolding f(1) using container_ids(3) [OF inv] by simp
  have "att_ok (sb_volumes r) (sb_containers r) (h_disks r) (sigs r) (rems r)"
    unfolding att_ok_def att none using wfv restored_keys(3) [OF rf] by simp
  moreover have "obs_ok (set (att (sb_volumes r) (sb_containers r))) (h_disks r) (length (h_wgs r))"
    unfolding obs_ok_def att
  proof (intro allI impI)
    fix d assume d: "d < length (h_disks r)"
    show "gwf (obs (h_disks r) d) \<and> (\<forall>w \<in> set (gvals (obs (h_disks r) d)). w < length (h_wgs r)) \<and>
        (d \<notin> set [0..<length (h_disks r)] \<longrightarrow> obs (h_disks r) d = [])"
    proof (cases "d < length (sb_volumes ctx)")
      case True
      then show ?thesis using restored_volume(6,7) [OF rf True] d by auto
    next
      case False
      then obtain j where "d = length (sb_volumes ctx) + j" "j < length (sb_containers ctx)"
        using d f(3) by (metis add_diff_inverse_nat nat_add_left_cancel_less)
      then show ?thesis using restored_container(5) [OF rf] d by fastforce
    qed
  qed
  moreover have "wg_ok (h_disks r) (h_wgs r) (sigs r)"
    unfolding wg_ok_def none pend_def using f(4) by (auto simp: subset_iff in_set_conv_nth)
  moreover have "use_ok {} (sb_volumes r) (sb_containers r) (h_disks r)"
    unfolding use_ok_def
  proof (intro allI impI conjI ballI)
    fix cid cc' assume "(cid, cc') \<in> set (sb_containers r)"
    then obtain j where j: "j < length (sb_containers ctx)" "sb_containers r ! j = (cid, cc')"
      using restored_keys(1) [OF rf] by (auto simp only: in_set_conv_nth)
    let ?cc = "snd (sb_containers ctx ! j)"
    have cid: "cid = fst (sb_containers ctx ! j)"
      and cc': "cc' = \<lparr>cc_desc = restored_desc c4 vm (cid, cc_desc ?cc), cc_root = length (sb_volumes ctx) + j\<rparr>"
      using restored_container(2) [OF rf j(1)] j(2) by simp_all
    have cc: "gget (sb_containers ctx) cid = Some ?cc" using restored_container(1) [OF rf j(1)] cid by simp
    note use = map_of_SomeD [OF cc]
    show "cd_Id (cc_desc cc') = cid"
      using inv use by (auto simp: cc' restored_desc_def disk_inv_def dinv_def use_ok_def split: option.split)
    show "okeys (h_disks r) (cc_root cc') \<subseteq> {cid}" using restored_container(5) [OF rf j(1)] cid by (auto simp: cc')
    fix vn assume "vn \<in> set (gkeys (cd_Volumes (cc_desc cc')))"
    then have "vn \<in> set (gkeys (cd_Volumes (cc_desc ?cc)))"
      using restored_desc_volumes(1) [OF rf cc] unfolding cc' by (simp only: ContainerContext.select_convs)
    then obtain d where "gget (sb_volumes ctx) vn = Some d" "cid \<in> okeys (h_disks ctx) d"
      using inv use unfolding disk_inv_def dinv_def use_ok_def by blast
    then show "\<exists>d. gget (sb_volumes r) vn = Some d \<and> cid \<in> okeys (h_disks r) d"
      using restored_same_volumes [OF rf] unfolding same_volumes_def by blast
  qed
  ultimately show ?thesis unfolding disk_inv_def dinv_def by blast
qed

lemma loadHwStatus_free:
  assumes "hw_GuestCid hw = 0 \<or> hw_GuestCid hw \<notin> vc_bitmap (sb_cids c)"
  obtains b cids where "loadHwStatus hw c =
    (c\<lparr>sb_pciAddr := hw_PciAddr hw, sb_scsiId := hw_ScsiId hw, sb_GuestCid := hw_GuestCid hw, sb_cids := cids, sb_Boot := b\<rparr>, None)"
proof (cases "hw_GuestCid hw = 0")
  case True
  then show thesis using that [of "sb_Boot c" "sb_cids c"] by (simp add: loadHwStatus_def)
next
  case False
  then show thesis
    using assms that [of "(sb_Boot c)\<lparr>bc_EnableVsock := True\<rparr>" "(sb_cids c)\<lparr>vc_bitmap := insert (hw_GuestCid hw) (vc_bitmap (sb_cids c))\<rparr>"]
    by (simp add: loadHwStatus_def MarkCidInuse_def Let_def)
qed

lemma restore_dump:
  assumes inv: "disk_inv {} ctx" "vol_inv ctx" and ports: "nc_ports ctx = []"
    and dump: "dump dr seq ctx = Some (Inr pinfo)" and load: "load (pi_DriverInfo pinfo) = None"
    and free: "sb_GuestCid ctx = 0 \<or> sb_GuestCid ctx \<notin> vc_bitmap cids"
  obtains r cids' c c4 im vm where "vmContext load None rnd cids pinfo = (Some (Inr r), cids')"
    "restored_from ctx c c4 im vm r"
    "sb_Id r = sb_Id ctx" "sb_PauseState r = sb_PauseState ctx" "sb_pciAddr r = sb_pciAddr ctx"
    "sb_scsiId r = sb_scsiId ctx" "sb_GuestCid r = sb_GuestCid ctx"
proof -
  have p: "pi_PersistVersion pinfo = CURRENT_PERSIST_VERSION" "pi_Id pinfo = sb_Id ctx"
    "pi_Paused pinfo = (sb_PauseState ctx = PauseStatePaused)" "pi_HwStat pinfo = dumpHwInfo seq ctx" "pi_PortList pinfo = []"
    using dump ports by (auto simp: dump_def split: sum.splits option.splits)
  note saved = saved_dump [OF inv(1) dump]
  obtain c0 where c0: "InitContext (pi_Id pinfo) empty_boot \<lparr>ie_mkdir = True, ie_driver = True, ie_vsock = False\<rparr> cids = (Some c0, cids)"
    by (simp add: InitContext_def empty_boot_def Let_def)
  then have f0: "sb_Id c0 = sb_Id ctx" "sb_PauseState c0 = PauseStateUnpaused" "sb_volumes c0 = []" "sb_containers c0 = []"
    "h_disks c0 = []" "h_wgs c0 = []" "sb_go c0 = []" "nc_ports c0 = []" "sb_cids c0 = cids"
    using p(2) by (auto simp: InitContext_def empty_boot_def Let_def)
  define c1 where "c1 = (if pi_Paused pinfo then c0\<lparr>sb_PauseState := PauseStatePaused\<rparr> else c0)"
  have pause: "sb_PauseState c1 = sb_PauseState ctx" using f0(2) p(3) by (cases "sb_PauseState ctx") (simp_all add: c1_def)
  have "hw_GuestCid (pi_HwStat pinfo) = 0 \<or> hw_GuestCid (pi_HwStat pinfo) \<notin> vc_bitmap (sb_cids c1)"
    using free f0(9) p(4) by (simp add: c1_def dumpHwInfo_def)
  then obtain c2 where c2: "loadHwStatus (pi_HwStat pinfo) c1 = (c2, None)"
    and f2: "sb_Id c2 = sb_Id ctx" "sb_PauseState c2 = sb_PauseState ctx" "sb_volumes c2 = []" "sb_containers c2 = []"
    "h_disks c2 = []" "h_wgs c2 = []" "sb_go c2 = []" "nc_ports c2 = []"
    "sb_pciAddr c2 = sb_pciAddr ctx" "sb_scsiId c2 = sb_scsiId ctx" "sb_GuestCid c2 = sb_GuestCid ctx"
    using f0 p(4) pause by (elim loadHwStatus_free) (simp add: dumpHwInfo_def c1_def)
  obtain c3 where c3: "networks_load rnd pinfo c2 = Some c3" using p(5) by (simp add: networks_load_def)
  note f3 = core_fields [OF networks_load_core [OF c3]]
  have e3: "h_disks c3 = []" "h_wgs c3 = []" "sb_volumes c3 = []" "sb_containers c3 = []" "sb_go c3 = []"
    using f3 f2 by simp_all
  obtain im vm c4 r where l: "load_volumes (saved_volumes ctx @ saved_roots ctx) [] [] c3 = Inr (im, vm, c4)"
    "load_containers im vm (saved_containers ctx) c4 = Inr r"
    and f4: "rinv c4 im vm (saved_containers ctx) r"
    "c4 = c3\<lparr>h_disks := map restored_disk (saved_volumes ctx), sb_volumes := zip (gkeys (sb_volumes ctx)) [0..<length (sb_volumes ctx)]\<rparr>"
    "\<And>cid. vlist vm cid = {i. i < length (sb_volumes ctx) \<and> cid \<in> okeys (h_disks ctx) (snd (sb_volumes ctx ! i))}"
    "im = map (\<lambda>cc. (cd_Id (cc_desc cc), blockInfo (dump_root ctx cc))) (gvals (sb_containers ctx))"
    by (rule load_saved [OF inv e3(1-4)]) (rule that)
  have rf: "restored_from ctx c3 c4 im vm r" unfolding restored_from_def using f4 inv e3(5) by blast
  have "vmContext load None rnd cids pinfo = (Some (Inr r), sb_cids c4)"
    unfolding vmContext_def using p(1) load c0 c2 c3 l saved
    by (simp add: COMPATIBLE_PERSIST_VERSION_def c1_def [symmetric])
  moreover have "sb_Id r = sb_Id c3" "sb_PauseState r = sb_PauseState c3" "sb_pciAddr r = sb_pciAddr c3"
    "sb_scsiId r = sb_scsiId c3" "sb_GuestCid r = sb_GuestCid c3"
    using arg_cong [OF restored_fields(5) [OF rf], of sb_Id] arg_cong [OF restored_fields(5) [OF rf], of sb_PauseState]
      arg_cong [OF restored_fields(5) [OF rf], of sb_pciAddr] arg_cong [OF restored_fields(5) [OF rf], of sb_scsiId]
      arg_cong [OF restored_fields(5) [OF rf], of sb_GuestCid] by simp_all
  ultimately show thesis using that rf f3 f2 by simp
qed

section \<open>Properties\<close>

text \<open>
  C3: Saving a reachable sandbox without port mappings and restoring it (the driver loads its own
  data, the vsock id is not taken) succeeds and gives a sandbox with the same id, pause state, PCI
  and SCSI counters and vsock id, the same volumes in use by the same containers, and the same
  containers on the same root disks; a disk comes back ready, with the fields that are saved.
\<close>

theorem restore_roundtrip:
  assumes "reachable ctx" "nc_ports ctx = []" "dump dr seq ctx = Some (Inr pinfo)" "load (pi_DriverInfo pinfo) = None"
    "sb_GuestCid ctx = 0 \<or> sb_GuestCid ctx \<notin> vc_bitmap cids"
  shows "\<exists>r. fst (vmContext load None rnd cids pinfo) = Some (Inr r) \<and>
    sb_Id r = sb_Id ctx \<and> sb_PauseState r = sb_PauseState ctx \<and> sb_pciAddr r = sb_pciAddr ctx \<and>
    sb_scsiId r = sb_scsiId ctx \<and> sb_GuestCid r = sb_GuestCid ctx \<and> same_volumes ctx r \<and> same_containers ctx r"
proof -
  obtain r cids' c c4 im vm where "vmContext load None rnd cids pinfo = (Some (Inr r), cids')" "restored_from ctx c c4 im vm r"
    "sb_Id r = sb_Id ctx" "sb_PauseState r = sb_PauseState ctx" "sb_pciAddr r = sb_pciAddr ctx"
    "sb_scsiId r = sb_scsiId ctx" "sb_GuestCid r = sb_GuestCid ctx"
    by (rule restore_dump [where load = load, OF disks.reachable_I [OF assms(1)] volume_names.reachable_I [OF assms(1)] assms(2-5)])
  then show ?thesis using restored_same_volumes restored_same_containers by fastforce
qed

text \<open>The saved form of the example run.\<close>

definition demo_saved :: "unit PersistInfo" where
  "demo_saved = (case dump (Inr ()) 0 demo_state of Some (Inr p) \<Rightarrow> p | _ \<Rightarrow> undefined)"

lemma demo_dump: "dump (Inr ()) 0 demo_state = Some (Inr demo_saved)" "nc_ports demo_state = []" "sb_GuestCid demo_state = 0"
proof -
  have "case dump (Inr ()) 0 demo_state of Some (Inr p) \<Rightarrow> True | _ \<Rightarrow> False" by code_simp
  then show "dump (Inr ()) 0 demo_state = Some (Inr demo_saved)"
    by (simp add: demo_saved_def split: option.splits sum.splits)
qed code_simp+

theorem restore_roundtrip_witness:
  "\<exists>r. fst (vmContext (\<lambda>_. None) None (\<lambda>_. ''x'') NewDefaultVsockCidAllocator demo_saved) = Some (Inr r) \<and>
     sb_Id r = sb_Id demo_state \<and> sb_scsiId r = sb_scsiId demo_state \<and>
     gkeys (sb_volumes r) = [''vol''] \<and> same_containers demo_state r"
  using restore_roundtrip [OF demo_reachable demo_dump(2,1), of "\<lambda>_. None" NewDefaultVsockCidAllocator "\<lambda>_. ''x''"] demo_dump(3) demo_go(3)
  by (auto simp: same_volumes_def)

text \<open>
  C6: A restored sandbox is as safe as the one that was saved: whatever it does after the restore,
  a goroutine that tells the observers of a disk can take its step, and a volume that a container
  names is in the volume map and in use.
\<close>

theorem restored_sandbox_safe:
  assumes "reachable ctx" "nc_ports ctx = []" "dump dr seq ctx = Some (Inr pinfo)" "load (pi_DriverInfo pinfo) = None"
    "sb_GuestCid ctx = 0 \<or> sb_GuestCid ctx \<notin> vc_bitmap cids"
    "fst (vmContext load None rnd cids pinfo) = Some (Inr r)" "sb_run ls r = Next s"
  shows "(\<forall>n a as d. n < length (sb_go s) \<longrightarrow> sb_go s ! n = a # as \<longrightarrow> a = InsertedDisk d \<or> a = FailedDisk d \<longrightarrow>
      (\<exists>s'. go_step n e s = Next s')) \<and>
    (\<forall>cid cc vn. gget (sb_containers s) cid = Some cc \<longrightarrow> vn \<in> set (gkeys (cd_Volumes (cc_desc cc))) \<longrightarrow>
      (\<exists>d. gget (sb_volumes s) vn = Some d \<and> cid \<in> set (gkeys (dc_observers (disk s d)))))"
proof -
  obtain r' cids' c c4 im vm where "vmContext load None rnd cids pinfo = (Some (Inr r'), cids')" "restored_from ctx c c4 im vm r'"
    by (rule restore_dump [where load = load, OF disks.reachable_I [OF assms(1)] volume_names.reachable_I [OF assms(1)] assms(2-5)])
  then have "disk_inv {} r" using restored_disk_inv assms(6) by fastforce
  then have inv: "disk_inv {} s" by (rule disks.run_I [OF _ assms(7)])
  then have "use_ok {} (sb_volumes s) (sb_containers s) (h_disks s)" unfolding disk_inv_def dinv_def by blast
  then show ?thesis
    using go_step_signal [OF inv] map_of_SomeD [of "sb_containers s"] unfolding use_ok_def disk_def by blast
qed

definition restored_demo :: VmContext where
  "restored_demo = (case fst (vmContext (\<lambda>_. None) None (\<lambda>_. ''x'') NewDefaultVsockCidAllocator demo_saved) of
     Some (Inr r) \<Rightarrow> r | _ \<Rightarrow> demo_sandbox)"

definition restored_labels :: "label list" where
  "restored_labels = [CallAddVolume (demo_volume\<lparr>vd_Name := ''new''\<rparr>) (Some 0), Go 0 NoEnv,
     Go 0 (EnvEvent (Some (BlockdevInsertedEvent ''sdb'' ''0:1''))), Go 0 NoEnv]"

definition restored_run :: VmContext where
  "restored_run = (case sb_run restored_labels restored_demo of Next c \<Rightarrow> c | _ \<Rightarrow> restored_demo)"

theorem restored_sandbox_safe_witness:
  "sb_go restored_run ! 0 = [InsertedDisk 2] \<and> (\<exists>s'. go_step 0 NoEnv restored_run = Next s') \<and>
   (\<exists>d. gget (sb_volumes restored_run) ''vol'' = Some d \<and> ''c'' \<in> set (gkeys (dc_observers (disk restored_run d))))"
proof -
  have 1: "fst (vmContext (\<lambda>_. None) None (\<lambda>_. ''x'') NewDefaultVsockCidAllocator demo_saved) = Some (Inr restored_demo)"
  proof -
    have "case fst (vmContext (\<lambda>_. None) None (\<lambda>_. ''x'') NewDefaultVsockCidAllocator demo_saved) of Some (Inr r) \<Rightarrow> True | _ \<Rightarrow> False"
      by code_simp
    then show ?thesis by (simp add: restored_demo_def split: option.splits sum.splits)
  qed
  have 2: "sb_run restored_labels restored_demo = Next restored_run"
  proof -
    have "case sb_run restored_labels restored_demo of Next _ \<Rightarrow> True | _ \<Rightarrow> False" by code_simp
    then show ?thesis by (simp add: restored_run_def split: outcome.splits)
  qed
  have 3: "sb_go restored_run ! 0 = [InsertedDisk 2]" "0 < length (sb_go restored_run)"
    "map_option (gkeys \<circ> cd_Volumes \<circ> cc_desc) (gget (sb_containers restored_run) ''c'') = Some [''vol'']" by code_simp+
  note safe = restored_sandbox_safe [where load = "\<lambda>_. None" and e = NoEnv, OF demo_reachable demo_dump(2,1) _ _ 1 2]
  obtain cc where "gget (sb_containers restored_run) ''c'' = Some cc" "''vol'' \<in> set (gkeys (cd_Volumes (cc_desc cc)))"
    using 3(3) by auto
  then show ?thesis using safe 3(1,2) demo_dump(3) by blast
qed



end
