(* ===== verification/HsWire.thy ===== *)
theory HsWire
  imports Runv_Prelude
begin

text \<open>
  The wire format between the sandbox and the agent in the guest (\<^verbatim>\<open>agent/hyperstart.go\<close>,
  \<^verbatim>\<open>agent/api/hyperstart/types.go\<close>): the frames of the control and of the stream socket, the loop that
  reads a frame from a socket that delivers its bytes in pieces of any size, and the input stream
  of a process, which is cut into frames of at most 16 bytes.
\<close>

section \<open>Big-endian integers (\<^verbatim>\<open>encoding/binary\<close>)\<close>

fun put_be :: "nat \<Rightarrow> nat \<Rightarrow> byte list" where
  "put_be 0 v = []"
| "put_be (Suc n) v = put_be n (v div 256) @ [of_nat v]"

definition get_be :: "byte list \<Rightarrow> nat" where
  "get_be bs = foldl (\<lambda>a b. 256 * a + unat b) 0 bs"

definition PutUint32 :: "uint32 \<Rightarrow> byte list" where "PutUint32 w = put_be 4 (unat w)"
definition PutUint64 :: "uint64 \<Rightarrow> byte list" where "PutUint64 w = put_be 8 (unat w)"
definition Uint32 :: "byte list \<Rightarrow> uint32" where "Uint32 bs = of_nat (get_be (take 4 bs))"
definition Uint64 :: "byte list \<Rightarrow> uint64" where "Uint64 bs = of_nat (get_be (take 8 bs))"

lemma length_put_be [simp]: "length (put_be n v) = n"
  by (induction n arbitrary: v) simp_all

lemma get_be_put_be: "get_be (put_be n v) = v mod 256 ^ n"
proof (induction n arbitrary: v)
  case (Suc n)
  have "get_be (put_be (Suc n) v) = 256 * (v div 256 mod 256 ^ n) + v mod 256"
    using Suc by (simp add: get_be_def unat_of_nat)
  then show ?case by (simp add: mod_mult2_eq)
qed (simp add: get_be_def)

lemma put32 [simp]: "length (PutUint32 w) = 4" "get_be (PutUint32 w) = unat w" "Uint32 (PutUint32 w @ bs) = w"
proof -
  have "unat w < 256 ^ 4" using unsigned_less [of w, where ?'a = nat] by simp
  then show "length (PutUint32 w) = 4" "get_be (PutUint32 w) = unat w" "Uint32 (PutUint32 w @ bs) = w"
    by (simp_all add: PutUint32_def Uint32_def get_be_put_be)
qed

lemma put64 [simp]: "length (PutUint64 w) = 8" "Uint64 (PutUint64 w @ bs) = w"
proof -
  have "unat w < 256 ^ 8" using unsigned_less [of w, where ?'a = nat] by simp
  then show "length (PutUint64 w) = 8" "Uint64 (PutUint64 w @ bs) = w"
    by (simp_all add: PutUint64_def Uint64_def get_be_put_be)
qed

section \<open>A connection\<close>

text \<open>
  The bytes still to come, and for the next calls of \<^verbatim>\<open>Read\<close> how many bytes each delivers at most;
  behind the plan a \<^verbatim>\<open>Read\<close> delivers all it is asked for. At the end of the bytes \<^verbatim>\<open>Read\<close> fails.
\<close>

record conn =
  cn_bytes :: "byte list"
  cn_plan :: "nat list"

definition conn_Read :: "nat \<Rightarrow> conn \<Rightarrow> (byte list \<times> conn) option" where
  "conn_Read want c =
     (if cn_bytes c = [] then None
      else (let n = (case cn_plan c of [] \<Rightarrow> want | k # _ \<Rightarrow> min k want)
            in Some (take n (cn_bytes c), c\<lparr>cn_bytes := drop n (cn_bytes c), cn_plan := tl (cn_plan c)\<rparr>)))"

definition conn_size :: "conn \<Rightarrow> nat" where
  "conn_size c = length (cn_bytes c) + length (cn_plan c)"

lemma conn_Read_size: "conn_Read want c = Some (d, c') \<Longrightarrow> 0 < want \<Longrightarrow> conn_size c' < conn_size c"
  by (auto simp: conn_Read_def conn_size_def Let_def split: if_splits list.splits)

section \<open>Reading a frame\<close>

text \<open>
  The loop of \<^verbatim>\<open>readVmMessage\<close> and \<^verbatim>\<open>readTtyMessage\<close>, which differ in the size \<open>H\<close> of the header: the
  last four bytes of the header are the length of the frame. \<open>need\<close>, \<open>len\<close> and \<open>res\<close> are \<^verbatim>\<open>needRead\<close>,
  \<^verbatim>\<open>length\<close> and \<^verbatim>\<open>res\<close> of the code.
\<close>

function read_loop :: "nat \<Rightarrow> nat \<Rightarrow> nat \<Rightarrow> byte list \<Rightarrow> conn \<Rightarrow> (byte list \<times> conn) option" where
  "read_loop H need len res c =
     (if length res < need then
        (case conn_Read (min (need - length res) 512) c of
           None \<Rightarrow> None
         | Some (d, c') \<Rightarrow>
             (let res' = res @ d in
              if len = 0 \<and> length res' \<ge> H
              then (let l = unat (Uint32 (drop (H - 4) res')) in read_loop H (if l > H then l else need) l res' c')
              else read_loop H need len res' c'))
      else Some (res, c))"
  by pat_completeness auto

termination
  by (relation "measure (\<lambda>(H, need, len, res, c). conn_size c)") (auto dest: conn_Read_size)

declare read_loop.simps [simp del]

record DecodedMessage =
  dm_Code :: uint32
  dm_Message :: "byte list"

record TtyMessage =
  tm_Session :: uint64
  tm_Message :: "byte list"

definition newVmMessage :: "DecodedMessage \<Rightarrow> byte list" where
  "newVmMessage m =
     PutUint32 (dm_Code m) @ PutUint32 (of_nat (length (dm_Message m) + 8)) @ dm_Message m"

definition readVmMessage :: "conn \<Rightarrow> (DecodedMessage \<times> conn) option" where
  "readVmMessage c =
     map_option (\<lambda>(res, c'). (\<lparr>dm_Code = Uint32 res, dm_Message = drop 8 res\<rparr>, c')) (read_loop 8 8 0 [] c)"

definition ToBuffer :: "TtyMessage \<Rightarrow> byte list" where
  "ToBuffer tm =
     PutUint64 (tm_Session tm) @ PutUint32 (of_nat (length (tm_Message tm) + 12)) @ tm_Message tm"

definition readTtyMessage :: "conn \<Rightarrow> (TtyMessage \<times> conn) option" where
  "readTtyMessage c =
     map_option (\<lambda>(res, c'). (\<lparr>tm_Session = Uint64 res, tm_Message = drop 12 res\<rparr>, c')) (read_loop 12 12 0 [] c)"

text \<open>The loop reads a frame, whatever the pieces in which the connection delivers it.\<close>

lemma read_loop_frame:
  assumes H: "4 \<le> H" "H \<le> 512" and L: "H \<le> length frame" "unat (Uint32 (drop (H - 4) frame)) = length frame"
    and "frame = res @ todo" "cn_bytes c = todo @ rest"
    and "if length res < H then need = H \<and> len = 0 else need = length frame \<and> len \<noteq> 0"
  shows "\<exists>c'. read_loop H need len res c = Some (frame, c') \<and> cn_bytes c' = rest"
  using assms(5-)
proof (induction "conn_size c" arbitrary: need len res todo c rule: less_induct)
  case less
  show ?case
  proof (cases "todo = []")
    case True
    then have "\<not> length res < need" using less.prems L(1) by (auto split: if_splits)
    then show ?thesis using less.prems True by (simp add: read_loop.simps [of H need])
  next
    case False
    let ?want = "min (need - length res) 512"
    have need: "length res < need" "need - length res \<le> length todo"
      using less.prems L(1) False by (auto split: if_splits)
    define n where "n = (case cn_plan c of [] \<Rightarrow> ?want | k # _ \<Rightarrow> min k ?want)"
    define c' where "c' = c\<lparr>cn_bytes := drop n (cn_bytes c), cn_plan := tl (cn_plan c)\<rparr>"
    have n: "n \<le> ?want" unfolding n_def by (cases "cn_plan c") auto
    with need have n': "n \<le> length todo" by simp
    have rd: "conn_Read ?want c = Some (take n todo, c')"
      using less.prems(2) False n' by (simp add: conn_Read_def Let_def n_def [symmetric] c'_def)
    have sz: "conn_size c' < conn_size c" using conn_Read_size [OF rd] need(1) by simp
    have fr: "frame = (res @ take n todo) @ drop n todo" "cn_bytes c' = drop n todo @ rest"
      using less.prems(1,2) n' by (simp_all add: c'_def)
    show ?thesis
    proof (cases "length (res @ take n todo) < H")
      case True
      then have "need = H" "len = 0" using less.prems(3) by auto
      then show ?thesis
        using less.hyps [OF sz fr, of H 0] True rd need(1) by (simp add: read_loop.simps [of H H 0 res])
    next
      case ge: False
      show ?thesis
      proof (cases "length res < H")
        case True
        then have nl: "need = H" "len = 0" using less.prems(3) by auto
        then have len: "length (res @ take n todo) = H" using ge n n' True by auto
        then have "take H frame = res @ take n todo" using fr(1) by (metis append_eq_conv_conj)
        then have "Uint32 (drop (H - 4) (res @ take n todo)) = Uint32 (drop (H - 4) frame)"
          using H(1) by (metis Uint32_def drop_take diff_diff_cancel take_take min.idem)
        then have l: "unat (Uint32 (drop (H - 4) (res @ take n todo))) = length frame" using L(2) by simp
        moreover have "(if length frame > H then length frame else H) = length frame" "frame \<noteq> []" using L(1) H(1) by auto
        ultimately show ?thesis
          using less.hyps [OF sz fr, of "length frame" "length frame"] ge rd need(1) nl
          by (simp add: read_loop.simps [of H H 0 res] Let_def del: drop_append)
      next
        case False
        then have "need = length frame" "len \<noteq> 0" using less.prems(3) by auto
        then show ?thesis
          using less.hyps [OF sz fr, of "length frame" len] ge rd need(1) by (simp add: read_loop.simps [of H "length frame" len res])
      qed
    qed
  qed
qed

section \<open>Frames as a codec\<close>

text \<open>The reading goroutines read one message after the other.\<close>

fun recv :: "(conn \<Rightarrow> ('m \<times> conn) option) \<Rightarrow> nat \<Rightarrow> conn \<Rightarrow> ('m list \<times> conn) option" where
  "recv dec 0 c = Some ([], c)"
| "recv dec (Suc n) c =
     (case dec c of
        None \<Rightarrow> None
      | Some (m, c') \<Rightarrow> map_option (\<lambda>(ms, c'). (m # ms, c')) (recv dec n c'))"

text \<open>
  A framing of messages on a byte stream: reading behind writing gives the message back and leaves
  the rest, whatever the pieces in which the bytes arrive.
\<close>

locale framing =
  fixes enc :: "'m \<Rightarrow> byte list" and dec :: "conn \<Rightarrow> ('m \<times> conn) option" and ok :: "'m \<Rightarrow> bool"
  assumes dec_enc: "ok m \<Longrightarrow> cn_bytes c = enc m @ rest \<Longrightarrow> \<exists>c'. dec c = Some (m, c') \<and> cn_bytes c' = rest"
begin

lemma recv_all:
  assumes "list_all ok ms" "cn_bytes c = concat (map enc ms) @ rest"
  shows "\<exists>c'. recv dec (length ms) c = Some (ms, c') \<and> cn_bytes c' = rest"
  using assms
proof (induction ms arbitrary: c)
  case (Cons m ms)
  then obtain c1 where c1: "dec c = Some (m, c1)" "cn_bytes c1 = concat (map enc ms) @ rest"
    using dec_enc [of m c "concat (map enc ms) @ rest"] by auto
  with Cons.IH [of c1] Cons.prems(1) obtain c' where "recv dec (length ms) c1 = Some (ms, c')" "cn_bytes c' = rest"
    by auto
  with c1 show ?case by simp
qed simp

end

lemma drop_append_exact: "length xs = n \<Longrightarrow> drop n (xs @ ys) = ys"
  by simp

lemma unat_frame_length: "n < 2 ^ 32 \<Longrightarrow> unat (of_nat n :: uint32) = n"
  by (simp add: unat_of_nat)

lemma readVmMessage_newVmMessage:
  assumes "length (dm_Message m) + 8 < 2 ^ 32" "cn_bytes c = newVmMessage m @ rest"
  shows "\<exists>c'. readVmMessage c = Some (m, c') \<and> cn_bytes c' = rest"
proof -
  have "drop 4 (newVmMessage m) = PutUint32 (of_nat (length (dm_Message m) + 8)) @ dm_Message m"
    unfolding newVmMessage_def by (rule drop_append_exact) simp
  then have "unat (Uint32 (drop 4 (newVmMessage m))) = length (newVmMessage m)"
    using unat_frame_length [OF assms(1)] by (simp add: newVmMessage_def)
  then obtain c' where "read_loop 8 8 0 [] c = Some (newVmMessage m, c')" "cn_bytes c' = rest"
    using read_loop_frame [of 8 "newVmMessage m" "[]" "newVmMessage m" c rest 8 0] assms(2) by (auto simp: newVmMessage_def)
  moreover have "drop 8 (newVmMessage m) = dm_Message m" "Uint32 (newVmMessage m) = dm_Code m"
    by (simp_all add: newVmMessage_def)
  ultimately show ?thesis by (simp add: readVmMessage_def)
qed

lemma readTtyMessage_ToBuffer:
  assumes "length (tm_Message m) + 12 < 2 ^ 32" "cn_bytes c = ToBuffer m @ rest"
  shows "\<exists>c'. readTtyMessage c = Some (m, c') \<and> cn_bytes c' = rest"
proof -
  have "drop 8 (ToBuffer m) = PutUint32 (of_nat (length (tm_Message m) + 12)) @ tm_Message m"
    unfolding ToBuffer_def by (rule drop_append_exact) simp
  then have "unat (Uint32 (drop 8 (ToBuffer m))) = length (ToBuffer m)"
    using unat_frame_length [OF assms(1)] by (simp add: ToBuffer_def)
  then obtain c' where "read_loop 12 12 0 [] c = Some (ToBuffer m, c')" "cn_bytes c' = rest"
    using read_loop_frame [of 12 "ToBuffer m" "[]" "ToBuffer m" c rest 12 0] assms(2) by (auto simp: ToBuffer_def)
  moreover have "drop 12 (ToBuffer m) = tm_Message m" "Uint64 (ToBuffer m) = tm_Session m"
    by (simp_all add: ToBuffer_def)
  ultimately show ?thesis by (simp add: readTtyMessage_def)
qed

interpretation vm_frames: framing newVmMessage readVmMessage "\<lambda>m. length (dm_Message m) + 8 < 2 ^ 32"
  by unfold_locales (rule readVmMessage_newVmMessage)

interpretation tty_frames: framing ToBuffer readTtyMessage "\<lambda>m. length (tm_Message m) + 12 < 2 ^ 32"
  by unfold_locales (rule readTtyMessage_ToBuffer)

section \<open>The input of a process\<close>

text \<open>
  \<^verbatim>\<open>streamIn.Write\<close>: the messages put on the stream channel, the count and the error returned.
  \<open>gone\<close> says that the stream was closed (\<^verbatim>\<open>s.h == nil\<close>), \<open>left\<close> after how many more messages the
  channel is found closed, which is recovered into an error with the count 0.
\<close>

fun streamIn_Write ::
  "bool \<Rightarrow> nat option \<Rightarrow> uint64 \<Rightarrow> nat \<Rightarrow> byte list \<Rightarrow> TtyMessage list \<times> nat \<times> string option" where
  "streamIn_Write gone left seq done b =
     (if b = [] then ([], done, None)
      else if gone then ([], done, Some ''closed'')
      else if left = Some 0 then ([], 0, Some ''Write stream error, the hyperstart might have closed'')
      else (let nr = (if length b < 16 then length b else 16);
                (msgs, r) = streamIn_Write gone (map_option (\<lambda>n. n - 1) left) seq (done + nr) (drop nr b)
            in (\<lparr>tm_Session = seq, tm_Message = take nr b\<rparr> # msgs, r)))"

declare streamIn_Write.simps [simp del]

lemma streamIn_Write_open:
  "\<exists>msgs. streamIn_Write False None seq done b = (msgs, done + length b, None) \<and>
     concat (map tm_Message msgs) = b \<and>
     list_all (\<lambda>m. tm_Session m = seq \<and> 0 < length (tm_Message m) \<and> length (tm_Message m) \<le> 16) msgs"
proof (induction "length b" arbitrary: b "done" rule: less_induct)
  case less
  show ?case
  proof (cases "b = []")
    case False
    let ?nr = "if length b < 16 then length b else 16"
    obtain msgs where "streamIn_Write False None seq (done + ?nr) (drop ?nr b) = (msgs, done + ?nr + length (drop ?nr b), None)"
      "concat (map tm_Message msgs) = drop ?nr b"
      "list_all (\<lambda>m. tm_Session m = seq \<and> 0 < length (tm_Message m) \<and> length (tm_Message m) \<le> 16) msgs"
      using less [of "drop ?nr b" "done + ?nr"] False by (auto split: if_splits)
    then show ?thesis using False by (subst streamIn_Write.simps) (auto simp: Let_def)
  qed (simp add: streamIn_Write.simps)
qed

section \<open>Properties\<close>

text \<open>
  C22: A sequence of control messages, each below 4 GiB, written to the socket one after the other
  is read back unchanged and completely, in whatever pieces the socket delivers the bytes.
\<close>

theorem vm_messages_roundtrip:
  assumes "list_all (\<lambda>m. length (dm_Message m) + 8 < 2 ^ 32) ms"
  shows "\<exists>c'. recv readVmMessage (length ms) \<lparr>cn_bytes = concat (map newVmMessage ms) @ rest, cn_plan = plan\<rparr> = Some (ms, c') \<and>
    cn_bytes c' = rest"
  using vm_frames.recv_all [OF assms] by simp

theorem vm_messages_roundtrip_witness:
  "\<exists>c'. recv readVmMessage 2 \<lparr>cn_bytes = newVmMessage \<lparr>dm_Code = 9, dm_Message = [1, 2, 3]\<rparr> @ newVmMessage \<lparr>dm_Code = 4, dm_Message = []\<rparr>,
     cn_plan = [3, 0, 7, 1]\<rparr> = Some ([\<lparr>dm_Code = 9, dm_Message = [1, 2, 3]\<rparr>, \<lparr>dm_Code = 4, dm_Message = []\<rparr>], c') \<and> cn_bytes c' = []"
  using vm_messages_roundtrip [of "[\<lparr>dm_Code = 9, dm_Message = [1, 2, 3]\<rparr>, \<lparr>dm_Code = 4, dm_Message = []\<rparr>]" "[]" "[3, 0, 7, 1]"]
  by (simp add: numeral_2_eq_2 [symmetric] del: recv.simps One_nat_def)

text \<open>
  C23: What a client writes to the standard input of a process arrives: \<^verbatim>\<open>Write\<close> reports all bytes as
  written, and the frames it sends, read from the stream socket in whatever pieces, carry the
  sequence number of the process and, put together, exactly the bytes written. No frame is empty,
  which would mean the end of the input.
\<close>

theorem stdin_arrives:
  "\<exists>msgs c'. streamIn_Write False None seq 0 data = (msgs, length data, None) \<and>
     recv readTtyMessage (length msgs) \<lparr>cn_bytes = concat (map ToBuffer msgs) @ rest, cn_plan = plan\<rparr> = Some (msgs, c') \<and>
     cn_bytes c' = rest \<and> concat (map tm_Message msgs) = data \<and>
     list_all (\<lambda>m. tm_Session m = seq \<and> tm_Message m \<noteq> []) msgs"
proof -
  obtain msgs where m: "streamIn_Write False None seq 0 data = (msgs, length data, None)" "concat (map tm_Message msgs) = data"
    "list_all (\<lambda>m. tm_Session m = seq \<and> 0 < length (tm_Message m) \<and> length (tm_Message m) \<le> 16) msgs"
    using streamIn_Write_open [of seq 0 data] by auto
  from m(3) have "list_all (\<lambda>m. length (tm_Message m) + 12 < 2 ^ 32) msgs" "list_all (\<lambda>m. tm_Session m = seq \<and> tm_Message m \<noteq> []) msgs"
    by (induction msgs) auto
  then show ?thesis
    using m(1,2) tty_frames.recv_all [of msgs "\<lparr>cn_bytes = concat (map ToBuffer msgs) @ rest, cn_plan = plan\<rparr>" rest] by auto
qed

end
