(* ===== verification/HsCtl.thy ===== *)
theory HsCtl
  imports HsWire
begin

text \<open>
  The control channel to the agent in the guest (\<^verbatim>\<open>handleMsgToHyperstart\<close> of \<^verbatim>\<open>agent/hyperstart.go\<close>): the
  goroutine that takes commands and replies from the channel, writes the commands to the socket
  under the flow control of the guest, and hands the replies to the commands in order.

  The state is that of the local variables of the goroutine, with the results sent, the bytes
  written and the messages queued as histories. What \<^verbatim>\<open>json.Marshal\<close> made of a message (\<open>None\<close> when
  it failed), how many bytes a \<^verbatim>\<open>Write\<close> took and the rewriting of a message for an old guest are
  arguments.
\<close>

definition INIT_VERSION :: uint32 where "INIT_VERSION = 0"
definition INIT_STARTPOD :: uint32 where "INIT_STARTPOD = 1"
definition INIT_DESTROYPOD :: uint32 where "INIT_DESTROYPOD = 4"
definition INIT_EXECCMD :: uint32 where "INIT_EXECCMD = 6"
definition INIT_READY :: uint32 where "INIT_READY = 8"
definition INIT_ACK :: uint32 where "INIT_ACK = 9"
definition INIT_ERROR :: uint32 where "INIT_ERROR = 10"
definition INIT_WINSIZE :: uint32 where "INIT_WINSIZE = 11"
definition INIT_NEXT :: uint32 where "INIT_NEXT = 14"
definition INIT_NEWCONTAINER :: uint32 where "INIT_NEWCONTAINER = 17"
definition INIT_KILLCONTAINER :: uint32 where "INIT_KILLCONTAINER = 18"
definition INIT_ONLINECPUMEM :: uint32 where "INIT_ONLINECPUMEM = 19"
definition INIT_SETUPINTERFACE :: uint32 where "INIT_SETUPINTERFACE = 20"
definition INIT_SETUPROUTE :: uint32 where "INIT_SETUPROUTE = 21"
definition INIT_PROCESSASYNCEVENT :: uint32 where "INIT_PROCESSASYNCEVENT = 23"
definition INIT_SIGNALPROCESS :: uint32 where "INIT_SIGNALPROCESS = 24"
definition INIT_DELETEINTERFACE :: uint32 where "INIT_DELETEINTERFACE = 25"
definition hyperstartPauseSync :: uint32 where "hyperstartPauseSync = 2 ^ 31"
definition hyperstartUnpause :: uint32 where "hyperstartUnpause = hyperstartPauseSync + 1"

lemmas init_codes = INIT_VERSION_def INIT_STARTPOD_def INIT_DESTROYPOD_def INIT_EXECCMD_def INIT_READY_def INIT_ACK_def
  INIT_ERROR_def INIT_WINSIZE_def INIT_NEXT_def INIT_NEWCONTAINER_def INIT_KILLCONTAINER_def INIT_ONLINECPUMEM_def
  INIT_SETUPINTERFACE_def INIT_SETUPROUTE_def INIT_PROCESSASYNCEVENT_def INIT_SIGNALPROCESS_def INIT_DELETEINTERFACE_def
  hyperstartPauseSync_def hyperstartUnpause_def

text \<open>A command; a reply of the guest is a command with a code of its own and \<open>retMsg\<close>.\<close>

record hyperstartCmd =
  hq_Code :: uint32
  hq_Message :: "byte list option"
  hq_retMsg :: "byte list"
  hq_result :: nat

text \<open>What is sent on a result channel: the reply of the guest, or an answer of the host itself.\<close>

datatype cmd_result =
    Acked "byte list"
  | GuestError "byte list"
  | Synced
  | Refused string
  | HyperstartClosed

record ctl =
  cl_looping :: bool
  cl_cmds :: "hyperstartCmd list"
  cl_data :: "byte list"
  cl_index :: nat
  cl_got :: nat
  cl_pausing :: "hyperstartCmd option"
  cl_paused :: bool
  cl_version :: uint32
  cl_results :: "(nat \<times> cmd_result) list"
  cl_wire :: "byte list"
  cl_queued :: "(nat \<times> DecodedMessage) list"

definition ctl_init :: "uint32 \<Rightarrow> bool \<Rightarrow> ctl" where
  "ctl_init version paused =
     \<lparr>cl_looping = True, cl_cmds = [], cl_data = [], cl_index = 0, cl_got = 0, cl_pausing = None, cl_paused = paused,
      cl_version = version, cl_results = [], cl_wire = [], cl_queued = []\<rparr>"

definition ctl_answer :: "nat \<Rightarrow> cmd_result \<Rightarrow> ctl \<Rightarrow> ctl" where
  "ctl_answer ch r s = s\<lparr>cl_results := cl_results s @ [(ch, r)]\<rparr>"

definition ctl_synced :: "ctl \<Rightarrow> ctl" where
  "ctl_synced s =
     (case cl_pausing s of
        None \<Rightarrow> s
      | Some p \<Rightarrow> (ctl_answer (hq_result p) Synced s)\<lparr>cl_pausing := None\<rparr>)"

text \<open>A reply to the oldest outstanding command.\<close>

definition ctl_reply :: "hyperstartCmd \<Rightarrow> ctl \<Rightarrow> ctl" where
  "ctl_reply cmd s =
     (case cl_cmds s of
        [] \<Rightarrow> s
      | c # cs \<Rightarrow>
          (let s1 = (if hq_Code c = INIT_DESTROYPOD then s\<lparr>cl_looping := False\<rparr> else s);
               s2 = ctl_answer (hq_result c) (if hq_Code cmd = INIT_ACK then Acked (hq_retMsg cmd) else GuestError (hq_retMsg cmd)) s1;
               s3 = s2\<lparr>cl_cmds := cs\<rparr>
           in if cs = [] then ctl_synced s3 else s3))"

text \<open>
  The count in a \<^verbatim>\<open>NEXT\<close> reply. The slice \<^verbatim>\<open>retMsg[0:4]\<close> of an empty reply panics; a reply of one to
  three bytes is extended by the zero bytes of the capacity that \<^verbatim>\<open>append\<close> has rounded up.
\<close>

definition next_count :: "byte list \<Rightarrow> nat option" where
  "next_count ret = (if ret = [] then None else Some (unat (Uint32 (ret @ [0, 0, 0]))))"

definition ctl_next :: "nat \<Rightarrow> ctl \<Rightarrow> ctl" where
  "ctl_next k s =
     (let s1 = s\<lparr>cl_got := cl_got s + k\<rparr> in
      if cl_index s1 = cl_got s1 then s1\<lparr>cl_data := drop (cl_index s1) (cl_data s1), cl_index := 0, cl_got := 0\<rparr> else s1)"

text \<open>The payload of a command, rewritten for a guest of version 4242 and older.\<close>

definition ctl_payload :: "(byte list \<Rightarrow> byte list option) \<Rightarrow> uint32 \<Rightarrow> hyperstartCmd \<Rightarrow> string + byte list" where
  "ctl_payload rewrite version cmd =
     (case hq_Message cmd of
        None \<Rightarrow> Inl (''marshal command '' @ utoa (unat (hq_Code cmd)) @ '' failed'')
      | Some message \<Rightarrow>
          if version \<le> 4242 \<and> (hq_Code cmd = INIT_EXECCMD \<or> hq_Code cmd = INIT_NEWCONTAINER)
          then (case rewrite message of
                  None \<Rightarrow> Inl (''handle 4242 command '' @ utoa (unat (hq_Code cmd)) @ '' failed'')
                | Some message' \<Rightarrow> Inr message')
          else Inr message)"

text \<open>The write behind a command: at most 512 bytes, and only when all bytes sent are acknowledged.\<close>

definition ctl_write :: "nat \<Rightarrow> ctl \<Rightarrow> ctl" where
  "ctl_write took s =
     (if cl_index s = 0 \<and> cl_data s \<noteq> [] then
        (let wrote = min took (if length (cl_data s) > 512 then 512 else length (cl_data s))
         in s\<lparr>cl_wire := cl_wire s @ take wrote (cl_data s), cl_index := cl_index s + wrote\<rparr>)
      else s)"

text \<open>One round of the loop; \<open>None\<close> is a panic.\<close>

definition ctl_step :: "(byte list \<Rightarrow> byte list option) \<Rightarrow> hyperstartCmd \<Rightarrow> nat \<Rightarrow> ctl \<Rightarrow> ctl option" where
  "ctl_step rewrite cmd took s =
     (if hq_Code cmd = INIT_ACK \<or> hq_Code cmd = INIT_ERROR then Some (ctl_reply cmd s)
      else if hq_Code cmd = INIT_NEXT then
        (case next_count (hq_retMsg cmd) of None \<Rightarrow> None | Some k \<Rightarrow> Some (ctl_write took (ctl_next k s)))
      else if hq_Code cmd = hyperstartPauseSync then
        (let s1 = s\<lparr>cl_paused := True, cl_pausing := Some cmd\<rparr>
         in Some (ctl_write took (if cl_cmds s1 = [] then ctl_synced s1 else s1)))
      else if hq_Code cmd = hyperstartUnpause then
        Some (ctl_write took (ctl_answer (hq_result cmd) Synced (ctl_synced (s\<lparr>cl_paused := False\<rparr>))))
      else if cl_paused s then Some (ctl_answer (hq_result cmd) (Refused ''the vm is pausing/paused'') s)
      else (case ctl_payload rewrite (cl_version s) cmd of
              Inl e \<Rightarrow> Some (ctl_answer (hq_result cmd) (Refused e) s)
            | Inr message \<Rightarrow>
                (let msg = \<lparr>dm_Code = hq_Code cmd, dm_Message = message\<rparr>
                 in Some (ctl_write took
                      (s\<lparr>cl_cmds := cl_cmds s @ [cmd], cl_data := cl_data s @ newVmMessage msg,
                         cl_queued := cl_queued s @ [(hq_result cmd, msg)]\<rparr>)))))"

fun ctl_run :: "(byte list \<Rightarrow> byte list option) \<Rightarrow> (hyperstartCmd \<times> nat) list \<Rightarrow> ctl \<Rightarrow> ctl option" where
  "ctl_run rewrite [] s = Some s"
| "ctl_run rewrite ((cmd, took) # items) s =
     (if cl_looping s then
        (case ctl_step rewrite cmd took s of None \<Rightarrow> None | Some s' \<Rightarrow> ctl_run rewrite items s')
      else Some s)"

text \<open>Behind the loop: the commands without a reply are answered.\<close>

definition ctl_end :: "ctl \<Rightarrow> ctl" where
  "ctl_end s = foldl (\<lambda>s c. ctl_answer (hq_result c) HyperstartClosed s) s (cl_cmds s)"

section \<open>Invariant\<close>

definition is_answer :: "cmd_result \<Rightarrow> bool" where
  "is_answer r = (case r of Acked _ \<Rightarrow> True | GuestError _ \<Rightarrow> True | HyperstartClosed \<Rightarrow> True | _ \<Rightarrow> False)"

text \<open>The channels of the commands that were answered behind being sent to the guest, in order.\<close>

definition answered :: "ctl \<Rightarrow> nat list" where
  "answered s = map fst (filter (is_answer \<circ> snd) (cl_results s))"

definition ctl_stream :: "ctl \<Rightarrow> byte list" where
  "ctl_stream s = concat (map (newVmMessage \<circ> snd) (cl_queued s))"

definition ctl_inv :: "ctl \<Rightarrow> bool" where
  "ctl_inv s \<longleftrightarrow>
     answered s @ map hq_result (cl_cmds s) = map fst (cl_queued s) \<and>
     cl_wire s @ drop (cl_index s) (cl_data s) = ctl_stream s \<and>
     cl_index s \<le> length (cl_data s) \<and> cl_index s \<le> 512"

lemma answered_ctl_answer [simp]:
  "answered (ctl_answer ch r s) = answered s @ (if is_answer r then [ch] else [])"
  by (simp add: answered_def ctl_answer_def)

lemma ctl_answer_sel [simp]:
  "cl_cmds (ctl_answer ch r s) = cl_cmds s" "cl_data (ctl_answer ch r s) = cl_data s" "cl_index (ctl_answer ch r s) = cl_index s"
  "cl_wire (ctl_answer ch r s) = cl_wire s" "cl_queued (ctl_answer ch r s) = cl_queued s" "cl_got (ctl_answer ch r s) = cl_got s"
  "cl_looping (ctl_answer ch r s) = cl_looping s" "cl_pausing (ctl_answer ch r s) = cl_pausing s"
  "cl_paused (ctl_answer ch r s) = cl_paused s" "cl_version (ctl_answer ch r s) = cl_version s"
  by (simp_all add: ctl_answer_def)

lemma ctl_upd_answered [simp]:
  "answered (s\<lparr>cl_pausing := x1\<rparr>) = answered s" "answered (s\<lparr>cl_paused := x2\<rparr>) = answered s"
  "answered (s\<lparr>cl_cmds := x3\<rparr>) = answered s" "answered (s\<lparr>cl_looping := x4\<rparr>) = answered s"
  "answered (s\<lparr>cl_data := x5\<rparr>) = answered s" "answered (s\<lparr>cl_index := x6\<rparr>) = answered s"
  "answered (s\<lparr>cl_got := x7\<rparr>) = answered s" "answered (s\<lparr>cl_wire := x8\<rparr>) = answered s"
  "answered (s\<lparr>cl_queued := x9\<rparr>) = answered s"
  by (simp_all add: answered_def)

lemma is_answer_simps [simp]:
  "is_answer (Acked b)" "is_answer (GuestError b)" "is_answer HyperstartClosed" "\<not> is_answer Synced" "\<not> is_answer (Refused e)"
  by (simp_all add: is_answer_def)

lemma ctl_inv_init: "ctl_inv (ctl_init v p)"
  by (simp add: ctl_inv_def ctl_init_def answered_def ctl_stream_def)

lemma ctl_inv_synced: "ctl_inv s \<Longrightarrow> ctl_inv (ctl_synced s)"
  by (auto simp: ctl_inv_def ctl_synced_def ctl_stream_def split: option.split)

lemma ctl_inv_reply: "ctl_inv s \<Longrightarrow> ctl_inv (ctl_reply cmd s)"
  unfolding ctl_reply_def
  by (cases "cl_cmds s") (auto intro!: ctl_inv_synced simp: Let_def, auto simp: ctl_inv_def ctl_stream_def)

lemma ctl_inv_next: "ctl_inv s \<Longrightarrow> ctl_inv (ctl_next k s)"
  by (auto simp: ctl_inv_def ctl_next_def ctl_stream_def Let_def)

lemma ctl_inv_write: "ctl_inv s \<Longrightarrow> ctl_inv (ctl_write took s)"
  by (auto simp: ctl_inv_def ctl_write_def ctl_stream_def Let_def)

lemma ctl_inv_queue:
  "ctl_inv s \<Longrightarrow> ctl_inv (s\<lparr>cl_cmds := cl_cmds s @ [cmd], cl_data := cl_data s @ newVmMessage msg,
     cl_queued := cl_queued s @ [(hq_result cmd, msg)]\<rparr>)"
  by (auto simp: ctl_inv_def ctl_stream_def)

lemma ctl_inv_step: "ctl_inv s \<Longrightarrow> ctl_step rewrite cmd took s = Some s' \<Longrightarrow> ctl_inv s'"
proof -
  assume inv: "ctl_inv s" and st: "ctl_step rewrite cmd took s = Some s'"
  have upd: "ctl_inv (s\<lparr>cl_paused := b\<rparr>)" "ctl_inv (s\<lparr>cl_paused := b, cl_pausing := p\<rparr>)" for b p
    using inv by (simp_all add: ctl_inv_def ctl_stream_def)
  have ans: "ctl_inv t \<Longrightarrow> \<not> is_answer r \<Longrightarrow> ctl_inv (ctl_answer ch r t)" for t ch r
    by (simp add: ctl_inv_def ctl_stream_def)
  show ?thesis
    using st inv upd
    by (auto simp: ctl_step_def Let_def intro!: ans ctl_inv_write ctl_inv_reply ctl_inv_next ctl_inv_synced ctl_inv_queue
        split: if_splits option.splits sum.splits)
qed

lemma ctl_inv_run: "ctl_inv s \<Longrightarrow> ctl_run rewrite items s = Some s' \<Longrightarrow> ctl_inv s'"
proof (induction items arbitrary: s)
  case (Cons it items)
  then show ?case using ctl_inv_step [OF Cons.prems(1)] by (cases it) (force split: if_splits option.splits)
qed simp

lemma answered_end: "answered (ctl_end s) = answered s @ map hq_result (cl_cmds s)"
proof -
  have "answered (foldl (\<lambda>s c. ctl_answer (hq_result c) HyperstartClosed s) t cs) = answered t @ map hq_result cs" for t cs
    by (induction cs arbitrary: t) simp_all
  then show ?thesis by (simp add: ctl_end_def)
qed

lemma results_end: "cl_results (ctl_end s) = cl_results s @ map (\<lambda>c. (hq_result c, HyperstartClosed)) (cl_cmds s)"
proof -
  have "cl_results (foldl (\<lambda>s c. ctl_answer (hq_result c) HyperstartClosed s) t cs) =
      cl_results t @ map (\<lambda>c. (hq_result c, HyperstartClosed)) cs" for t cs
    by (induction cs arbitrary: t) (simp_all add: ctl_answer_def)
  then show ?thesis by (simp add: ctl_end_def)
qed

section \<open>Flow control\<close>

text \<open>A guest that acknowledges, in every round, the bytes it has not acknowledged yet.\<close>

definition next_reply :: "nat \<Rightarrow> hyperstartCmd" where
  "next_reply k = \<lparr>hq_Code = INIT_NEXT, hq_Message = None, hq_retMsg = PutUint32 (of_nat k), hq_result = 0\<rparr>"

fun ctl_acks :: "(byte list \<Rightarrow> byte list option) \<Rightarrow> nat \<Rightarrow> ctl \<Rightarrow> ctl option" where
  "ctl_acks rewrite 0 s = Some s"
| "ctl_acks rewrite (Suc n) s =
     (case ctl_step rewrite (next_reply (cl_index s - cl_got s)) 512 s of
        None \<Rightarrow> None
      | Some s' \<Rightarrow> ctl_acks rewrite n s')"

definition unsent :: "ctl \<Rightarrow> nat" where
  "unsent s = length (cl_data s) - cl_index s"

lemma next_count_reply: "k < 2 ^ 32 \<Longrightarrow> next_count (hq_retMsg (next_reply k)) = Some k"
proof -
  assume k: "k < 2 ^ 32"
  have "PutUint32 (of_nat k) \<noteq> []" using put32(1) by (metis list.size(3) zero_neq_numeral)
  then show ?thesis using k unat_frame_length [of k] by (simp add: next_count_def next_reply_def)
qed

lemma ctl_ack_round:
  assumes "ctl_inv s" "cl_got s \<le> cl_index s"
  shows "\<exists>s'. ctl_step rewrite (next_reply (cl_index s - cl_got s)) 512 s = Some s' \<and> ctl_inv s' \<and>
    cl_got s' \<le> cl_index s' \<and> unsent s' = unsent s - 512 \<and> cl_queued s' = cl_queued s"
proof -
  have le: "cl_index s - cl_got s < 2 ^ 32" "cl_index s \<le> length (cl_data s)" using assms(1) by (auto simp: ctl_inv_def)
  let ?s' = "ctl_write 512 (ctl_next (cl_index s - cl_got s) s)"
  have "hq_Code (next_reply k) = INIT_NEXT" for k by (simp add: next_reply_def)
  then have st: "ctl_step rewrite (next_reply (cl_index s - cl_got s)) 512 s = Some ?s'"
    using next_count_reply [OF le(1)] by (simp add: ctl_step_def init_codes)
  moreover have "cl_got ?s' \<le> cl_index ?s'" "unsent ?s' = unsent s - 512" "cl_queued ?s' = cl_queued s"
    using assms(2) le(2) by (auto simp: ctl_next_def ctl_write_def unsent_def Let_def)
  ultimately show ?thesis using ctl_inv_step [OF assms(1) st] by blast
qed

lemma ctl_acks_unsent:
  assumes "ctl_inv s" "cl_got s \<le> cl_index s"
  shows "\<exists>s'. ctl_acks rewrite n s = Some s' \<and> ctl_inv s' \<and> unsent s' = unsent s - 512 * n \<and> cl_queued s' = cl_queued s"
  using assms
proof (induction n arbitrary: s)
  case (Suc n)
  obtain s1 where s1: "ctl_step rewrite (next_reply (cl_index s - cl_got s)) 512 s = Some s1" "ctl_inv s1"
    "cl_got s1 \<le> cl_index s1" "unsent s1 = unsent s - 512" "cl_queued s1 = cl_queued s"
    using ctl_ack_round [OF Suc.prems] by blast
  then show ?case using Suc.IH [OF s1(2,3)] by auto
qed simp

lemma ctl_over_acked:
  assumes "ctl_run rewrite items s = Some s'" "0 < cl_index s" "cl_index s < cl_got s"
  shows "cl_wire s' = cl_wire s"
  using assms
proof (induction items arbitrary: s)
  case (Cons it items)
  obtain cmd took where it: "it = (cmd, took)" by (cases it)
  show ?case
  proof (cases "cl_looping s")
    case True
    then obtain s1 where st: "ctl_step rewrite cmd took s = Some s1" and run: "ctl_run rewrite items s1 = Some s'"
      using Cons.prems(1) it by (auto split: option.splits)
    have syn: "cl_wire (ctl_synced t) = cl_wire t" "cl_index (ctl_synced t) = cl_index t" "cl_got (ctl_synced t) = cl_got t" for t
      by (simp_all add: ctl_synced_def split: option.split)
    have "cl_wire s1 = cl_wire s \<and> cl_index s1 = cl_index s \<and> cl_got s \<le> cl_got s1"
      using st Cons.prems(2,3)
      by (auto simp: ctl_step_def ctl_write_def ctl_next_def ctl_reply_def syn Let_def
          split: if_splits option.splits sum.splits list.splits)
    then show ?thesis using Cons.IH [OF run] Cons.prems(2,3) by simp
  qed (use Cons.prems(1) it in simp)
qed simp

section \<open>Properties\<close>

text \<open>
  C11: Over every life of the control channel, each command that was sent to the guest is answered
  exactly once, and in the order in which the commands were sent.
\<close>

theorem ctl_answers_in_order:
  assumes "ctl_run rewrite items (ctl_init version paused) = Some s"
  shows "answered (ctl_end s) = map fst (cl_queued s)"
  using ctl_inv_run [OF ctl_inv_init assms] by (simp add: ctl_inv_def answered_end)

text \<open>
  C15: The bytes written to the socket followed by the bytes still to be sent are always the frames
  of the commands in order, and at most 512 bytes are written beyond what the guest acknowledged.
\<close>

theorem ctl_stream_intact:
  assumes "ctl_run rewrite items (ctl_init version paused) = Some s"
  shows "cl_wire s @ drop (cl_index s) (cl_data s) = concat (map (newVmMessage \<circ> snd) (cl_queued s)) \<and> cl_index s \<le> 512"
  using ctl_inv_run [OF ctl_inv_init assms] by (simp add: ctl_inv_def ctl_stream_def)


definition demo_cmds :: "(hyperstartCmd \<times> nat) list" where
  "demo_cmds = [(\<lparr>hq_Code = INIT_STARTPOD, hq_Message = Some (replicate 600 0), hq_retMsg = [], hq_result = 1\<rparr>, 512),
     (\<lparr>hq_Code = INIT_ONLINECPUMEM, hq_Message = Some [7], hq_retMsg = [], hq_result = 2\<rparr>, 512),
     (next_reply 512, 512),
     (\<lparr>hq_Code = INIT_ACK, hq_Message = None, hq_retMsg = [], hq_result = 0\<rparr>, 0)]"

definition demo_ctl :: ctl where
  "demo_ctl = the (ctl_run Some demo_cmds (ctl_init 4244 False))"

lemma demo_ctl_run: "ctl_run Some demo_cmds (ctl_init 4244 False) = Some demo_ctl"
  "map fst (cl_queued demo_ctl) = [1, 2]" "answered demo_ctl = [1]" "cl_got demo_ctl = 0" "unsent demo_ctl = 0" "cl_index demo_ctl = 105"
  "map (length \<circ> dm_Message \<circ> snd) (cl_queued demo_ctl) = [600, 1]"
proof -
  have "ctl_run Some demo_cmds (ctl_init 4244 False) \<noteq> None" by code_simp
  then show "ctl_run Some demo_cmds (ctl_init 4244 False) = Some demo_ctl" by (auto simp: demo_ctl_def)
qed code_simp+

theorem ctl_answers_in_order_witness: "answered (ctl_end demo_ctl) = [1, 2]"
  using ctl_answers_in_order [OF demo_ctl_run(1)] demo_ctl_run(2) by simp

theorem ctl_stream_intact_witness:
  "cl_wire demo_ctl @ drop (cl_index demo_ctl) (cl_data demo_ctl) = concat (map (newVmMessage \<circ> snd) (cl_queued demo_ctl))"
  using ctl_stream_intact [OF demo_ctl_run(1)] by simp


text \<open>
  A guest that acknowledges more bytes than were written stops the channel for good: nothing is
  written to the socket any more, whatever commands follow.
\<close>

lemma ctl_over_ack_stuck:
  assumes "ctl_run rewrite items s = Some s'" "0 < cl_index s" "cl_index s < cl_got s"
  shows "cl_wire s' = cl_wire s"
  by (rule ctl_over_acked [OF assms])

text \<open>
  C37: A reply \<^verbatim>\<open>NEXT\<close> without payload, which the reader accepts as a frame, makes the goroutine of the
  control channel panic in every state.
\<close>

theorem empty_next_panics:
  "\<exists>m c'. readVmMessage \<lparr>cn_bytes = [0, 0, 0, 14, 0, 0, 0, 8] @ rest, cn_plan = []\<rparr> = Some (m, c') \<and> dm_Code m = INIT_NEXT \<and>
     ctl_step rewrite \<lparr>hq_Code = dm_Code m, hq_Message = None, hq_retMsg = dm_Message m, hq_result = ch\<rparr> took s = None"
proof -
  have "newVmMessage \<lparr>dm_Code = INIT_NEXT, dm_Message = []\<rparr> = [0, 0, 0, 14, 0, 0, 0, 8]" by code_simp
  then have "\<exists>c'. readVmMessage \<lparr>cn_bytes = [0, 0, 0, 14, 0, 0, 0, 8] @ rest, cn_plan = []\<rparr> =
      Some (\<lparr>dm_Code = INIT_NEXT, dm_Message = []\<rparr>, c')"
    using readVmMessage_newVmMessage [of "\<lparr>dm_Code = INIT_NEXT, dm_Message = []\<rparr>" "\<lparr>cn_bytes = [0, 0, 0, 14, 0, 0, 0, 8] @ rest, cn_plan = []\<rparr>" rest]
    by auto
  then show ?thesis by (auto simp: ctl_step_def next_count_def init_codes)
qed

text \<open>
  A pause requested while a command is outstanding is lost when the channel is closed before the
  reply: no result is ever sent to the caller of \<^verbatim>\<open>PauseSync\<close>, who waits for ever.
\<close>

lemma pause_lost:
  assumes "cl_cmds s \<noteq> []" "hq_Code p = hyperstartPauseSync"
    "hq_result p \<notin> fst ` set (cl_results s)" "hq_result p \<notin> hq_result ` set (cl_cmds s)"
  shows "\<exists>s1. ctl_step rewrite p took s = Some s1 \<and> hq_result p \<notin> fst ` set (cl_results (ctl_end s1))"
  using assms by (auto simp: ctl_step_def init_codes ctl_write_def results_end Let_def)

end
