(* ===== verification/HsProc.thy ===== *)
theory HsProc
  imports HsCtl BytesPipe HyperApi Paths
begin

text \<open>
  The processes in the guest as the host sees them (\<^verbatim>\<open>jsonBasedHyperstart\<close> of \<^verbatim>\<open>agent/hyperstart.go\<close>): the
  table of processes, the table of output streams by sequence number, the containers that are
  created and not yet started, and the requests to the guest.

  Process states and pipes are heaps, since the stream table and the process table share them. A
  wait channel of capacity one is the list of the values in it; the development shows that it
  never holds more than one, so that no send on it blocks. The reply of the guest to a command is
  an argument; the commands sent and the
  messages put on the stream channel are histories. \<open>None\<close> is a panic.
\<close>

section \<open>Paths and prefixes\<close>

definition HasPrefix :: "string \<Rightarrow> string \<Rightarrow> bool" where
  "HasPrefix s p \<longleftrightarrow> take (length p) s = p"

definition TrimPrefix :: "string \<Rightarrow> string \<Rightarrow> string" where
  "TrimPrefix s p = (if HasPrefix s p then drop (length p) s else s)"

definition path_Base :: "string \<Rightarrow> string" where
  "path_Base p =
     (if p = [] then ''.''
      else (let q = dropWhile (\<lambda>c. c = CHR ''/'') (rev p); b = rev (takeWhile (\<lambda>c. c \<noteq> CHR ''/'') q)
            in if b = [] then ''/'' else b))"

definition path_Dir :: "string \<Rightarrow> string" where
  "path_Dir p = Clean (rev (dropWhile (\<lambda>c. c \<noteq> CHR ''/'') (rev p)))"

section \<open>State\<close>

record pState =
  ps_stdioSeq :: uint64
  ps_stderrSeq :: uint64
  ps_stdinOpen :: bool
  ps_stdoutPipe :: "nat option"
  ps_stderrPipe :: "nat option"
  ps_exitStatus :: "int option"
  ps_outClosed :: bool
  ps_waitChan :: "int list option"

record streamOut =
  so_pipe :: nat
  so_ps :: nat

record HRoute =
  hr_Dest :: string
  hr_Gateway :: string
  hr_Device :: string

record NetworkInf =
  ni_Device :: string
  ni_NewName :: string
  ni_IpAddresses :: "(string \<times> string) list"
  ni_Mtu :: uint64

record Pod =
  po_Hostname :: string
  po_Dns :: "string list"
  po_DnsOptions :: "string list"
  po_DnsSearch :: "string list"
  po_ShareDir :: string
  po_WhiteLists :: "(string list \<times> string list) option"

datatype hs_msg =
    NoMsg
  | MsgContainer HContainer
  | ExecCommand string HProcess
  | MsgRoutes "HRoute list"
  | MsgInf NetworkInf
  | KillCommand string int
  | SignalCommand string string int
  | Winsize4242 uint64 uint16 uint16
  | WindowSizeMessage string string uint16 uint16
  | MsgPod Pod

type_synonym pKey = "string \<times> string"

record jsonBasedHyperstart =
  hs_vmAPIVersion :: uint32
  hs_closed :: bool
  hs_lastStreamSeq :: uint64
  hs_procs :: "(pKey, nat) gomap"
  hs_streamOuts :: "(uint64, streamOut) gomap"
  hs_shareStorage :: "Storage option"
  hs_containerCreated :: "(string, HContainer) gomap"
  hs_ps :: "pState list"
  hs_pipes :: "bytes_pipe list"
  hs_blocked :: "(uint64 \<times> streamOut \<times> byte list \<times> nat \<times> nat) option"
  hs_sent :: "(uint32 \<times> hs_msg) list"
  hs_streamChan :: "TtyMessage list"

definition NewJsonBasedHyperstart :: "uint32 \<Rightarrow> uint64 \<Rightarrow> jsonBasedHyperstart" where
  "NewJsonBasedHyperstart version lastStreamSeq =
     \<lparr>hs_vmAPIVersion = version, hs_closed = False, hs_lastStreamSeq = lastStreamSeq, hs_procs = [], hs_streamOuts = [],
      hs_shareStorage = None, hs_containerCreated = [], hs_ps = [], hs_pipes = [], hs_blocked = None, hs_sent = [], hs_streamChan = []\<rparr>"

definition upd_ps :: "nat \<Rightarrow> (pState \<Rightarrow> pState) \<Rightarrow> jsonBasedHyperstart \<Rightarrow> jsonBasedHyperstart" where
  "upd_ps i f h = h\<lparr>hs_ps := (hs_ps h)[i := f (hs_ps h ! i)]\<rparr>"

definition close_pipe :: "nat \<Rightarrow> jsonBasedHyperstart \<Rightarrow> jsonBasedHyperstart" where
  "close_pipe i h = h\<lparr>hs_pipes := (hs_pipes h)[i := bp_Close (hs_pipes h ! i)]\<rparr>"

section \<open>Exit of a process\<close>

definition handleWaitProcess :: "pKey \<Rightarrow> nat \<Rightarrow> jsonBasedHyperstart \<Rightarrow> jsonBasedHyperstart" where
  "handleWaitProcess pk i h =
     (let ps = hs_ps h ! i in
      case (ps_exitStatus ps, ps_waitChan ps) of
        (Some st, Some ch) \<Rightarrow>
          if ps_outClosed ps
          then upd_ps i (\<lambda>ps. ps\<lparr>ps_waitChan := Some (ch @ [st])\<rparr>) (h\<lparr>hs_procs := gdel pk (hs_procs h)\<rparr>)
          else h
      | _ \<Rightarrow> h)"

definition sendProcessAsyncEvent :: "string \<Rightarrow> string \<Rightarrow> int \<Rightarrow> jsonBasedHyperstart \<Rightarrow> jsonBasedHyperstart" where
  "sendProcessAsyncEvent container process status h =
     (case gget (hs_procs h) (container, process) of
        None \<Rightarrow> h
      | Some i \<Rightarrow> handleWaitProcess (container, process) i (upd_ps i (\<lambda>ps. ps\<lparr>ps_exitStatus := Some status\<rparr>) h))"

text \<open>
  A loop over the process table: an update of the processes that pass a test, each followed by
  \<^const>\<open>handleWaitProcess\<close>, which takes the current entry out of the table.
\<close>

fun for_procs ::
  "(pState \<Rightarrow> bool) \<Rightarrow> (pState \<Rightarrow> pState) \<Rightarrow> (pKey \<times> nat) list \<Rightarrow> jsonBasedHyperstart \<Rightarrow> jsonBasedHyperstart" where
  "for_procs test f [] h = h"
| "for_procs test f ((pk, i) # ps) h =
     for_procs test f ps (if test (hs_ps h ! i) then handleWaitProcess pk i (upd_ps i f h) else h)"

definition sendProcessAsyncEvent4242 :: "uint64 \<Rightarrow> byte \<Rightarrow> jsonBasedHyperstart \<Rightarrow> jsonBasedHyperstart" where
  "sendProcessAsyncEvent4242 stdioSeq code h =
     for_procs (\<lambda>ps. ps_stdioSeq ps = stdioSeq) (\<lambda>ps. ps\<lparr>ps_exitStatus := Some (uint code)\<rparr>) (hs_procs h) h"

text \<open>The end of an output stream; closing the missing stream of the error output is a nil call.\<close>

definition close_stderr :: "pState \<Rightarrow> jsonBasedHyperstart \<Rightarrow> jsonBasedHyperstart option" where
  "close_stderr ps h =
     (if ps_stderrSeq ps > 0
      then (case gget (hs_streamOuts h) (ps_stderrSeq ps) of
              None \<Rightarrow> None
            | Some err \<Rightarrow> Some ((close_pipe (so_pipe err) h)\<lparr>hs_streamOuts := gdel (ps_stderrSeq ps) (hs_streamOuts h)\<rparr>))
      else Some h)"

definition removeStreamOut :: "uint64 \<Rightarrow> jsonBasedHyperstart \<Rightarrow> jsonBasedHyperstart option" where
  "removeStreamOut seq h =
     (case gget (hs_streamOuts h) seq of
        None \<Rightarrow> Some h
      | Some out \<Rightarrow>
          (let h1 = h\<lparr>hs_streamOuts := gdel seq (hs_streamOuts h)\<rparr>; ps = hs_ps h1 ! so_ps out in
           if seq = ps_stdioSeq ps then
             (case close_stderr ps h1 of
                None \<Rightarrow> None
              | Some h2 \<Rightarrow> Some (for_procs (\<lambda>ps. ps_stdioSeq ps = seq) (\<lambda>ps. ps\<lparr>ps_outClosed := True\<rparr>) (hs_procs h2) h2))
           else Some h1))"

text \<open>
  A message from the stream socket (\<^verbatim>\<open>handleStreamFromHyperstart\<close>). A write that waits for the reader
  of the pipe is kept in \<^const>\<open>hs_blocked\<close> and goes on with \<open>stream_resume\<close>.
\<close>

definition stream_wrote :: "uint64 \<Rightarrow> streamOut \<Rightarrow> bytes_pipe \<times> write_res \<Rightarrow> jsonBasedHyperstart \<Rightarrow> jsonBasedHyperstart option" where
  "stream_wrote seq out r h =
     (let h1 = h\<lparr>hs_pipes := (hs_pipes h)[so_pipe out := fst r], hs_blocked := None\<rparr> in
      case snd r of
        WDone n None \<Rightarrow> Some h1
      | WDone n (Some e) \<Rightarrow> removeStreamOut seq (close_pipe (so_pipe out) h1)
      | WWait rest written cap \<Rightarrow> Some (h1\<lparr>hs_blocked := Some (seq, out, rest, written, cap)\<rparr>))"

definition handleStreamFrom :: "TtyMessage \<Rightarrow> jsonBasedHyperstart \<Rightarrow> jsonBasedHyperstart option" where
  "handleStreamFrom res h =
     (case gget (hs_streamOuts h) (tm_Session res) of
        Some out \<Rightarrow>
          if length (tm_Message res) > 0 then
            (case bp_Write (tm_Message res) (hs_pipes h ! so_pipe out) of
               None \<Rightarrow> Some h
             | Some r \<Rightarrow> stream_wrote (tm_Session res) out r h)
          else removeStreamOut (tm_Session res) (close_pipe (so_pipe out) h)
      | None \<Rightarrow>
          if hs_vmAPIVersion h \<le> 4242
          then Some (sendProcessAsyncEvent4242 (tm_Session res)
                 (if length (tm_Message res) = 1 then hd (tm_Message res) else 255) h)
          else Some h)"

definition stream_resume :: "jsonBasedHyperstart \<Rightarrow> jsonBasedHyperstart option" where
  "stream_resume h =
     (case hs_blocked h of
        None \<Rightarrow> Some h
      | Some (seq, out, rest, written, cap) \<Rightarrow>
          (case bp_Write_resume rest written cap (hs_pipes h ! so_pipe out) of
             None \<Rightarrow> Some h
           | Some r \<Rightarrow> stream_wrote seq out r h))"

text \<open>\<^verbatim>\<open>Close\<close>; the commands left in the control channel are answered by that channel.\<close>

definition hs_Close :: "jsonBasedHyperstart \<Rightarrow> jsonBasedHyperstart" where
  "hs_Close h =
     (if hs_closed h then h
      else (let h1 = (fold (\<lambda>out. close_pipe (so_pipe out)) (gvals (hs_streamOuts h)) h)\<lparr>hs_streamOuts := []\<rparr>;
                h2 = for_procs (\<lambda>_. True) (\<lambda>ps. ps\<lparr>ps_outClosed := True, ps_exitStatus := Some 255\<rparr>) (hs_procs h1) h1
            in h2\<lparr>hs_procs := [], hs_closed := True\<rparr>))"

section \<open>Start of a process\<close>

definition allocStreamSeq :: "jsonBasedHyperstart \<Rightarrow> jsonBasedHyperstart \<times> uint64" where
  "allocStreamSeq h = (h\<lparr>hs_lastStreamSeq := hs_lastStreamSeq h + 1\<rparr>, hs_lastStreamSeq h)"

definition new_pipe :: "jsonBasedHyperstart \<Rightarrow> jsonBasedHyperstart \<times> nat" where
  "new_pipe h = (h\<lparr>hs_pipes := hs_pipes h @ [NewBytesPipe []]\<rparr>, length (hs_pipes h))"

text \<open>\<^verbatim>\<open>setupProcessIo\<close> on a fresh process state, which is stored behind the others.\<close>

definition setupProcessIo :: "bool \<Rightarrow> jsonBasedHyperstart \<Rightarrow> jsonBasedHyperstart \<times> nat" where
  "setupProcessIo terminal h =
     (let i = length (hs_ps h);
          (h1, stdio) = allocStreamSeq h;
          (h2, outPipe) = new_pipe h1;
          h3 = h2\<lparr>hs_streamOuts := gput stdio \<lparr>so_pipe = outPipe, so_ps = i\<rparr> (hs_streamOuts h2)\<rparr>;
          ps = \<lparr>ps_stdioSeq = stdio, ps_stderrSeq = 0, ps_stdinOpen = True, ps_stdoutPipe = Some outPipe, ps_stderrPipe = None,
                ps_exitStatus = None, ps_outClosed = False, ps_waitChan = None\<rparr>
      in if terminal then (h3\<lparr>hs_ps := hs_ps h3 @ [ps]\<rparr>, i)
         else (let (h4, stderr) = allocStreamSeq h3;
                   (h5, errPipe) = new_pipe h4;
                   h6 = h5\<lparr>hs_streamOuts := gput stderr \<lparr>so_pipe = errPipe, so_ps = i\<rparr> (hs_streamOuts h5)\<rparr>
               in (h6\<lparr>hs_ps := hs_ps h6 @ [ps\<lparr>ps_stderrSeq := stderr, ps_stderrPipe := Some errPipe\<rparr>]\<rparr>, i)))"

definition removeProcess :: "string \<Rightarrow> string \<Rightarrow> jsonBasedHyperstart \<Rightarrow> jsonBasedHyperstart" where
  "removeProcess container process h =
     (case gget (hs_procs h) (container, process) of
        None \<Rightarrow> h
      | Some i \<Rightarrow>
          (let h1 = h\<lparr>hs_procs := gdel (container, process) (hs_procs h)\<rparr>;
               ps = hs_ps h1 ! i;
               h2 = (if ps_stdioSeq ps > 0 then h1\<lparr>hs_streamOuts := gdel (ps_stdioSeq ps) (hs_streamOuts h1)\<rparr> else h1)
           in if ps_stderrSeq ps > 0 then h2\<lparr>hs_streamOuts := gdel (ps_stderrSeq ps) (hs_streamOuts h2)\<rparr> else h2))"

definition convertUser :: "UserGroupInfo option \<Rightarrow> HProcess \<Rightarrow> HProcess" where
  "convertUser user p =
     (case user of
        None \<Rightarrow> p
      | Some u \<Rightarrow>
          (let p1 = (if ugi_User u \<noteq> [] then p\<lparr>hp_User := ugi_User u\<rparr> else p);
               p2 = (if ugi_Group u \<noteq> [] then p1\<lparr>hp_Group := ugi_Group u\<rparr> else p1)
           in p2\<lparr>hp_AdditionalGroups := hp_AdditionalGroups p2 @ ugi_AdditionalGroups u\<rparr>))"

section \<open>The container specification\<close>

text \<open>
  The mounts of a container: a mount below the shared directory becomes a file-system mapping, a
  mount below the mount point of a storage a volume; other mounts are left out.
\<close>

definition mount_String :: "OciMount \<Rightarrow> string" where
  "mount_String m =
     ''{'' @ om_Destination m @ '' '' @ om_Type m @ '' '' @ om_Source m @ '' ['' @ join_with CHR '' '' (om_Options m) @ '']}''"

fun convert_mounts :: "string \<Rightarrow> Storage list \<Rightarrow> OciMount list \<Rightarrow> HContainer \<Rightarrow> string + HContainer" where
  "convert_mounts shareDir storages [] c = Inr c"
| "convert_mounts shareDir storages (m # ms) c =
     (if shareDir \<noteq> [] \<and> HasPrefix (om_Source m) shareDir then
        convert_mounts shareDir storages ms
          (c\<lparr>hc_Fsmap := hc_Fsmap c @ [\<lparr>hf_Source = TrimPrefix (om_Source m) shareDir, hf_Path = om_Destination m,
                                       hf_ReadOnly = False, hf_DockerVolume = False\<rparr>]\<rparr>)
      else (case find (\<lambda>s. HasPrefix (om_Source m) (st_MountPoint s)) storages of
              None \<Rightarrow> convert_mounts shareDir storages ms c
            | Some s \<Rightarrow>
                if path_Join [st_MountPoint s, ''_data''] \<noteq> om_Source m
                then Inl (''wrong configured storages: shareDir:'' @ shareDir @ '', mount:'' @ mount_String m)
                else convert_mounts shareDir storages ms
                  (c\<lparr>hc_Volumes := hc_Volumes c @
                       [\<lparr>hv_Device = st_Source s, hv_Addr = (if st_Driver s = ''scsi'' then st_Source s else []),
                         hv_Mount = om_Destination m, hv_Fstype = st_Fstype s, hv_ReadOnly = False, hv_DockerVolume = False\<rparr>]\<rparr>)))"

text \<open>The root of a container and the storages left for its mounts.\<close>

definition convert_root :: "string \<Rightarrow> string \<Rightarrow> Storage list \<Rightarrow> HContainer \<Rightarrow> string + (HContainer \<times> Storage list)" where
  "convert_root shareDir rootPath storages c =
     (if shareDir \<noteq> [] \<and> HasPrefix rootPath shareDir then
        Inr (c\<lparr>hc_Rootfs := path_Base (TrimPrefix rootPath shareDir), hc_Image := path_Dir (TrimPrefix rootPath shareDir)\<rparr>, storages)
      else (case storages of
              s # rest \<Rightarrow>
                if HasPrefix rootPath (st_MountPoint s)
                then Inr (c\<lparr>hc_Rootfs := TrimPrefix rootPath (st_MountPoint s), hc_Fstype := st_Fstype s, hc_Image := st_Source s,
                            hc_Addr := (if st_Driver s = ''scsi'' then st_Source s else hc_Addr c)\<rparr>, rest)
                else Inl ''wrong configured storages for the container root''
            | [] \<Rightarrow> Inl ''wrong configured storages for the container root''))"

definition convertContainer ::
  "string \<Rightarrow> string \<Rightarrow> UserGroupInfo option \<Rightarrow> Storage list \<Rightarrow> OciSpec \<Rightarrow> (string + HContainer) option" where
  "convertContainer shareDir container user storages oci =
     (case (os_Root oci, os_Process oci) of
        (Some root, Some process) \<Rightarrow>
          (let sysctl = (if gget (os_Sysctl oci) ''vm.overcommit_memory'' = None
                         then gput ''vm.overcommit_memory'' ''1'' (os_Sysctl oci) else os_Sysctl oci);
               rt = \<lparr>hc_Id = container, hc_Rootfs = [], hc_Fstype = [], hc_Image = [], hc_Addr = [], hc_Volumes = [], hc_Fsmap = [],
                     hc_Sysctl = sysctl, hc_Process = convertUser user (ProcessFromOci ''init'' process),
                     hc_RestartPolicy = ''never'', hc_Initialize = False, hc_ReadOnly = or_Readonly root\<rparr>
           in Some (case convert_root shareDir (or_Path root) storages rt of
                      Inl e \<Rightarrow> Inl e
                    | Inr (c, storages') \<Rightarrow> convert_mounts shareDir storages' (os_Mounts oci) c))
      | _ \<Rightarrow> None)"

section \<open>Requests\<close>

definition hs_shareDir :: "jsonBasedHyperstart \<Rightarrow> string" where
  "hs_shareDir h = (case hs_shareStorage h of None \<Rightarrow> [] | Some s \<Rightarrow> st_MountPoint s)"

text \<open>
  \<^verbatim>\<open>hyperstartCommand\<close>: the command goes to the control channel, \<open>reply\<close> is what comes back on its
  result channel; on a closed channel the panic of the send is recovered into an error. A command
  that depends on the version of the guest first waits for it; the state is that behind the wait.
\<close>

definition hyperstartCommand ::
  "uint32 \<Rightarrow> hs_msg \<Rightarrow> string option \<Rightarrow> jsonBasedHyperstart \<Rightarrow> jsonBasedHyperstart \<times> string option" where
  "hyperstartCommand code msg reply h =
     (if hs_closed h then (h, Some ''send ctl channel error, the hyperstart might have closed'')
      else (h\<lparr>hs_sent := hs_sent h @ [(code, msg)]\<rparr>, reply))"

definition CreateContainer ::
  "string \<Rightarrow> UserGroupInfo option \<Rightarrow> Storage list \<Rightarrow> OciSpec \<Rightarrow> jsonBasedHyperstart \<Rightarrow>
   (jsonBasedHyperstart \<times> string option) option" where
  "CreateContainer container user storages oci h =
     (case convertContainer (hs_shareDir h) container user storages oci of
        None \<Rightarrow> None
      | Some (Inl e) \<Rightarrow> Some (h, Some e)
      | Some (Inr c) \<Rightarrow>
          (let pid = hp_Id (hc_Process c) in
           if gget (hs_containerCreated h) container \<noteq> None
           then Some (h, Some (''container '' @ container @ '' is already created''))
           else if gget (hs_procs h) (hc_Id c, pid) \<noteq> None
           then Some (h, Some (''process id conflicts, the process of the id '' @ pid @ '' already exists''))
           else (let (h1, i) = setupProcessIo (hp_Terminal (hc_Process c)) h;
                     ps = hs_ps h1 ! i;
                     c' = c\<lparr>hc_Process := (hc_Process c)\<lparr>hp_Stdio := ps_stdioSeq ps, hp_Stderr := ps_stderrSeq ps\<rparr>\<rparr>
                 in Some (h1\<lparr>hs_procs := gput (hc_Id c, pid) i (hs_procs h1),
                             hs_containerCreated := gput container c' (hs_containerCreated h1)\<rparr>, None))))"

definition StartContainer ::
  "string \<Rightarrow> string option \<Rightarrow> jsonBasedHyperstart \<Rightarrow> jsonBasedHyperstart \<times> string option" where
  "StartContainer container reply h =
     (case gget (hs_containerCreated h) container of
        None \<Rightarrow> (h, Some (''container '' @ container @ '' is not created''))
      | Some c \<Rightarrow>
          (case hyperstartCommand INIT_NEWCONTAINER (MsgContainer c) reply
                  (h\<lparr>hs_containerCreated := gdel container (hs_containerCreated h)\<rparr>) of
             (h1, None) \<Rightarrow> (h1, None)
           | (h1, Some e) \<Rightarrow> (removeProcess (hc_Id c) (hp_Id (hc_Process c)) h1, Some e)))"

definition ExecProcess ::
  "string \<Rightarrow> string \<Rightarrow> UserGroupInfo option \<Rightarrow> OciProcess \<Rightarrow> string option \<Rightarrow> jsonBasedHyperstart \<Rightarrow>
   jsonBasedHyperstart \<times> string option" where
  "ExecProcess container process user oci reply h =
     (let p = convertUser user (ProcessFromOci process oci) in
      if gget (hs_procs h) (container, hp_Id p) \<noteq> None
      then (h, Some (''process id conflicts, the process of the id '' @ hp_Id p @ '' already exists''))
      else (let (h1, i) = setupProcessIo (hp_Terminal p) h;
                h2 = h1\<lparr>hs_procs := gput (container, hp_Id p) i (hs_procs h1)\<rparr>;
                ps = hs_ps h2 ! i;
                p' = p\<lparr>hp_Stdio := ps_stdioSeq ps, hp_Stderr := ps_stderrSeq ps\<rparr>
            in case hyperstartCommand INIT_EXECCMD (ExecCommand container p') reply h2 of
                 (h3, None) \<Rightarrow> (h3, None)
               | (h3, Some e) \<Rightarrow> (removeProcess container (hp_Id p) h3, Some e)))"

definition SignalProcess ::
  "string \<Rightarrow> string \<Rightarrow> int \<Rightarrow> string option \<Rightarrow> jsonBasedHyperstart \<Rightarrow> jsonBasedHyperstart \<times> string option" where
  "SignalProcess container process0 signal reply h =
     (let process = (if process0 = [] then ''init'' else process0) in
      if hs_vmAPIVersion h \<le> 4242 then
        (if process = ''init'' then hyperstartCommand INIT_KILLCONTAINER (KillCommand container signal) reply h
         else (h, Some ''only the init process of the container can be signaled''))
      else hyperstartCommand INIT_SIGNALPROCESS (SignalCommand container process signal) reply h)"

text \<open>
  \<^verbatim>\<open>WaitProcess\<close> up to its receive: the process it waits for, or \<open>None\<close> for the answer \<open>-1\<close>. The receive
  takes the value in the channel and puts it back; it waits while the channel is empty.
\<close>

definition WaitProcess :: "string \<Rightarrow> string \<Rightarrow> jsonBasedHyperstart \<Rightarrow> jsonBasedHyperstart \<times> nat option" where
  "WaitProcess container process h =
     (case gget (hs_procs h) (container, process) of
        None \<Rightarrow> (h, None)
      | Some i \<Rightarrow>
          (if ps_waitChan (hs_ps h ! i) = None
           then handleWaitProcess (container, process) i (upd_ps i (\<lambda>ps. ps\<lparr>ps_waitChan := Some []\<rparr>) h)
           else h, Some i))"

definition WaitProcess_receive :: "nat \<Rightarrow> jsonBasedHyperstart \<Rightarrow> int option" where
  "WaitProcess_receive i h = (case ps_waitChan (hs_ps h ! i) of Some (v # _) \<Rightarrow> Some v | _ \<Rightarrow> None)"

definition StartSandbox ::
  "SandboxConfig \<Rightarrow> Storage list \<Rightarrow> string option \<Rightarrow> jsonBasedHyperstart \<Rightarrow> jsonBasedHyperstart \<times> string option" where
  "StartSandbox sb storages reply h =
     (case storages of
        [s] \<Rightarrow>
          if st_Fstype s \<noteq> ''9p'' then (h, Some ''unspported storages'')
          else hyperstartCommand INIT_STARTPOD
                 (MsgPod \<lparr>po_Hostname = sc_Hostname sb, po_Dns = sc_Dns sb, po_DnsOptions = sc_DnsOptions sb, po_DnsSearch = sc_DnsSearch sb,
                          po_ShareDir = st_Source s,
                          po_WhiteLists = map_option (\<lambda>n. (nn_InternalNetworks n, nn_ExternalNetworks n)) (sc_Neighbors sb)\<rparr>)
                 reply (h\<lparr>hs_shareStorage := Some s\<rparr>)
      | _ \<Rightarrow> (h, Some ''unspported storages''))"

definition DestroySandbox :: "string option \<Rightarrow> jsonBasedHyperstart \<Rightarrow> jsonBasedHyperstart \<times> string option" where
  "DestroySandbox reply h = hyperstartCommand INIT_DESTROYPOD NoMsg reply h"

definition OnlineCpuMem :: "string option \<Rightarrow> jsonBasedHyperstart \<Rightarrow> jsonBasedHyperstart \<times> string option" where
  "OnlineCpuMem reply h = hyperstartCommand INIT_ONLINECPUMEM NoMsg reply h"

definition hs_AddRoute :: "Route list \<Rightarrow> string option \<Rightarrow> jsonBasedHyperstart \<Rightarrow> jsonBasedHyperstart \<times> string option" where
  "hs_AddRoute r reply h =
     hyperstartCommand INIT_SETUPROUTE
       (MsgRoutes (map (\<lambda>e. \<lparr>hr_Dest = rt_Dest e, hr_Gateway = rt_Gateway e, hr_Device = rt_Device e\<rparr>) r)) reply h"

text \<open>\<^verbatim>\<open>UpdateInterface\<close>; \<^verbatim>\<open>DelIP\<close> sends nothing and \<^verbatim>\<open>SetMtu\<close> only a positive value.\<close>

definition hs_UpdateInterface ::
  "InfUpdateType \<Rightarrow> string \<Rightarrow> string \<Rightarrow> IpAddress list \<Rightarrow> uint64 \<Rightarrow> string option \<Rightarrow> jsonBasedHyperstart \<Rightarrow>
   jsonBasedHyperstart \<times> string option" where
  "hs_UpdateInterface t dev newName ipAddresses mtu reply h =
     (let inf = \<lparr>ni_Device = dev, ni_NewName = [], ni_IpAddresses = [], ni_Mtu = 0\<rparr>;
          ips = map (\<lambda>ip. (ipa_IpAddress ip, ipa_NetMask ip)) ipAddresses;
          failed = (\<lambda>what (h, e). (h, map_option ((@) (''json: failed to send <'' @ what)) e))
      in case t of
           AddInf \<Rightarrow> failed ''add interface> command to hyperstart: '' (hyperstartCommand INIT_SETUPINTERFACE
                       (MsgInf (inf\<lparr>ni_NewName := newName, ni_Mtu := mtu, ni_IpAddresses := ips\<rparr>)) reply h)
         | DelInf \<Rightarrow> failed (''delete interface> command to hyperstart. inf: json.NetworkInf{Device:'' @ dev @
                        '', NewName:, IpAddresses:[]json.IpAddress{}, Mtu:0x0}, error: '') (hyperstartCommand INIT_DELETEINTERFACE (MsgInf inf) reply h)
         | AddIP \<Rightarrow> failed ''add ip> command to hyperstart: '' (hyperstartCommand INIT_SETUPINTERFACE (MsgInf (inf\<lparr>ni_IpAddresses := ips\<rparr>)) reply h)
         | DelIP \<Rightarrow> (h, None)
         | SetMtu \<Rightarrow> if mtu > 0 then failed ''SetMtu> command to hyperstart: '' (hyperstartCommand INIT_SETUPINTERFACE (MsgInf (inf\<lparr>ni_Mtu := mtu\<rparr>)) reply h)
                     else (h, None))"

definition no_process :: "string \<Rightarrow> string \<Rightarrow> string" where
  "no_process container process = ''cannot find process: '' @ container @ '', '' @ process"

text \<open>The channel of the stream socket is closed with the agent, so a write then fails.\<close>

definition WriteStdin ::
  "string \<Rightarrow> string \<Rightarrow> byte list \<Rightarrow> jsonBasedHyperstart \<Rightarrow> jsonBasedHyperstart \<times> nat \<times> string option" where
  "WriteStdin container process data h =
     (case gget (hs_procs h) (container, process) of
        None \<Rightarrow> (h, 0, Some (no_process container process))
      | Some i \<Rightarrow>
          (let ps = hs_ps h ! i;
               (msgs, r) = streamIn_Write (\<not> ps_stdinOpen ps) (if hs_closed h then Some 0 else None) (ps_stdioSeq ps) 0 data
           in (h\<lparr>hs_streamChan := hs_streamChan h @ msgs\<rparr>, r)))"

text \<open>\<^verbatim>\<open>streamIn.Close\<close> sends an empty message; a second one fails on the nil pointer, which is recovered.\<close>

definition streamIn_Close :: "bool \<Rightarrow> bool \<Rightarrow> uint64 \<Rightarrow> TtyMessage list \<times> string option" where
  "streamIn_Close gone closed seq =
     (if gone \<or> closed then ([], Some ''Write stream error, the hyperstart might have closed'')
      else ([\<lparr>tm_Session = seq, tm_Message = []\<rparr>], None))"

definition CloseStdin :: "string \<Rightarrow> string \<Rightarrow> jsonBasedHyperstart \<Rightarrow> jsonBasedHyperstart \<times> string option" where
  "CloseStdin container process h =
     (case gget (hs_procs h) (container, process) of
        None \<Rightarrow> (h, Some (no_process container process))
      | Some i \<Rightarrow>
          (let ps = hs_ps h ! i in
           case streamIn_Close (\<not> ps_stdinOpen ps) (hs_closed h) (ps_stdioSeq ps) of
             (_, Some e) \<Rightarrow> (h, Some e)
           | (msgs, None) \<Rightarrow>
               (upd_ps i (\<lambda>ps. ps\<lparr>ps_stdinOpen := False\<rparr>) (h\<lparr>hs_streamChan := hs_streamChan h @ msgs\<rparr>), None)))"

text \<open>A read of an output: the pipe of the process is read, which may have to wait.\<close>

datatype read_reply = ReadNoProcess string | ReadEof | ReadPipe read_res

definition read_pipe :: "nat option \<Rightarrow> nat \<Rightarrow> jsonBasedHyperstart \<Rightarrow> (jsonBasedHyperstart \<times> read_reply) option" where
  "read_pipe pipe n h =
     (case pipe of
        None \<Rightarrow> None
      | Some q \<Rightarrow> map_option (\<lambda>(bp, r). (h\<lparr>hs_pipes := (hs_pipes h)[q := bp]\<rparr>, ReadPipe r)) (bp_Read n (hs_pipes h ! q)))"

definition ReadStdout :: "string \<Rightarrow> string \<Rightarrow> nat \<Rightarrow> jsonBasedHyperstart \<Rightarrow> (jsonBasedHyperstart \<times> read_reply) option" where
  "ReadStdout container process n h =
     (case gget (hs_procs h) (container, process) of
        None \<Rightarrow> Some (h, ReadNoProcess (no_process container process))
      | Some i \<Rightarrow> read_pipe (ps_stdoutPipe (hs_ps h ! i)) n h)"

definition ReadStderr :: "string \<Rightarrow> string \<Rightarrow> nat \<Rightarrow> jsonBasedHyperstart \<Rightarrow> (jsonBasedHyperstart \<times> read_reply) option" where
  "ReadStderr container process n h =
     (case gget (hs_procs h) (container, process) of
        None \<Rightarrow> Some (h, ReadNoProcess (no_process container process))
      | Some i \<Rightarrow>
          if ps_stderrSeq (hs_ps h ! i) = 0 then Some (h, ReadEof)
          else read_pipe (ps_stderrPipe (hs_ps h ! i)) n h)"

definition TtyWinResize4242 ::
  "string \<Rightarrow> string \<Rightarrow> uint16 \<Rightarrow> uint16 \<Rightarrow> string option \<Rightarrow> jsonBasedHyperstart \<Rightarrow> jsonBasedHyperstart \<times> string option" where
  "TtyWinResize4242 container process row col reply h =
     (case gget (hs_procs h) (container, process) of
        None \<Rightarrow> (h, Some (no_process container process))
      | Some i \<Rightarrow> hyperstartCommand INIT_WINSIZE (Winsize4242 (ps_stdioSeq (hs_ps h ! i)) row col) reply h)"

definition TtyWinResize ::
  "string \<Rightarrow> string \<Rightarrow> uint16 \<Rightarrow> uint16 \<Rightarrow> string option \<Rightarrow> jsonBasedHyperstart \<Rightarrow> jsonBasedHyperstart \<times> string option" where
  "TtyWinResize container process row col reply h =
     (if hs_vmAPIVersion h \<le> 4242 then TtyWinResize4242 container process row col reply h
      else hyperstartCommand INIT_WINSIZE (WindowSizeMessage container process row col) reply h)"

text \<open>The version of the guest: an error, or a payload of which the first four bytes count.\<close>

definition APIVersion :: "string + byte list \<Rightarrow> jsonBasedHyperstart \<Rightarrow> jsonBasedHyperstart \<times> (string + uint32)" where
  "APIVersion reply h =
     (case hyperstartCommand INIT_VERSION NoMsg (case reply of Inl e \<Rightarrow> Some e | Inr _ \<Rightarrow> None) h of
        (h1, Some e) \<Rightarrow> (h1, Inl e)
      | (h1, None) \<Rightarrow>
          (case reply of
             Inl e \<Rightarrow> (h1, Inl e)
           | Inr ret \<Rightarrow> (h1, if length ret < 4 then Inl ''unexpected version string'' else Inr (Uint32 ret))))"

definition hs_PauseSync :: "string option \<Rightarrow> jsonBasedHyperstart \<Rightarrow> jsonBasedHyperstart \<times> string option" where
  "hs_PauseSync reply h = hyperstartCommand hyperstartPauseSync NoMsg reply h"

text \<open>A paused agent without a version asks for it when it is resumed, and closes when that fails.\<close>

definition hs_Unpause ::
  "string option \<Rightarrow> string + byte list \<Rightarrow> jsonBasedHyperstart \<Rightarrow> jsonBasedHyperstart \<times> string option" where
  "hs_Unpause reply version h =
     (case hyperstartCommand hyperstartUnpause NoMsg reply h of
        (h1, Some e) \<Rightarrow> (h1, Some e)
      | (h1, None) \<Rightarrow>
          if hs_vmAPIVersion h1 = 0 then
            (case APIVersion version h1 of
               (h2, Inl e) \<Rightarrow> (hs_Close (h2\<lparr>hs_vmAPIVersion := 0\<rparr>), Some e)
             | (h2, Inr v) \<Rightarrow> (h2\<lparr>hs_vmAPIVersion := v\<rparr>, None))
          else (h1, None))"

section \<open>The control socket\<close>

text \<open>
  One round of \<^verbatim>\<open>handleMsgFromHyperstart\<close>: the replies go to the control channel, an exit event to its
  process; \<open>unmarshal\<close> stands for the JSON decoding of the event. The connection is \<open>None\<close> when the
  goroutine ends. A send on the closed control channel is a panic that is recovered.
\<close>

definition handleMsgFromHyperstart ::
  "(byte list \<Rightarrow> (string \<times> string \<times> int) option) \<Rightarrow> conn \<Rightarrow> jsonBasedHyperstart \<Rightarrow>
   jsonBasedHyperstart \<times> hyperstartCmd list \<times> conn option" where
  "handleMsgFromHyperstart unmarshal conn h =
     (case readVmMessage conn of
        None \<Rightarrow> (hs_Close h, [], None)
      | Some (res, conn') \<Rightarrow>
          if dm_Code res = INIT_ACK \<or> dm_Code res = INIT_NEXT \<or> dm_Code res = INIT_ERROR then
            (if hs_closed h then (h, [], None)
             else (h, [\<lparr>hq_Code = dm_Code res, hq_Message = None, hq_retMsg = dm_Message res, hq_result = 0\<rparr>], Some conn'))
          else if dm_Code res = INIT_PROCESSASYNCEVENT then
            ((case unmarshal (dm_Message res) of
                None \<Rightarrow> h
              | Some (container, process, status) \<Rightarrow> sendProcessAsyncEvent container process status h), [], Some conn')
          else (h, [], Some conn'))"

text \<open>
  \<^verbatim>\<open>handleCtlSock\<close>: the connection (or the error of the connect), the ready message, and the version of
  the guest, which is not asked for while it is paused.
\<close>

definition handleCtlSock ::
  "string + conn \<Rightarrow> bool \<Rightarrow> bool \<Rightarrow> string + byte list \<Rightarrow> jsonBasedHyperstart \<Rightarrow> jsonBasedHyperstart \<times> string option" where
  "handleCtlSock connect waitReady paused version h =
     (case connect of
        Inl e \<Rightarrow> (hs_Close h, Some e)
      | Inr conn \<Rightarrow>
          (let started = (\<lambda>h. if paused then (h, None)
                 else (case APIVersion version h of
                         (h1, Inl e) \<Rightarrow> (hs_Close (h1\<lparr>hs_vmAPIVersion := 0\<rparr>), Some e)
                       | (h1, Inr v) \<Rightarrow> (h1\<lparr>hs_vmAPIVersion := v\<rparr>, None)))
           in if waitReady then
                (case readVmMessage conn of
                   None \<Rightarrow> (hs_Close h, Some ''EOF'')
                 | Some (msg, _) \<Rightarrow>
                     if dm_Code msg \<noteq> INIT_READY
                     then (hs_Close h, Some (''Expect INIT_READY, but get init message '' @ utoa (unat (dm_Code msg))))
                     else started h)
              else started h))"

section \<open>The agent as a transition system\<close>

text \<open>
  \<open>None\<close> is a panic. A command that waits for its reply does not hold the lock, so other operations
  run in between; the removal of the process of a failed command is a step of its own.
\<close>

datatype hs_label =
    HCreate string "UserGroupInfo option" "Storage list" OciSpec
  | HStart string "string option"
  | HExec string string "UserGroupInfo option" OciProcess "string option"
  | HRemoveProcess string string
  | HExit string string int
  | HStream TtyMessage
  | HResume
  | HWait string string
  | HCloseStdin string string
  | HRead bool string string nat
  | HClose

fun hs_exec :: "hs_label \<Rightarrow> jsonBasedHyperstart \<Rightarrow> jsonBasedHyperstart option" where
  "hs_exec (HCreate c u st oci) h = map_option fst (CreateContainer c u st oci h)"
| "hs_exec (HStart c reply) h = Some (fst (StartContainer c reply h))"
| "hs_exec (HExec c p u oci reply) h = Some (fst (ExecProcess c p u oci reply h))"
| "hs_exec (HRemoveProcess c p) h = Some (removeProcess c p h)"
| "hs_exec (HExit c p st) h = Some (sendProcessAsyncEvent c p st h)"
| "hs_exec (HStream m) h = (if hs_blocked h = None then handleStreamFrom m h else Some h)"
| "hs_exec HResume h = stream_resume h"
| "hs_exec (HWait c p) h = Some (fst (WaitProcess c p h))"
| "hs_exec (HCloseStdin c p) h = Some (fst (CloseStdin c p h))"
| "hs_exec (HRead err c p n) h = map_option fst ((if err then ReadStderr else ReadStdout) c p n h)"
| "hs_exec HClose h = Some (hs_Close h)"

fun hs_run :: "hs_label list \<Rightarrow> jsonBasedHyperstart \<Rightarrow> jsonBasedHyperstart option" where
  "hs_run [] h = Some h"
| "hs_run (l # ls) h = (case hs_exec l h of None \<Rightarrow> None | Some h' \<Rightarrow> hs_run ls h')"

end
