(* ===== verification/HsProcInv.thy ===== *)
theory HsProcInv
  imports HsProc
begin

text \<open>
  Invariants of the process and stream tables of the agent: sequence numbers and pipes belong to
  one process, an exit status is sent once; and the properties that rest on them.
\<close>

section \<open>Invariant: streams and pipes belong to one process\<close>

definition ps_static :: "pState \<Rightarrow> uint64 \<times> uint64 \<times> nat option \<times> nat option" where
  "ps_static p = (ps_stdioSeq p, ps_stderrSeq p, ps_stdoutPipe p, ps_stderrPipe p)"

definition hs_static :: "jsonBasedHyperstart \<Rightarrow> (uint64 \<times> uint64 \<times> nat option \<times> nat option) list \<times> uint64 \<times> nat" where
  "hs_static h = (map ps_static (hs_ps h), hs_lastStreamSeq h, length (hs_pipes h))"

definition seqs :: "uint64 \<times> uint64 \<times> nat option \<times> nat option \<Rightarrow> uint64 list" where
  "seqs = (\<lambda>(out, err, _, _). out # (if err = 0 then [] else [err]))"

definition pipes :: "uint64 \<times> uint64 \<times> nat option \<times> nat option \<Rightarrow> nat list" where
  "pipes = (\<lambda>(_, _, out, err). (case out of None \<Rightarrow> [] | Some q \<Rightarrow> [q]) @ (case err of None \<Rightarrow> [] | Some q \<Rightarrow> [q]))"

definition owns :: "uint64 \<times> uint64 \<times> nat option \<times> nat option \<Rightarrow> uint64 \<Rightarrow> nat \<Rightarrow> bool" where
  "owns = (\<lambda>(out, err, outp, errp) seq q. (seq = out \<and> outp = Some q) \<or> (seq = err \<and> err \<noteq> 0 \<and> errp = Some q))"

definition ids_ok :: "(uint64 \<times> uint64 \<times> nat option \<times> nat option) list \<Rightarrow> uint64 \<Rightarrow> nat \<Rightarrow> bool" where
  "ids_ok ps nxt n \<longleftrightarrow> 0 < nxt \<and> distinct (concat (map seqs ps)) \<and> (\<forall>s \<in> set (concat (map seqs ps)). 0 < s \<and> s < nxt) \<and>
     distinct (concat (map pipes ps)) \<and> (\<forall>q \<in> set (concat (map pipes ps)). q < n)"

definition tables_ok :: "(uint64 \<times> uint64 \<times> nat option \<times> nat option) list \<Rightarrow> (pKey, nat) gomap \<Rightarrow> (uint64, streamOut) gomap \<Rightarrow> bool" where
  "tables_ok ps procs outs \<longleftrightarrow> gwf procs \<and> distinct (gvals procs) \<and> (\<forall>(pk, i) \<in> set procs. i < length ps) \<and>
     gwf outs \<and> (\<forall>(seq, out) \<in> set outs. so_ps out < length ps \<and> owns (ps ! so_ps out) seq (so_pipe out))"

definition stat_inv :: "jsonBasedHyperstart \<Rightarrow> bool" where
  "stat_inv h \<longleftrightarrow> ids_ok (map ps_static (hs_ps h)) (hs_lastStreamSeq h) (length (hs_pipes h)) \<and>
     tables_ok (map ps_static (hs_ps h)) (hs_procs h) (hs_streamOuts h)"

text \<open>Most operations only take entries out of the tables.\<close>

definition sub_map :: "('k, 'v) gomap \<Rightarrow> ('k, 'v) gomap \<Rightarrow> bool" where
  "sub_map m m' \<longleftrightarrow> set m' \<subseteq> set m \<and> (gwf m \<longrightarrow> gwf m') \<and> (distinct (gvals m) \<longrightarrow> distinct (gvals m'))"

definition shrinks :: "jsonBasedHyperstart \<Rightarrow> jsonBasedHyperstart \<Rightarrow> bool" where
  "shrinks h h' \<longleftrightarrow> hs_static h' = hs_static h \<and> sub_map (hs_procs h) (hs_procs h') \<and> sub_map (hs_streamOuts h) (hs_streamOuts h')"

lemma sub_map_refl [simp]: "sub_map m m" by (simp add: sub_map_def)

lemma sub_map_trans: "sub_map a b \<Longrightarrow> sub_map b c \<Longrightarrow> sub_map a c" by (auto simp: sub_map_def)

lemma sub_map_Nil [simp]: "sub_map m []" by (simp add: sub_map_def)

lemma gdel_filter: "gdel k m = filter (\<lambda>p. fst p \<noteq> k) m"
  unfolding AList.delete_eq by (rule filter_cong) auto

lemma sub_map_gdel [simp]: "sub_map m (gdel k m)"
  by (auto simp: sub_map_def gdel_filter distinct_map intro: inj_on_subset)

lemma shrinks_refl [simp]: "shrinks h h" by (simp add: shrinks_def)

lemma shrinks_trans: "shrinks a b \<Longrightarrow> shrinks b c \<Longrightarrow> shrinks a c"
  by (auto simp: shrinks_def intro: sub_map_trans)

lemma stat_inv_shrinks: "stat_inv h \<Longrightarrow> shrinks h h' \<Longrightarrow> stat_inv h'"
  unfolding stat_inv_def tables_ok_def shrinks_def hs_static_def sub_map_def by auto

lemma shrinks_upd_ps: "(\<And>p. ps_static (f p) = ps_static p) \<Longrightarrow> shrinks h (upd_ps i f h)"
  by (cases "i < length (hs_ps h)") (simp_all add: shrinks_def upd_ps_def hs_static_def map_update list_update_same_conv list_update_beyond)

lemma close_pipe_sel [simp]: "hs_procs (close_pipe q g) = hs_procs g" "hs_ps (close_pipe q g) = hs_ps g"
  by (simp_all add: close_pipe_def)

lemma shrinks_close_pipe: "shrinks h (close_pipe i h)"
  by (simp add: shrinks_def close_pipe_def hs_static_def)

lemma shrinks_fields:
  "shrinks h (h\<lparr>hs_procs := gdel pk (hs_procs h)\<rparr>)" "shrinks h (h\<lparr>hs_streamOuts := gdel seq (hs_streamOuts h)\<rparr>)"
  "shrinks h (h\<lparr>hs_blocked := b\<rparr>)" "shrinks h (h\<lparr>hs_pipes := (hs_pipes h)[q := bp], hs_blocked := b\<rparr>)"
  "shrinks h (h\<lparr>hs_pipes := (hs_pipes h)[q := bp]\<rparr>)" "shrinks h (h\<lparr>hs_containerCreated := cs\<rparr>)" "shrinks h (h\<lparr>hs_sent := xs\<rparr>)"
  "shrinks h (h\<lparr>hs_streamChan := ms\<rparr>)" "shrinks h (h\<lparr>hs_procs := [], hs_closed := cl\<rparr>)" "shrinks h (h\<lparr>hs_streamOuts := []\<rparr>)"
  by (simp_all add: shrinks_def hs_static_def)

lemma shrinks_handleWait: "shrinks h (handleWaitProcess pk i h)"
  unfolding handleWaitProcess_def Let_def
  by (auto split: option.split intro!: shrinks_trans [OF shrinks_fields(1) shrinks_upd_ps] simp: ps_static_def)

lemma shrinks_for_procs: "(\<And>p. ps_static (f p) = ps_static p) \<Longrightarrow> shrinks h (for_procs test f ps h)"
proof (induction ps arbitrary: h)
  case (Cons a ps)
  obtain pk i where a: "a = (pk, i)" by (cases a)
  have "shrinks h (handleWaitProcess pk i (upd_ps i f h))"
    by (rule shrinks_trans [OF shrinks_upd_ps [OF Cons.prems] shrinks_handleWait])
  then show ?case using Cons a by (auto intro: shrinks_trans)
qed simp

lemma close_stderr_frame:
  "close_stderr ps h = Some h2 \<Longrightarrow> shrinks h h2 \<and> hs_procs h2 = hs_procs h \<and> hs_ps h2 = hs_ps h"
  by (auto simp: close_stderr_def close_pipe_def shrinks_def hs_static_def split: if_splits option.splits)

lemma removeStreamOut_cases:
  assumes "removeStreamOut seq h = Some h'"
  obtains "h' = h" | "h' = h\<lparr>hs_streamOuts := gdel seq (hs_streamOuts h)\<rparr>"
    | h2 where "shrinks h h2" "hs_procs h2 = hs_procs h" "hs_ps h2 = hs_ps h"
      "h' = for_procs (\<lambda>ps. ps_stdioSeq ps = seq) (\<lambda>ps. ps\<lparr>ps_outClosed := True\<rparr>) (hs_procs h2) h2"
proof (cases "gget (hs_streamOuts h) seq")
  case (Some out)
  let ?h1 = "h\<lparr>hs_streamOuts := gdel seq (hs_streamOuts h)\<rparr>"
  show thesis
  proof (cases "seq = ps_stdioSeq (hs_ps h ! so_ps out)")
    case True
    then obtain h2 where h2: "close_stderr (hs_ps h ! so_ps out) ?h1 = Some h2"
      "h' = for_procs (\<lambda>ps. ps_stdioSeq ps = seq) (\<lambda>ps. ps\<lparr>ps_outClosed := True\<rparr>) (hs_procs h2) h2"
      using assms Some by (auto simp: removeStreamOut_def Let_def split: option.splits)
    have f: "shrinks ?h1 h2" "hs_procs h2 = hs_procs ?h1" "hs_ps h2 = hs_ps ?h1" using close_stderr_frame [OF h2(1)] by auto
    show thesis by (rule that(3) [OF shrinks_trans [OF shrinks_fields(2) f(1)] _ _ h2(2)]) (use f in simp_all)
  next
    case False
    then have "h' = ?h1" using assms Some by (simp add: removeStreamOut_def Let_def)
    then show thesis by (rule that(2))
  qed
next
  case None
  then have "h' = h" using assms by (simp add: removeStreamOut_def)
  then show thesis by (rule that(1))
qed

lemma shrinks_removeStreamOut: "removeStreamOut seq h = Some h' \<Longrightarrow> shrinks h h'"
proof (erule removeStreamOut_cases, simp, simp add: shrinks_fields)
  fix h2 assume "shrinks h h2" "h' = for_procs (\<lambda>ps. ps_stdioSeq ps = seq) (\<lambda>ps. ps\<lparr>ps_outClosed := True\<rparr>) (hs_procs h2) h2"
  then show ?thesis using shrinks_trans shrinks_for_procs by (simp add: ps_static_def)
qed

lemma shrinks_close_remove: "removeStreamOut seq (close_pipe q h1) = Some h' \<Longrightarrow> shrinks h h1 \<Longrightarrow> shrinks h h'"
  by (rule shrinks_trans [OF shrinks_trans [OF _ shrinks_close_pipe] shrinks_removeStreamOut])

lemma shrinks_stream_wrote: "stream_wrote seq out r h = Some h' \<Longrightarrow> shrinks h h'"
proof -
  assume w: "stream_wrote seq out r h = Some h'"
  have *: "shrinks h (h\<lparr>hs_pipes := (hs_pipes h)[so_pipe out := fst r], hs_blocked := b\<rparr>)" for b
    by (rule shrinks_fields)
  show ?thesis
  proof (cases "snd r")
    case (WDone n e)
    then show ?thesis using w * shrinks_close_remove [OF _ *] by (cases e) (auto simp: stream_wrote_def Let_def)
  next
    case (WWait rest written cap)
    then show ?thesis using w * by (auto simp: stream_wrote_def Let_def)
  qed
qed

lemma shrinks_handleStreamFrom: "handleStreamFrom m h = Some h' \<Longrightarrow> shrinks h h'"
proof -
  assume "handleStreamFrom m h = Some h'"
  moreover have "shrinks h (for_procs test (\<lambda>ps. ps\<lparr>ps_exitStatus := x\<rparr>) ps h)" for test x ps
    by (rule shrinks_for_procs) (simp add: ps_static_def)
  ultimately show ?thesis
    unfolding handleStreamFrom_def sendProcessAsyncEvent4242_def
    using shrinks_stream_wrote shrinks_close_remove [OF _ shrinks_refl] by (force split: option.splits if_splits)
qed

lemma shrinks_stream_resume: "stream_resume h = Some h' \<Longrightarrow> shrinks h h'"
  unfolding stream_resume_def by (auto split: option.splits intro: shrinks_stream_wrote)

lemma shrinks_close_procs:
  "shrinks h (for_procs (\<lambda>_. True) (\<lambda>ps. ps\<lparr>ps_outClosed := True, ps_exitStatus := Some 255\<rparr>) ps h)"
  by (rule shrinks_for_procs) (simp add: ps_static_def)

lemma shrinks_fold_close: "shrinks h (fold (\<lambda>out. close_pipe (so_pipe out)) outs h)"
  by (induction outs arbitrary: h) (auto intro: shrinks_trans shrinks_close_pipe)

lemma shrinks_Close: "shrinks h (hs_Close h)"
  unfolding hs_Close_def Let_def
  by (auto intro!: shrinks_trans [OF shrinks_trans [OF shrinks_trans [OF shrinks_fold_close shrinks_fields(10)] shrinks_close_procs] shrinks_fields(9)])

lemma shrinks_command: "shrinks h (fst (hyperstartCommand code msg reply h))"
  by (simp add: hyperstartCommand_def shrinks_fields)

lemma shrinks_removeProcess: "shrinks h (removeProcess c p h)"
proof -
  have "shrinks h (h\<lparr>hs_procs := gdel pk (hs_procs h), hs_streamOuts := gdel a (hs_streamOuts h)\<rparr>)"
    "shrinks h (h\<lparr>hs_procs := gdel pk (hs_procs h), hs_streamOuts := gdel b (gdel a (hs_streamOuts h))\<rparr>)" for pk a b
    by (simp_all add: shrinks_def hs_static_def sub_map_trans [OF sub_map_gdel sub_map_gdel])
  then show ?thesis by (auto simp: removeProcess_def Let_def shrinks_fields split: option.split)
qed

lemma shrinks_StartContainer: "shrinks h (fst (StartContainer c reply h))"
proof (cases "gget (hs_containerCreated h) c")
  case (Some cc)
  let ?r = "hyperstartCommand INIT_NEWCONTAINER (MsgContainer cc) reply (h\<lparr>hs_containerCreated := gdel c (hs_containerCreated h)\<rparr>)"
  have "shrinks h (fst ?r)" by (rule shrinks_trans [OF shrinks_fields(6) shrinks_command])
  then show ?thesis
    using Some shrinks_trans [OF _ shrinks_removeProcess, of h "fst ?r"]
    by (auto simp: StartContainer_def split: prod.split option.split)
qed (simp add: StartContainer_def)

lemma shrinks_exit: "shrinks h (sendProcessAsyncEvent c p st h)"
  unfolding sendProcessAsyncEvent_def
  by (auto split: option.split intro!: shrinks_trans [OF shrinks_upd_ps shrinks_handleWait] simp: ps_static_def)

lemma shrinks_wait: "shrinks h (fst (WaitProcess c p h))"
  unfolding WaitProcess_def
  by (auto split: option.split intro!: shrinks_trans [OF shrinks_upd_ps shrinks_handleWait] simp: ps_static_def)

lemma shrinks_CloseStdin: "shrinks h (fst (CloseStdin c p h))"
  unfolding CloseStdin_def streamIn_Close_def Let_def
  by (auto split: option.split intro!: shrinks_trans [OF shrinks_fields(8) shrinks_upd_ps] simp: ps_static_def)

lemma shrinks_read: "(if err then ReadStderr else ReadStdout) c p n h = Some (h', r) \<Longrightarrow> shrinks h h'"
  unfolding ReadStderr_def ReadStdout_def read_pipe_def
  by (auto split: option.splits if_splits intro: shrinks_fields)

subsection \<open>A new process\<close>

lemma setupProcessIo_fields:
  assumes "setupProcessIo t h = (h1, i)"
  shows "i = length (hs_ps h)" "hs_procs h1 = hs_procs h" "hs_containerCreated h1 = hs_containerCreated h" "hs_closed h1 = hs_closed h"
    "\<exists>p. hs_ps h1 = hs_ps h @ [p] \<and> ps_exitStatus p = None \<and> ps_waitChan p = None \<and> \<not> ps_outClosed p"
    "hs_sent h1 = hs_sent h" "hs_blocked h1 = hs_blocked h"
  using assms by (auto simp: setupProcessIo_def allocStreamSeq_def new_pipe_def Let_def split: if_splits)

lemma word_add_less:
  "unat (n :: uint64) + k < 2 ^ 64 \<Longrightarrow> unat (n + of_nat k) = unat n + k"
  by (simp add: unat_word_ariths unat_of_nat)

lemma word_next:
  assumes "unat (n :: uint64) + 2 < 2 ^ 64"
  shows "unat (n + 1) = unat n + 1" "unat (n + 1 + 1) = unat n + 2" "n < n + 1" "n + 1 < n + 1 + 1" "s < n \<Longrightarrow> s < n + 1" "s < n \<Longrightarrow> s < n + 1 + 1"
proof -
  show 1: "unat (n + 1) = unat n + 1" and 2: "unat (n + 1 + 1) = unat n + 2"
    using word_add_less [of n 1] word_add_less [of "n" 2] assms by (simp_all add: add.assoc)
  show "n < n + 1" "n + 1 < n + 1 + 1" "s < n \<Longrightarrow> s < n + 1" "s < n \<Longrightarrow> s < n + 1 + 1"
    using 1 2 by (simp_all add: word_less_nat_alt)
qed

lemma ids_ok_new:
  assumes "ids_ok ps nxt n" "distinct (seqs x)" "set (seqs x) \<subseteq> {nxt..<nxt'}" "distinct (pipes x)" "set (pipes x) \<subseteq> {n..<n'}"
    "nxt \<le> nxt'" "n \<le> n'"
  shows "ids_ok (ps @ [x]) nxt' n'"
proof -
  have "set (concat (map seqs ps)) \<inter> set (seqs x) = {}" "set (concat (map pipes ps)) \<inter> set (pipes x) = {}"
    using assms(1,3,5) by (fastforce simp: ids_ok_def)+
  then show ?thesis using assms unfolding ids_ok_def by (auto intro: order_less_le_trans) fastforce+
qed

lemma owns_append: "i < length ps \<Longrightarrow> (ps @ [x]) ! i = ps ! i"
  by (simp add: nth_append)

lemma owns_seqs: "owns x s q \<Longrightarrow> s \<in> set (seqs x) \<and> q \<in> set (pipes x)"
  by (cases x) (auto simp: owns_def seqs_def pipes_def)

lemma stat_inv_setup:
  assumes inv: "stat_inv h" and room: "unat (hs_lastStreamSeq h) + 2 < 2 ^ 64" and st: "setupProcessIo t h = (h1, i)"
  shows "stat_inv h1" "unat (hs_lastStreamSeq h1) \<le> unat (hs_lastStreamSeq h) + 2"
proof -
  let ?n = "hs_lastStreamSeq h" and ?q = "length (hs_pipes h)" and ?i = "length (hs_ps h)" and ?ps = "map ps_static (hs_ps h)"
  note w = word_next [OF room]
  define x where "x = (if t then (?n, 0, Some ?q, None) else (?n, ?n + 1, Some ?q, Some (Suc ?q)))"
  have h1: "map ps_static (hs_ps h1) = ?ps @ [x]" "hs_procs h1 = hs_procs h"
    "hs_lastStreamSeq h1 = (if t then ?n + 1 else ?n + 1 + 1)" "length (hs_pipes h1) = (if t then Suc ?q else Suc (Suc ?q))"
    using st by (auto simp: setupProcessIo_def allocStreamSeq_def new_pipe_def Let_def x_def ps_static_def split: if_splits)
  show "unat (hs_lastStreamSeq h1) \<le> unat ?n + 2" using h1(3) w(1,2) by simp
  have ids: "ids_ok ?ps ?n ?q" and tab: "tables_ok ?ps (hs_procs h) (hs_streamOuts h)" using inv by (simp_all add: stat_inv_def)
  have nz: "?n + 1 \<noteq> 0" using w(1) by (metis Suc_eq_plus1 nat.distinct(1) unat_0)
  have fresh: "gget (hs_streamOuts h) s = None" if "?n \<le> s" for s
  proof (rule ccontr)
    assume "gget (hs_streamOuts h) s \<noteq> None"
    then obtain out where "(s, out) \<in> set (hs_streamOuts h)" by (auto dest: map_of_SomeD)
    then have "so_ps out < length ?ps" "owns (?ps ! so_ps out) s (so_pipe out)" using tab unfolding tables_ok_def by blast+
    then have "so_ps out < length ?ps" "s \<in> set (seqs (?ps ! so_ps out))" using owns_seqs by blast+
    then have "s \<in> set (concat (map seqs ?ps))" by (metis (no_types, lifting) UN_I nth_mem set_concat set_map image_eqI)
    then have "s < ?n" using ids unfolding ids_ok_def by blast
    with that show False by simp
  qed
  have "ids_ok (?ps @ [x]) (hs_lastStreamSeq h1) (length (hs_pipes h1))"
    by (rule ids_ok_new [OF ids]) (use w nz h1 in \<open>auto simp: x_def seqs_def pipes_def split: if_splits\<close>)
  moreover have so: "hs_streamOuts h1 = hs_streamOuts h @ (?n, \<lparr>so_pipe = ?q, so_ps = ?i\<rparr>) #
      (if t then [] else [(?n + 1, \<lparr>so_pipe = Suc ?q, so_ps = ?i\<rparr>)])"
    using st fresh [of ?n] fresh [of "?n + 1"] w(3)
    by (auto simp: setupProcessIo_def allocStreamSeq_def new_pipe_def Let_def gput_absent split: if_splits)
  have "tables_ok (?ps @ [x]) (hs_procs h) (hs_streamOuts h1)"
    unfolding tables_ok_def so
    using tab fresh [of ?n] fresh [of "?n + 1"] w(3) nz
    by (auto simp: tables_ok_def owns_append x_def owns_def gget_None_keys nth_append)
  ultimately show "stat_inv h1" by (simp add: stat_inv_def h1)
qed

section \<open>Invariant: an exit status is sent once\<close>

definition chan_empty :: "pState \<Rightarrow> bool" where
  "chan_empty p \<longleftrightarrow> ps_waitChan p = None \<or> ps_waitChan p = Some []"

definition chan_one :: "pState \<Rightarrow> bool" where
  "chan_one p \<longleftrightarrow> (\<forall>ch. ps_waitChan p = Some ch \<longrightarrow> length ch \<le> 1)"

definition settled :: "pState \<Rightarrow> bool" where
  "settled p \<longleftrightarrow> ps_exitStatus p = None \<or> ps_waitChan p = None \<or> \<not> ps_outClosed p"

text \<open>Nothing was sent for a live process, and nothing is due, except for those of \<open>X\<close>.\<close>

definition dyn :: "nat set \<Rightarrow> jsonBasedHyperstart \<Rightarrow> bool" where
  "dyn X h \<longleftrightarrow> (\<forall>(pk, i) \<in> set (hs_procs h). chan_empty (hs_ps h ! i) \<and> (i \<notin> X \<longrightarrow> settled (hs_ps h ! i))) \<and>
     (\<forall>p \<in> set (hs_ps h). chan_one p)"

definition hs_inv :: "jsonBasedHyperstart \<Rightarrow> bool" where
  "hs_inv h \<longleftrightarrow> stat_inv h \<and> dyn {} h"

lemma dyn_cong: "hs_procs h' = hs_procs h \<Longrightarrow> hs_ps h' = hs_ps h \<Longrightarrow> dyn X h' = dyn X h"
  by (simp add: dyn_def)

lemma stat_inv_procs:
  assumes "stat_inv h" "(pk, i) \<in> set (hs_procs h)"
  shows "i < length (hs_ps h)" "(pk', i) \<in> set (hs_procs h) \<Longrightarrow> pk' = pk" "(pk, j) \<in> set (hs_procs h) \<Longrightarrow> j = i"
proof -
  have t: "gwf (hs_procs h)" "distinct (gvals (hs_procs h))" "\<forall>(pk, i) \<in> set (hs_procs h). i < length (hs_ps h)"
    using assms(1) by (auto simp: stat_inv_def tables_ok_def)
  show "i < length (hs_ps h)" using t(3) assms(2) by blast
  show "(pk', i) \<in> set (hs_procs h) \<Longrightarrow> pk' = pk"
    using t(2) assms(2) by (metis distinct_map inj_onD snd_conv Pair_inject)
  show "(pk, j) \<in> set (hs_procs h) \<Longrightarrow> j = i"
    using t(1) assms(2) by (metis distinct_map inj_onD fst_conv Pair_inject)
qed

lemma dyn_upd:
  assumes "stat_inv h" "dyn {} h" "(pk, i) \<in> set (hs_procs h)"
    and f: "\<And>p. chan_empty p \<Longrightarrow> chan_empty (f p)"
  shows "dyn {i} (upd_ps i f h)"
proof -
  have i: "i < length (hs_ps h)" by (rule stat_inv_procs(1) [OF assms(1,3)])
  have "chan_empty (hs_ps h ! i)" using assms(2,3) by (auto simp: dyn_def)
  then have e: "chan_empty (f (hs_ps h ! i))" by (rule f)
  then have "chan_one (f (hs_ps h ! i))" by (auto simp: chan_empty_def chan_one_def)
  then show ?thesis
    using assms(2) i e by (auto simp: dyn_def upd_ps_def nth_list_update dest!: set_update_subset_insert [THEN subsetD])
qed

lemma dyn_handleWait:
  assumes "stat_inv h" "dyn {i} h" "(pk, i) \<in> set (hs_procs h)"
  shows "dyn {} (handleWaitProcess pk i h)"
proof (cases "settled (hs_ps h ! i)")
  case True
  then have "handleWaitProcess pk i h = h" by (auto simp: handleWaitProcess_def settled_def Let_def split: option.split)
  then show ?thesis using assms(2) True by (auto simp: dyn_def)
next
  case False
  have i: "i < length (hs_ps h)" by (rule stat_inv_procs(1) [OF assms(1,3)])
  have "ps_waitChan (hs_ps h ! i) = Some []" using assms(2,3) False by (auto simp: dyn_def settled_def chan_empty_def)
  moreover obtain st where "ps_exitStatus (hs_ps h ! i) = Some st" "ps_outClosed (hs_ps h ! i)" using False by (auto simp: settled_def)
  ultimately have h': "handleWaitProcess pk i h =
      upd_ps i (\<lambda>ps. ps\<lparr>ps_waitChan := Some [st]\<rparr>) (h\<lparr>hs_procs := gdel pk (hs_procs h)\<rparr>)"
    by (simp add: handleWaitProcess_def Let_def)
  let ?ps = "(hs_ps h)[i := (hs_ps h ! i)\<lparr>ps_waitChan := Some [st]\<rparr>]"
  have "chan_empty (?ps ! j) \<and> settled (?ps ! j)" if "(pk', j) \<in> set (gdel pk (hs_procs h))" for pk' j
  proof -
    have "(pk', j) \<in> set (hs_procs h)" "pk' \<noteq> pk" using that by (simp_all add: gdel_filter)
    moreover from this have "j \<noteq> i" using stat_inv_procs(2) [OF assms(1,3)] by blast
    ultimately show ?thesis using assms(2) by (auto simp: dyn_def)
  qed
  moreover have "chan_one p" if "p \<in> set ?ps" for p
    using set_update_subset_insert [THEN subsetD, OF that] assms(2) by (auto simp: dyn_def chan_one_def)
  ultimately show ?thesis unfolding h' dyn_def upd_ps_def by auto
qed

lemma handleWait_keeps: "(pk', j) \<in> set (hs_procs h) \<Longrightarrow> pk' \<noteq> pk \<Longrightarrow> (pk', j) \<in> set (hs_procs (handleWaitProcess pk i h))"
  by (auto simp: handleWaitProcess_def upd_ps_def gdel_filter Let_def split: option.split)

lemma dyn_for_procs:
  assumes "stat_inv h" "dyn {} h" "set ps \<subseteq> set (hs_procs h)" "gwf ps"
    and f: "\<And>p. ps_static (f p) = ps_static p" "\<And>p. chan_empty p \<Longrightarrow> chan_empty (f p)"
  shows "dyn {} (for_procs test f ps h)"
  using assms(1-4)
proof (induction ps arbitrary: h)
  case (Cons a ps)
  obtain pk i where a: "a = (pk, i)" by (cases a)
  have mem: "(pk, i) \<in> set (hs_procs h)" using Cons.prems(3) a by simp
  define h' where "h' = handleWaitProcess pk i (upd_ps i f h)"
  have u: "stat_inv (upd_ps i f h)" "(pk, i) \<in> set (hs_procs (upd_ps i f h))"
    using stat_inv_shrinks [OF Cons.prems(1) shrinks_upd_ps [OF f(1)]] mem by (simp_all add: upd_ps_def)
  have "stat_inv h'" "dyn {} h'"
    unfolding h'_def
    by (rule stat_inv_shrinks [OF u(1) shrinks_handleWait]) (rule dyn_handleWait [OF u(1) dyn_upd [OF Cons.prems(1,2) mem f(2)] u(2)])
  moreover have "set ps \<subseteq> set (hs_procs h')"
  proof
    fix x assume x: "x \<in> set ps"
    obtain pk' j where x': "x = (pk', j)" by (cases x)
    have "pk' \<noteq> pk" using Cons.prems(4) a x x' by force
    moreover have "(pk', j) \<in> set (hs_procs (upd_ps i f h))" using Cons.prems(3) x x' by (auto simp: upd_ps_def)
    ultimately show "x \<in> set (hs_procs h')" unfolding x' h'_def by (rule handleWait_keeps [rotated])
  qed
  ultimately show ?case using Cons a by (auto simp: h'_def [symmetric])
qed simp

lemma dyn_sub: "dyn {} h \<Longrightarrow> hs_ps h' = hs_ps h \<Longrightarrow> set (hs_procs h') \<subseteq> set (hs_procs h) \<Longrightarrow> dyn {} h'"
  by (auto simp: dyn_def)

lemma hs_inv_shrinks: "hs_inv h \<Longrightarrow> shrinks h h' \<Longrightarrow> dyn {} h' \<Longrightarrow> hs_inv h' \<and> hs_lastStreamSeq h' = hs_lastStreamSeq h"
  using stat_inv_shrinks by (auto simp: hs_inv_def shrinks_def hs_static_def)

lemma dyn_wait_upd:
  assumes "hs_inv h" "gget (hs_procs h) pk = Some i" "\<And>p. ps_static (f p) = ps_static p" "\<And>p. chan_empty p \<Longrightarrow> chan_empty (f p)"
  shows "dyn {} (handleWaitProcess pk i (upd_ps i f h))"
proof -
  have h: "stat_inv h" "dyn {} h" "(pk, i) \<in> set (hs_procs h)" using assms(1,2) by (auto simp: hs_inv_def dest: map_of_SomeD)
  show ?thesis
    by (rule dyn_handleWait [OF stat_inv_shrinks [OF h(1) shrinks_upd_ps [OF assms(3)]] dyn_upd [OF h assms(4)]]) (use h(3) in \<open>simp_all add: upd_ps_def\<close>)
qed

lemma dyn_all_procs:
  assumes "stat_inv h" "dyn {} h" "\<And>p. ps_static (f p) = ps_static p" "\<And>p. chan_empty p \<Longrightarrow> chan_empty (f p)"
  shows "dyn {} (for_procs test f (hs_procs h) h)"
  by (rule dyn_for_procs [OF assms(1,2) order_refl _ assms(3,4)]) (use assms(1) in \<open>simp add: stat_inv_def tables_ok_def\<close>)

lemma chan_empty_upd [simp]:
  "chan_empty (p\<lparr>ps_outClosed := b\<rparr>) = chan_empty p" "chan_empty (p\<lparr>ps_exitStatus := e\<rparr>) = chan_empty p"
  "chan_empty (p\<lparr>ps_waitChan := Some []\<rparr>)" "chan_empty (p\<lparr>ps_stdinOpen := b\<rparr>) = chan_empty p"
  by (simp_all add: chan_empty_def)

lemma ps_static_upd [simp]:
  "ps_static (p\<lparr>ps_outClosed := b\<rparr>) = ps_static p" "ps_static (p\<lparr>ps_exitStatus := e\<rparr>) = ps_static p"
  "ps_static (p\<lparr>ps_waitChan := w\<rparr>) = ps_static p" "ps_static (p\<lparr>ps_stdinOpen := b\<rparr>) = ps_static p"
  by (simp_all add: ps_static_def)

lemma dyn_removeStreamOut:
  assumes "stat_inv h" "dyn {} h" "removeStreamOut seq h = Some h'"
  shows "dyn {} h'"
  using assms(3)
proof (cases rule: removeStreamOut_cases)
  case (3 h2)
  have "dyn {} h2" using assms(2) 3(2,3) by (simp add: dyn_def)
  then show ?thesis unfolding 3(4) by (rule dyn_all_procs [OF stat_inv_shrinks [OF assms(1) 3(1)]]) simp_all
qed (use assms(2) in \<open>simp_all add: dyn_def\<close>)

lemma dyn_close_remove:
  assumes "stat_inv h" "dyn {} h" "removeStreamOut seq (close_pipe q h) = Some h'"
  shows "dyn {} h'"
  by (rule dyn_removeStreamOut [OF stat_inv_shrinks [OF assms(1) shrinks_close_pipe] _ assms(3)])
    (rule dyn_sub [OF assms(2)], simp_all add: close_pipe_def)

lemma dyn_stream_wrote:
  assumes "stat_inv h" "dyn {} h" "stream_wrote seq out r h = Some h'"
  shows "dyn {} h'"
proof -
  let ?h = "\<lambda>b. h\<lparr>hs_pipes := (hs_pipes h)[so_pipe out := fst r], hs_blocked := b\<rparr>"
  have d: "stat_inv (?h b)" "dyn {} (?h b)" for b
    using stat_inv_shrinks [OF assms(1) shrinks_fields(4)] assms(2) by (simp_all add: dyn_def)
  show ?thesis
  proof (cases "snd r")
    case (WDone n e)
    then show ?thesis using assms(3) d dyn_close_remove [OF d] by (cases e) (auto simp: stream_wrote_def Let_def)
  next
    case (WWait rest written cap)
    then show ?thesis using assms(3) d by (auto simp: stream_wrote_def Let_def)
  qed
qed

lemma dyn_handleStreamFrom:
  assumes "stat_inv h" "dyn {} h" "handleStreamFrom m h = Some h'"
  shows "dyn {} h'"
proof (cases "gget (hs_streamOuts h) (tm_Session m)")
  case None
  have "dyn {} (for_procs test (\<lambda>ps. ps\<lparr>ps_exitStatus := x\<rparr>) (hs_procs h) h)" for test x
    by (rule dyn_all_procs [OF assms(1,2)]) simp_all
  then show ?thesis using assms(2,3) None by (auto simp: handleStreamFrom_def sendProcessAsyncEvent4242_def split: if_splits)
next
  case (Some out)
  then show ?thesis
    using assms(2,3) dyn_close_remove [OF assms(1,2)] dyn_stream_wrote [OF assms(1,2)]
    by (auto simp: handleStreamFrom_def split: if_splits option.splits)
qed

lemma dyn_Close:
  assumes "stat_inv h" "dyn {} h"
  shows "dyn {} (hs_Close h)"
proof -
  let ?h1 = "(fold (\<lambda>out. close_pipe (so_pipe out)) (gvals (hs_streamOuts h)) h)\<lparr>hs_streamOuts := []\<rparr>"
  have *: "hs_procs (fold (\<lambda>out. close_pipe (so_pipe out)) outs g) = hs_procs g \<and> hs_ps (fold (\<lambda>out. close_pipe (so_pipe out)) outs g) = hs_ps g"
    for outs :: "streamOut list" and g
    by (induction outs arbitrary: g) simp_all
  have "stat_inv ?h1" by (rule stat_inv_shrinks [OF assms(1) shrinks_trans [OF shrinks_fold_close shrinks_fields(10)]])
  moreover have "dyn {} ?h1" by (rule dyn_sub [OF assms(2)]) (use * in auto)
  ultimately have "dyn {} (for_procs (\<lambda>_. True) (\<lambda>ps. ps\<lparr>ps_outClosed := True, ps_exitStatus := Some 255\<rparr>) (hs_procs ?h1) ?h1)"
    by (rule dyn_all_procs) simp_all
  then have "dyn {} ((for_procs (\<lambda>_. True) (\<lambda>ps. ps\<lparr>ps_outClosed := True, ps_exitStatus := Some 255\<rparr>) (hs_procs ?h1) ?h1)\<lparr>hs_procs := [], hs_closed := True\<rparr>)"
    by (rule dyn_sub) simp_all
  then show ?thesis using assms(2) unfolding hs_Close_def Let_def by simp
qed

section \<open>Every operation keeps the invariant\<close>

lemma hs_inv_new:
  assumes inv: "hs_inv h" and room: "unat (hs_lastStreamSeq h) + 2 < 2 ^ 64" and st: "setupProcessIo t h = (h1, i)"
    and new: "gget (hs_procs h) pk = None"
  shows "hs_inv (h1\<lparr>hs_procs := gput pk i (hs_procs h1)\<rparr>)" "unat (hs_lastStreamSeq h1) \<le> unat (hs_lastStreamSeq h) + 2"
proof -
  note f = setupProcessIo_fields [OF st]
  have s1: "stat_inv h1" using stat_inv_setup [OF _ room st] inv by (simp add: hs_inv_def)
  show "unat (hs_lastStreamSeq h1) \<le> unat (hs_lastStreamSeq h) + 2"
    using stat_inv_setup [OF _ room st] inv by (simp add: hs_inv_def)
  obtain p where p: "hs_ps h1 = hs_ps h @ [p]" "ps_exitStatus p = None" "ps_waitChan p = None" using f(5) by blast
  have procs: "gput pk i (hs_procs h1) = hs_procs h @ [(pk, i)]" using new f(2) by (simp add: gput_absent)
  have less: "\<forall>(pk, j) \<in> set (hs_procs h). j < length (hs_ps h)"
    using inv by (auto simp: hs_inv_def stat_inv_def tables_ok_def)
  have notin: "i \<notin> set (gvals (hs_procs h))" using less f(1) by auto
  have "tables_ok (map ps_static (hs_ps h1)) (hs_procs h @ [(pk, i)]) (hs_streamOuts h1)"
    using s1 f(1,2) p(1) new notin by (auto simp: stat_inv_def tables_ok_def gget_None_keys)
  then have "stat_inv (h1\<lparr>hs_procs := gput pk i (hs_procs h1)\<rparr>)" using s1 by (simp add: stat_inv_def procs)
  moreover have "dyn {} (h1\<lparr>hs_procs := gput pk i (hs_procs h1)\<rparr>)"
    unfolding procs
    using inv less p f(1) by (auto simp: hs_inv_def dyn_def nth_append chan_empty_def chan_one_def settled_def split: prod.splits)
  ultimately show "hs_inv (h1\<lparr>hs_procs := gput pk i (hs_procs h1)\<rparr>)" by (simp add: hs_inv_def)
qed

lemma hs_inv_Create:
  assumes inv: "hs_inv h" and room: "unat (hs_lastStreamSeq h) + 2 < 2 ^ 64" and c: "CreateContainer c u st oci h = Some (h', e)"
  shows "hs_inv h' \<and> unat (hs_lastStreamSeq h') \<le> unat (hs_lastStreamSeq h) + 2"
proof (cases "h' = h")
  case False
  then obtain t pk h1 i cc where *: "setupProcessIo t h = (h1, i)" "gget (hs_procs h) pk = None"
    "h' = h1\<lparr>hs_procs := gput pk i (hs_procs h1), hs_containerCreated := cc\<rparr>"
    using c by (auto simp: CreateContainer_def Let_def split: option.splits sum.splits if_splits prod.splits)
  have "hs_inv (h1\<lparr>hs_procs := gput pk i (hs_procs h1)\<rparr>)" by (rule hs_inv_new [OF inv room *(1,2)])
  then have "hs_inv h'" unfolding *(3) by (simp add: hs_inv_def stat_inv_def dyn_def)
  then show ?thesis using hs_inv_new(2) [OF inv room *(1,2)] *(3) by simp
qed (use inv in simp)

lemma dyn_removeProcess: "dyn {} h \<Longrightarrow> dyn {} (removeProcess c p h)"
  by (erule dyn_sub) (auto simp: removeProcess_def Let_def gdel_filter split: option.split)

lemma hs_inv_removeProcess: "hs_inv h \<Longrightarrow> hs_inv (removeProcess c p h) \<and> hs_lastStreamSeq (removeProcess c p h) = hs_lastStreamSeq h"
  by (rule hs_inv_shrinks [OF _ shrinks_removeProcess]) (simp_all add: dyn_removeProcess hs_inv_def)

lemma hs_inv_sent: "hs_inv h \<Longrightarrow> hs_inv (fst (hyperstartCommand code msg reply h)) \<and>
    hs_lastStreamSeq (fst (hyperstartCommand code msg reply h)) = hs_lastStreamSeq h"
  by (rule hs_inv_shrinks [OF _ shrinks_command]) (auto simp: hs_inv_def hyperstartCommand_def dyn_def)

lemma hs_inv_Exec:
  assumes inv: "hs_inv h" and room: "unat (hs_lastStreamSeq h) + 2 < 2 ^ 64"
  shows "hs_inv (fst (ExecProcess c p u oci reply h)) \<and> unat (hs_lastStreamSeq (fst (ExecProcess c p u oci reply h))) \<le> unat (hs_lastStreamSeq h) + 2"
proof -
  let ?p = "convertUser u (ProcessFromOci p oci)"
  obtain h1 i where st: "setupProcessIo (hp_Terminal ?p) h = (h1, i)" by (cases "setupProcessIo (hp_Terminal ?p) h")
  show ?thesis
  proof (cases "gget (hs_procs h) (c, hp_Id ?p)")
    case None
    let ?h2 = "h1\<lparr>hs_procs := gput (c, hp_Id ?p) i (hs_procs h1)\<rparr>"
    have h2: "hs_inv ?h2" "unat (hs_lastStreamSeq ?h2) \<le> unat (hs_lastStreamSeq h) + 2"
      using hs_inv_new [OF inv room st None] by simp_all
    define msg where "msg = ExecCommand c (?p\<lparr>hp_Stdio := ps_stdioSeq (hs_ps ?h2 ! i), hp_Stderr := ps_stderrSeq (hs_ps ?h2 ! i)\<rparr>)"
    obtain h3 e where cmd: "hyperstartCommand INIT_EXECCMD msg reply ?h2 = (h3, e)" by (cases "hyperstartCommand INIT_EXECCMD msg reply ?h2")
    have ex: "fst (ExecProcess c p u oci reply h) = (if e = None then h3 else removeProcess c (hp_Id ?p) h3)"
      using None st cmd by (cases e) (simp_all add: ExecProcess_def Let_def msg_def)
    have "hs_inv h3" "hs_lastStreamSeq h3 = hs_lastStreamSeq ?h2" using hs_inv_sent [OF h2(1), of INIT_EXECCMD msg reply] cmd by simp_all
    then show ?thesis unfolding ex using h2(2) hs_inv_removeProcess by simp
  next
    case (Some j)
    then show ?thesis using inv by (simp add: ExecProcess_def Let_def)
  qed
qed

lemma hs_inv_keep:
  "hs_inv h \<Longrightarrow> shrinks h h' \<Longrightarrow> dyn {} h' \<Longrightarrow> hs_inv h' \<and> unat (hs_lastStreamSeq h') \<le> unat (hs_lastStreamSeq h) + 2"
  using hs_inv_shrinks by fastforce

lemma dyn_StartContainer: "dyn {} h \<Longrightarrow> dyn {} (fst (StartContainer c reply h))"
proof -
  assume d: "dyn {} h"
  have "dyn {} (fst (hyperstartCommand code msg reply (h\<lparr>hs_containerCreated := cs\<rparr>)))" for code msg cs
    using d by (rule dyn_sub) (simp_all add: hyperstartCommand_def)
  then show ?thesis
    using d dyn_removeProcess unfolding StartContainer_def
    by (auto split: option.split prod.split) (metis fst_conv)+
qed

lemma dyn_CloseStdin: "dyn {} h \<Longrightarrow> dyn {} (fst (CloseStdin c p h))"
proof (cases "gget (hs_procs h) (c, p)")
  case (Some i)
  assume d: "dyn {} h"
  let ?f = "\<lambda>p. p\<lparr>ps_stdinOpen := False\<rparr>"
  have same: "chan_empty (?f p) = chan_empty p" "settled (?f p) = settled p" "chan_one (?f p) = chan_one p" for p
    by (simp_all add: chan_empty_def settled_def chan_one_def)
  have "dyn {} (upd_ps i ?f h')" if "hs_procs h' = hs_procs h" "hs_ps h' = hs_ps h" for h'
  proof (cases "i < length (hs_ps h)")
    case True
    then have "chan_empty ((hs_ps h)[i := ?f (hs_ps h ! i)] ! j) = chan_empty (hs_ps h ! j)"
      "settled ((hs_ps h)[i := ?f (hs_ps h ! i)] ! j) = settled (hs_ps h ! j)" for j
      using same by (cases "i = j"; simp)+
    moreover have "\<forall>p \<in> set ((hs_ps h)[i := ?f (hs_ps h ! i)]). chan_one p"
      using d True same(3) by (auto simp: dyn_def dest!: set_update_subset_insert [THEN subsetD])
    ultimately show ?thesis using d that by (simp add: dyn_def upd_ps_def)
  qed (use d that in \<open>simp add: dyn_def upd_ps_def list_update_beyond\<close>)
  then show ?thesis using d Some by (simp add: CloseStdin_def streamIn_Close_def Let_def)
qed (simp add: CloseStdin_def)

lemma hs_inv_exec:
  assumes inv: "hs_inv h" and room: "unat (hs_lastStreamSeq h) + 2 < 2 ^ 64" and ex: "hs_exec l h = Some h'"
  shows "hs_inv h' \<and> unat (hs_lastStreamSeq h') \<le> unat (hs_lastStreamSeq h) + 2"
proof -
  have sd: "stat_inv h" "dyn {} h" using inv by (simp_all add: hs_inv_def)
  show ?thesis
  proof (cases l)
    case (HCreate c u st oci)
    then show ?thesis using ex hs_inv_Create [OF inv room] by auto
  next
    case (HStart c reply)
    then show ?thesis using ex hs_inv_keep [OF inv shrinks_StartContainer dyn_StartContainer [OF sd(2)], of c reply] by simp
  next
    case (HExec c p u oci reply)
    then show ?thesis using ex hs_inv_Exec [OF inv room, of c p u oci reply] by simp
  next
    case (HRemoveProcess c p)
    then show ?thesis using ex hs_inv_removeProcess [OF inv, of c p] by simp
  next
    case (HExit c p st)
    have "dyn {} (sendProcessAsyncEvent c p st h)"
      unfolding sendProcessAsyncEvent_def using sd(2) dyn_wait_upd [OF inv] by (auto split: option.split)
    then show ?thesis using HExit ex hs_inv_keep [OF inv shrinks_exit, of c p st] by simp
  next
    case (HStream m)
    then show ?thesis
      using ex inv hs_inv_keep [OF inv shrinks_handleStreamFrom dyn_handleStreamFrom [OF sd]] by (auto split: if_splits)
  next
    case HResume
    have "dyn {} h'" using HResume ex sd(2) dyn_stream_wrote [OF sd] by (auto simp: stream_resume_def split: option.splits)
    then show ?thesis using HResume ex hs_inv_keep [OF inv shrinks_stream_resume] by simp
  next
    case (HWait c p)
    have "dyn {} (fst (WaitProcess c p h))"
      unfolding WaitProcess_def using sd(2) dyn_wait_upd [OF inv] by (auto split: option.split)
    then show ?thesis using HWait ex hs_inv_keep [OF inv shrinks_wait, of c p] by simp
  next
    case (HCloseStdin c p)
    then show ?thesis using ex hs_inv_keep [OF inv shrinks_CloseStdin dyn_CloseStdin [OF sd(2)], of c p] by simp
  next
    case (HRead err c p n)
    then obtain r where r: "(if err then ReadStderr else ReadStdout) c p n h = Some (h', r)" using ex by (auto split: if_splits)
    have "dyn {} h'"
      by (rule dyn_sub [OF sd(2)]) (use r in \<open>auto simp: ReadStderr_def ReadStdout_def read_pipe_def split: if_splits option.splits\<close>)
    then show ?thesis by (rule hs_inv_keep [OF inv shrinks_read [OF r]])
  next
    case HClose
    then show ?thesis using ex hs_inv_keep [OF inv shrinks_Close dyn_Close [OF sd]] by simp
  qed
qed

lemma hs_inv_init: "0 < seq \<Longrightarrow> hs_inv (NewJsonBasedHyperstart version seq)"
  by (simp add: hs_inv_def stat_inv_def ids_ok_def tables_ok_def dyn_def NewJsonBasedHyperstart_def)

lemma hs_inv_run:
  "hs_inv h \<Longrightarrow> hs_run ls h = Some h' \<Longrightarrow> unat (hs_lastStreamSeq h) + 2 * length ls < 2 ^ 64 \<Longrightarrow> hs_inv h'"
proof (induction ls arbitrary: h)
  case (Cons l ls)
  obtain h1 where h1: "hs_exec l h = Some h1" "hs_run ls h1 = Some h'" using Cons.prems(2) by (auto split: option.splits)
  have room: "unat (hs_lastStreamSeq h) + 2 < 2 ^ 64" using Cons.prems(3) by simp
  have "hs_inv h1" "unat (hs_lastStreamSeq h1) \<le> unat (hs_lastStreamSeq h) + 2" using hs_inv_exec [OF Cons.prems(1) room h1(1)] by auto
  then show ?case using Cons.IH [OF _ h1(2)] Cons.prems(3) by simp
qed simp

section \<open>The end of one process\<close>

definition waiting :: "jsonBasedHyperstart \<Rightarrow> pKey \<Rightarrow> nat \<Rightarrow> int option \<Rightarrow> int list option \<Rightarrow> bool \<Rightarrow> bool" where
  "waiting h pk i e w o_closed \<longleftrightarrow> gget (hs_procs h) pk = Some i \<and> i < length (hs_ps h) \<and> ps_exitStatus (hs_ps h ! i) = e \<and>
     ps_waitChan (hs_ps h ! i) = w \<and> ps_outClosed (hs_ps h ! i) = o_closed"

definition delivered :: "jsonBasedHyperstart \<Rightarrow> pKey \<Rightarrow> nat \<Rightarrow> int \<Rightarrow> bool" where
  "delivered h pk i st \<longleftrightarrow> gget (hs_procs h) pk = None \<and> WaitProcess_receive i h = Some st"

lemma waiting_upd:
  assumes "waiting h pk i e w o_closed"
    "ps_exitStatus (f (hs_ps h ! i)) = e'" "ps_waitChan (f (hs_ps h ! i)) = w'" "ps_outClosed (f (hs_ps h ! i)) = o'"
  shows "e' = None \<or> w' = None \<or> \<not> o' \<Longrightarrow> waiting (handleWaitProcess pk i (upd_ps i f h)) pk i e' w' o'"
    "e' = Some st \<Longrightarrow> w' = Some [] \<Longrightarrow> o' \<Longrightarrow> delivered (handleWaitProcess pk i (upd_ps i f h)) pk i st"
    "hs_streamOuts (handleWaitProcess pk i (upd_ps i f h)) = hs_streamOuts h"
    "hs_blocked (handleWaitProcess pk i (upd_ps i f h)) = hs_blocked h"
  using assms by (auto simp: waiting_def delivered_def WaitProcess_receive_def handleWaitProcess_def upd_ps_def Let_def split: option.split)

lemma for_procs_none: "(\<And>pk j. (pk, j) \<in> set ps \<Longrightarrow> \<not> test (hs_ps h ! j)) \<Longrightarrow> for_procs test f ps h = h"
proof (induction ps)
  case (Cons a ps)
  then show ?case by (cases a) auto
qed simp

lemma for_procs_append: "for_procs test f (xs @ ys) h = for_procs test f ys (for_procs test f xs h)"
proof (induction xs arbitrary: h)
  case (Cons a xs)
  then show ?case by (cases a) simp
qed simp

lemma handleWait_upd_other: "j \<noteq> i \<Longrightarrow> hs_ps (handleWaitProcess pk i (upd_ps i f h)) ! j = hs_ps h ! j"
  by (simp add: handleWaitProcess_def upd_ps_def Let_def split: option.split)

lemma for_procs_single:
  assumes "(pk, i) \<in> set ps" "distinct (gvals ps)" "\<And>pk' j. (pk', j) \<in> set ps \<Longrightarrow> test (hs_ps h ! j) \<longleftrightarrow> j = i"
  shows "for_procs test f ps h = handleWaitProcess pk i (upd_ps i f h)"
proof -
  obtain xs ys where ps: "ps = xs @ (pk, i) # ys" using assms(1) by (metis split_list)
  have ne: "j \<noteq> i" if "(pk', j) \<in> set xs \<or> (pk', j) \<in> set ys" for pk' j
    using assms(2) that unfolding ps by force
  have "for_procs test f xs h = h"
  proof (rule for_procs_none)
    fix pk' j assume x: "(pk', j) \<in> set xs"
    then have "j \<noteq> i" using ne by blast
    then show "\<not> test (hs_ps h ! j)" using assms(3) [of pk' j] x by (simp add: ps)
  qed
  moreover have "for_procs test f ys (handleWaitProcess pk i (upd_ps i f h)) = handleWaitProcess pk i (upd_ps i f h)"
  proof (rule for_procs_none)
    fix pk' j assume y: "(pk', j) \<in> set ys"
    then have "j \<noteq> i" using ne by blast
    then show "\<not> test (hs_ps (handleWaitProcess pk i (upd_ps i f h)) ! j)"
      using assms(3) [of pk' j] y by (simp add: ps handleWait_upd_other)
  qed
  moreover have "test (hs_ps h ! i)" using assms(1,3) by blast
  ultimately show ?thesis by (simp add: ps for_procs_append)
qed

lemma concat_distinct_disjoint:
  "distinct (concat xs) \<Longrightarrow> i < length xs \<Longrightarrow> j < length xs \<Longrightarrow> i \<noteq> j \<Longrightarrow> set (xs ! i) \<inter> set (xs ! j) = {}"
proof (induction xs arbitrary: i j)
  case (Cons x xs)
  have *: "set x \<inter> set (xs ! k) = {}" if "k < length xs" for k using Cons.prems(1) that by fastforce
  show ?case
    using Cons * [of "i - 1"] * [of "j - 1"] by (cases i; cases j) (auto simp: Int_commute)
qed simp

lemma stat_inv_seqs:
  assumes "stat_inv h" "i < length (hs_ps h)" "j < length (hs_ps h)" "i \<noteq> j"
  shows "set (seqs (ps_static (hs_ps h ! i))) \<inter> set (seqs (ps_static (hs_ps h ! j))) = {}"
    "set (pipes (ps_static (hs_ps h ! i))) \<inter> set (pipes (ps_static (hs_ps h ! j))) = {}"
  using assms concat_distinct_disjoint [of "map seqs (map ps_static (hs_ps h))" i j]
    concat_distinct_disjoint [of "map pipes (map ps_static (hs_ps h))" i j]
  by (auto simp: stat_inv_def ids_ok_def)

lemma stdio_in_seqs: "ps_stdioSeq p \<in> set (seqs (ps_static p))"
  by (simp add: seqs_def ps_static_def)

lemma stat_inv_out:
  assumes "stat_inv h" "i < length (hs_ps h)" "gget (hs_streamOuts h) seq = Some out" "seq \<in> set (seqs (ps_static (hs_ps h ! i)))"
  shows "so_ps out = i" "owns (ps_static (hs_ps h ! i)) seq (so_pipe out)"
proof -
  have o: "so_ps out < length (hs_ps h)" "owns (ps_static (hs_ps h ! so_ps out)) seq (so_pipe out)"
    using assms(1) map_of_SomeD [OF assms(3)] by (auto simp: stat_inv_def tables_ok_def)
  then have "seq \<in> set (seqs (ps_static (hs_ps h ! so_ps out)))" using owns_seqs by blast
  then show "so_ps out = i" using stat_inv_seqs(1) [OF assms(1) o(1) assms(2)] assms(4) by blast
  with o show "owns (ps_static (hs_ps h ! i)) seq (so_pipe out)" by simp
qed

lemma close_stderr_Some: "ps_stderrSeq p = 0 \<or> gget (hs_streamOuts h) (ps_stderrSeq p) \<noteq> None \<Longrightarrow> \<exists>h2. close_stderr p h = Some h2"
  by (auto simp: close_stderr_def)

lemma stdio_not_stderr:
  assumes "stat_inv h" "i < length (hs_ps h)" "ps_stderrSeq (hs_ps h ! i) \<noteq> 0"
  shows "ps_stderrSeq (hs_ps h ! i) \<noteq> ps_stdioSeq (hs_ps h ! i)"
proof -
  have "distinct (concat (map seqs (map ps_static (hs_ps h))))" using assms(1) by (simp add: stat_inv_def ids_ok_def)
  moreover have "seqs (ps_static (hs_ps h ! i)) \<in> set (map seqs (map ps_static (hs_ps h)))" using assms(2) by simp
  ultimately have "distinct (seqs (ps_static (hs_ps h ! i)))" using distinct_concat_iff by blast
  then show ?thesis using assms(3) by (auto simp: seqs_def ps_static_def)
qed

text \<open>The end of the standard output of a live process.\<close>

lemma stream_eof:
  assumes inv: "stat_inv h" and w: "waiting h pk i e w o_closed" and nb: "hs_blocked h = None"
    and out: "gget (hs_streamOuts h) (ps_stdioSeq (hs_ps h ! i)) = Some out"
    and err: "ps_stderrSeq (hs_ps h ! i) = 0 \<or> gget (hs_streamOuts h) (ps_stderrSeq (hs_ps h ! i)) \<noteq> None"
  shows "\<exists>h2. hs_exec (HStream \<lparr>tm_Session = ps_stdioSeq (hs_ps h ! i), tm_Message = []\<rparr>) h =
      Some (handleWaitProcess pk i (upd_ps i (\<lambda>p. p\<lparr>ps_outClosed := True\<rparr>) h2)) \<and>
      hs_procs h2 = hs_procs h \<and> hs_ps h2 = hs_ps h \<and> hs_blocked h2 = None"
proof -
  let ?seq = "ps_stdioSeq (hs_ps h ! i)" and ?p = "hs_ps h ! i"
  have i: "i < length (hs_ps h)" "(pk, i) \<in> set (hs_procs h)" using w by (auto simp: waiting_def dest: map_of_SomeD)
  have so: "so_ps out = i" by (rule stat_inv_out(1) [OF inv i(1) out stdio_in_seqs])
  let ?h1 = "(close_pipe (so_pipe out) h)\<lparr>hs_streamOuts := gdel ?seq (hs_streamOuts h)\<rparr>"
  have "ps_stderrSeq ?p = 0 \<or> gget (hs_streamOuts ?h1) (ps_stderrSeq ?p) \<noteq> None"
    using err stdio_not_stderr [OF inv i(1)] by (cases "ps_stderrSeq ?p = 0") auto
  then obtain h2 where h2: "close_stderr ?p ?h1 = Some h2" using close_stderr_Some by blast
  then have f: "hs_procs h2 = hs_procs h" "hs_ps h2 = hs_ps h" "hs_blocked h2 = None"
    using close_stderr_frame [OF h2] nb by (auto simp: close_stderr_def close_pipe_def split: if_splits option.splits)
  have one: "ps_stdioSeq (hs_ps h2 ! j) = ?seq \<longleftrightarrow> j = i" if "(pk', j) \<in> set (hs_procs h2)" for pk' j
  proof -
    have j: "j < length (hs_ps h)" using stat_inv_procs(1) [OF inv] that f by simp
    have "set (seqs (ps_static ?p)) \<inter> set (seqs (ps_static (hs_ps h ! j))) = {}" if "i \<noteq> j"
      using stat_inv_seqs(1) [OF inv i(1) j that] .
    then show ?thesis using stdio_in_seqs [of ?p] stdio_in_seqs [of "hs_ps h ! j"] f(2) by (metis disjoint_iff)
  qed
  have "for_procs (\<lambda>p. ps_stdioSeq p = ?seq) g (hs_procs h2) h2 = handleWaitProcess pk i (upd_ps i g h2)" for g
    by (rule for_procs_single) (use i f one inv in \<open>auto simp: stat_inv_def tables_ok_def\<close>)
  moreover have "hs_streamOuts (close_pipe q g) = hs_streamOuts g" for q g by (simp add: close_pipe_def)
  ultimately have "hs_exec (HStream \<lparr>tm_Session = ?seq, tm_Message = []\<rparr>) h =
      Some (handleWaitProcess pk i (upd_ps i (\<lambda>p. p\<lparr>ps_outClosed := True\<rparr>) h2))"
    using nb out so h2 by (simp add: handleStreamFrom_def removeStreamOut_def Let_def)
  then show ?thesis using f by blast
qed

text \<open>The three events of the end of a process, in a state in which its output is still open.\<close>

definition out_ready :: "jsonBasedHyperstart \<Rightarrow> nat \<Rightarrow> bool" where
  "out_ready h i \<longleftrightarrow> stat_inv h \<and> hs_blocked h = None \<and> gget (hs_streamOuts h) (ps_stdioSeq (hs_ps h ! i)) \<noteq> None \<and>
     (ps_stderrSeq (hs_ps h ! i) = 0 \<or> gget (hs_streamOuts h) (ps_stderrSeq (hs_ps h ! i)) \<noteq> None)"

lemma out_ready_upd:
  assumes "out_ready h i" "waiting h pk i e w o_closed" "\<And>p. ps_static (f p) = ps_static p"
  shows "out_ready (handleWaitProcess pk i (upd_ps i f h)) i"
    "ps_stdioSeq (hs_ps (handleWaitProcess pk i (upd_ps i f h)) ! i) = ps_stdioSeq (hs_ps h ! i)"
proof -
  let ?h = "handleWaitProcess pk i (upd_ps i f h)"
  have sh: "shrinks h ?h" by (rule shrinks_trans [OF shrinks_upd_ps [OF assms(3)] shrinks_handleWait])
  have i: "i < length (hs_ps h)" using assms(2) by (simp add: waiting_def)
  have eq: "map ps_static (hs_ps ?h) = map ps_static (hs_ps h)" using sh by (simp add: shrinks_def hs_static_def)
  then have "length (hs_ps ?h) = length (hs_ps h)" by (rule map_eq_imp_length_eq)
  with eq i have "ps_static (hs_ps ?h ! i) = ps_static (hs_ps h ! i)" by (metis nth_map)
  then show "out_ready ?h i" "ps_stdioSeq (hs_ps ?h ! i) = ps_stdioSeq (hs_ps h ! i)"
    using assms(1) stat_inv_shrinks [OF _ sh] waiting_upd(3,4) [OF assms(2) refl refl refl, of f]
    by (auto simp: out_ready_def ps_static_def)
qed

lemma exec_exit: "waiting h (c, p) i e w o_closed \<Longrightarrow>
    hs_exec (HExit c p st) h = Some (handleWaitProcess (c, p) i (upd_ps i (\<lambda>ps. ps\<lparr>ps_exitStatus := Some st\<rparr>) h))"
  by (simp add: waiting_def sendProcessAsyncEvent_def)

lemma exec_wait: "waiting h (c, p) i e None o_closed \<Longrightarrow>
    hs_exec (HWait c p) h = Some (handleWaitProcess (c, p) i (upd_ps i (\<lambda>ps. ps\<lparr>ps_waitChan := Some []\<rparr>) h))"
  by (simp add: waiting_def WaitProcess_def)

lemma step_exit:
  assumes "waiting h (c, p) i e w o_closed"
  shows "w = None \<or> \<not> o_closed \<Longrightarrow> \<exists>h'. hs_exec (HExit c p st) h = Some h' \<and> waiting h' (c, p) i (Some st) w o_closed \<and>
      (out_ready h i \<longrightarrow> out_ready h' i \<and> ps_stdioSeq (hs_ps h' ! i) = ps_stdioSeq (hs_ps h ! i))"
    "w = Some [] \<Longrightarrow> o_closed \<Longrightarrow> \<exists>h'. hs_exec (HExit c p st) h = Some h' \<and> delivered h' (c, p) i st"
  using exec_exit [OF assms, of st] waiting_upd [OF assms, of "\<lambda>ps. ps\<lparr>ps_exitStatus := Some st\<rparr>" "Some st" w o_closed] assms
    out_ready_upd [OF _ assms, of "\<lambda>ps. ps\<lparr>ps_exitStatus := Some st\<rparr>"]
  by (auto simp: waiting_def)

lemma step_wait:
  assumes "waiting h (c, p) i e None o_closed"
  shows "e = None \<or> \<not> o_closed \<Longrightarrow> \<exists>h'. hs_exec (HWait c p) h = Some h' \<and> waiting h' (c, p) i e (Some []) o_closed \<and>
      (out_ready h i \<longrightarrow> out_ready h' i \<and> ps_stdioSeq (hs_ps h' ! i) = ps_stdioSeq (hs_ps h ! i))"
    "e = Some st \<Longrightarrow> o_closed \<Longrightarrow> \<exists>h'. hs_exec (HWait c p) h = Some h' \<and> delivered h' (c, p) i st"
  using exec_wait [OF assms] waiting_upd [OF assms, of "\<lambda>ps. ps\<lparr>ps_waitChan := Some []\<rparr>" e "Some []" o_closed] assms
    out_ready_upd [OF _ assms, of "\<lambda>ps. ps\<lparr>ps_waitChan := Some []\<rparr>"]
  by (auto simp: waiting_def)

lemma step_eof:
  assumes w: "waiting h (c, p) i e w o_closed" and r: "out_ready h i"
  shows "e = None \<or> w = None \<Longrightarrow>
      \<exists>h'. hs_exec (HStream \<lparr>tm_Session = ps_stdioSeq (hs_ps h ! i), tm_Message = []\<rparr>) h = Some h' \<and> waiting h' (c, p) i e w True"
    "e = Some st \<Longrightarrow> w = Some [] \<Longrightarrow>
      \<exists>h'. hs_exec (HStream \<lparr>tm_Session = ps_stdioSeq (hs_ps h ! i), tm_Message = []\<rparr>) h = Some h' \<and> delivered h' (c, p) i st"
proof -
  obtain out where out: "gget (hs_streamOuts h) (ps_stdioSeq (hs_ps h ! i)) = Some out" using r by (auto simp: out_ready_def)
  obtain h2 where h2: "hs_exec (HStream \<lparr>tm_Session = ps_stdioSeq (hs_ps h ! i), tm_Message = []\<rparr>) h =
      Some (handleWaitProcess (c, p) i (upd_ps i (\<lambda>p. p\<lparr>ps_outClosed := True\<rparr>) h2))" "hs_procs h2 = hs_procs h" "hs_ps h2 = hs_ps h"
    using stream_eof [OF _ w _ out] r by (auto simp: out_ready_def)
  have "waiting h2 (c, p) i e w o_closed" using w h2(2,3) by (simp add: waiting_def)
  note w2 = waiting_upd(1,2) [OF this, of "\<lambda>p. p\<lparr>ps_outClosed := True\<rparr>" e w True]
  show "e = None \<or> w = None \<Longrightarrow>
      \<exists>h'. hs_exec (HStream \<lparr>tm_Session = ps_stdioSeq (hs_ps h ! i), tm_Message = []\<rparr>) h = Some h' \<and> waiting h' (c, p) i e w True"
    "e = Some st \<Longrightarrow> w = Some [] \<Longrightarrow>
      \<exists>h'. hs_exec (HStream \<lparr>tm_Session = ps_stdioSeq (hs_ps h ! i), tm_Message = []\<rparr>) h = Some h' \<and> delivered h' (c, p) i st"
    using h2(1,3) w2 w by (auto simp: waiting_def)
qed

lemma end_any_order:
  assumes w: "waiting h (c, p) i None None False" and r: "out_ready h i"
    and eof: "eof = HStream \<lparr>tm_Session = ps_stdioSeq (hs_ps h ! i), tm_Message = []\<rparr>"
    and ends: "ends \<in> {[HExit c p st, eof, HWait c p], [HExit c p st, HWait c p, eof], [eof, HExit c p st, HWait c p],
      [eof, HWait c p, HExit c p st], [HWait c p, HExit c p st, eof], [HWait c p, eof, HExit c p st]}"
  shows "\<exists>h'. hs_run ends h = Some h' \<and> delivered h' (c, p) i st"
proof -
  obtain hx where x: "hs_exec (HExit c p st) h = Some hx" "waiting hx (c, p) i (Some st) None False" "out_ready hx i"
    "ps_stdioSeq (hs_ps hx ! i) = ps_stdioSeq (hs_ps h ! i)"
    using step_exit(1) [OF w] r by blast
  obtain hw where hw: "hs_exec (HWait c p) h = Some hw" "waiting hw (c, p) i None (Some []) False" "out_ready hw i"
    "ps_stdioSeq (hs_ps hw ! i) = ps_stdioSeq (hs_ps h ! i)"
    using step_wait(1) [OF w] r by blast
  obtain he where he: "hs_exec eof h = Some he" "waiting he (c, p) i None None True"
    using step_eof(1) [OF w r] eof by blast
  obtain h1 where h1: "hs_exec eof hx = Some h1" "waiting h1 (c, p) i (Some st) None True"
    using step_eof(1) [OF x(2,3)] eof x(4) by auto
  obtain h2 where h2: "hs_exec (HWait c p) hx = Some h2" "waiting h2 (c, p) i (Some st) (Some []) False" "out_ready h2 i"
    "ps_stdioSeq (hs_ps h2 ! i) = ps_stdioSeq (hs_ps h ! i)"
    using step_wait(1) [OF x(2)] x(3,4) by fastforce
  obtain h3 where h3: "hs_exec (HExit c p st) he = Some h3" "waiting h3 (c, p) i (Some st) None True"
    using step_exit(1) [OF he(2)] by blast
  obtain h4 where h4: "hs_exec (HWait c p) he = Some h4" "waiting h4 (c, p) i None (Some []) True"
    using step_wait(1) [OF he(2)] by blast
  obtain h5 where h5: "hs_exec (HExit c p st) hw = Some h5" "waiting h5 (c, p) i (Some st) (Some []) False" "out_ready h5 i"
    "ps_stdioSeq (hs_ps h5 ! i) = ps_stdioSeq (hs_ps h ! i)"
    using step_exit(1) [OF hw(2)] hw(3,4) by fastforce
  obtain h6 where h6: "hs_exec eof hw = Some h6" "waiting h6 (c, p) i None (Some []) True"
    using step_eof(1) [OF hw(2,3)] eof hw(4) by auto
  have "\<exists>h'. hs_exec (HWait c p) h1 = Some h' \<and> delivered h' (c, p) i st" by (rule step_wait(2) [OF h1(2)]) simp_all
  moreover have "\<exists>h'. hs_exec eof h2 = Some h' \<and> delivered h' (c, p) i st" using step_eof(2) [OF h2(2,3)] eof h2(4) by simp
  moreover have "\<exists>h'. hs_exec (HWait c p) h3 = Some h' \<and> delivered h' (c, p) i st" by (rule step_wait(2) [OF h3(2)]) simp_all
  moreover have "\<exists>h'. hs_exec (HExit c p st) h4 = Some h' \<and> delivered h' (c, p) i st" by (rule step_exit(2) [OF h4(2)]) simp_all
  moreover have "\<exists>h'. hs_exec eof h5 = Some h' \<and> delivered h' (c, p) i st" using step_eof(2) [OF h5(2,3)] eof h5(4) by simp
  moreover have "\<exists>h'. hs_exec (HExit c p st) h6 = Some h' \<and> delivered h' (c, p) i st" by (rule step_exit(2) [OF h6(2)]) simp_all
  ultimately show ?thesis
    using ends x(1) hw(1) he(1) h1(1) h2(1) h3(1) h4(1) h5(1) h6(1) by (auto simp del: hs_exec.simps)
qed

section \<open>Properties\<close>


text \<open>
  C18: Over every history of the agent a wait channel, which has room for one value, never gets a
  second one, and that of a live process is empty: the agent never blocks, with its lock held, on
  the report of an exit status.
\<close>

theorem exit_sent_once:
  assumes "hs_run ls (NewJsonBasedHyperstart version seq) = Some h" "0 < seq" "unat seq + 2 * length ls < 2 ^ 64"
  shows "(\<forall>i ch. i < length (hs_ps h) \<longrightarrow> ps_waitChan (hs_ps h ! i) = Some ch \<longrightarrow> length ch \<le> 1) \<and>
    (\<forall>pk i. gget (hs_procs h) pk = Some i \<longrightarrow> ps_waitChan (hs_ps h ! i) = None \<or> ps_waitChan (hs_ps h ! i) = Some [])"
proof -
  have d: "dyn {} h"
    using hs_inv_run [OF hs_inv_init [OF assms(2)] assms(1)] assms(3) by (simp add: hs_inv_def NewJsonBasedHyperstart_def)
  then show ?thesis
    using map_of_SomeD [of "hs_procs h"] nth_mem unfolding dyn_def chan_one_def chan_empty_def by fastforce
qed

text \<open>
  C12: The exit of a process, the end of its output and the request to wait for it may come in any
  order: in each of the six, the waiter gets the exit status and the process leaves the table.
\<close>

theorem exit_any_order:
  assumes "hs_run ls (NewJsonBasedHyperstart version seq) = Some h" "0 < seq" "unat seq + 2 * length ls < 2 ^ 64"
    and p: "gget (hs_procs h) (c, p) = Some i" "ps_exitStatus (hs_ps h ! i) = None" "ps_waitChan (hs_ps h ! i) = None"
      "\<not> ps_outClosed (hs_ps h ! i)"
    and s: "hs_blocked h = None" "gget (hs_streamOuts h) (ps_stdioSeq (hs_ps h ! i)) \<noteq> None"
      "ps_stderrSeq (hs_ps h ! i) = 0 \<or> gget (hs_streamOuts h) (ps_stderrSeq (hs_ps h ! i)) \<noteq> None"
    and eof: "eof = HStream \<lparr>tm_Session = ps_stdioSeq (hs_ps h ! i), tm_Message = []\<rparr>"
    and ends: "ends \<in> {[HExit c p st, eof, HWait c p], [HExit c p st, HWait c p, eof], [eof, HExit c p st, HWait c p],
      [eof, HWait c p, HExit c p st], [HWait c p, HExit c p st, eof], [HWait c p, eof, HExit c p st]}"
  shows "\<exists>h'. hs_run ends h = Some h' \<and> WaitProcess_receive i h' = Some st \<and> gget (hs_procs h') (c, p) = None"
proof -
  have inv: "stat_inv h"
    using hs_inv_run [OF hs_inv_init [OF assms(2)] assms(1)] assms(3) by (simp add: hs_inv_def NewJsonBasedHyperstart_def)
  have "i < length (hs_ps h)" using stat_inv_procs(1) [OF inv map_of_SomeD [OF p(1)]] .
  then have "waiting h (c, p) i None None False" "out_ready h i" using p s inv by (simp_all add: waiting_def out_ready_def)
  then show ?thesis using end_any_order [OF _ _ eof ends] by (auto simp: delivered_def)
qed

text \<open>
  A guest that ends the error output of a process before its standard output crashes the host:
  the end of the standard output closes the error stream, which is no longer in the table.
\<close>

lemma stderr_eof_first_panics:
  assumes "hs_run ls (NewJsonBasedHyperstart version seq) = Some h" "0 < seq" "unat seq + 2 * length ls < 2 ^ 64"
    and p: "gget (hs_procs h) pk = Some i" "ps_stderrSeq (hs_ps h ! i) \<noteq> 0"
    and s: "hs_blocked h = None" "gget (hs_streamOuts h) (ps_stdioSeq (hs_ps h ! i)) \<noteq> None"
      "gget (hs_streamOuts h) (ps_stderrSeq (hs_ps h ! i)) \<noteq> None"
  shows "hs_run [HStream \<lparr>tm_Session = ps_stderrSeq (hs_ps h ! i), tm_Message = []\<rparr>,
    HStream \<lparr>tm_Session = ps_stdioSeq (hs_ps h ! i), tm_Message = []\<rparr>] h = None"
proof -
  let ?p = "hs_ps h ! i"
  have inv: "stat_inv h"
    using hs_inv_run [OF hs_inv_init [OF assms(2)] assms(1)] assms(3) by (simp add: hs_inv_def NewJsonBasedHyperstart_def)
  have i: "i < length (hs_ps h)" using stat_inv_procs(1) [OF inv map_of_SomeD [OF p(1)]] .
  obtain out err where o: "gget (hs_streamOuts h) (ps_stdioSeq ?p) = Some out" "gget (hs_streamOuts h) (ps_stderrSeq ?p) = Some err"
    using s by auto
  have "ps_stderrSeq ?p \<in> set (seqs (ps_static ?p))" using p(2) by (simp add: seqs_def ps_static_def)
  then have so: "so_ps out = i" "so_ps err = i"
    using stat_inv_out(1) [OF inv i o(1) stdio_in_seqs] stat_inv_out(1) [OF inv i o(2)] by auto
  have ne: "ps_stderrSeq ?p \<noteq> ps_stdioSeq ?p" by (rule stdio_not_stderr [OF inv i p(2)])
  have sel: "hs_streamOuts (close_pipe q g) = hs_streamOuts g" "hs_blocked (close_pipe q g) = hs_blocked g" for q g
    by (simp_all add: close_pipe_def)
  show ?thesis
    using s(1) o so ne p(2) by (simp add: handleStreamFrom_def removeStreamOut_def close_stderr_def sel Let_def word_neq_0_conv)
qed

text \<open>An agent with two processes.\<close>

definition demo_oci :: OciSpec where
  "demo_oci = \<lparr>os_Hostname = [], os_Process = Some \<lparr>op_Terminal = False, op_User = \<lparr>ou_UID = 0, ou_GID = 0, ou_AdditionalGids = []\<rparr>,
     op_Args = [''sh''], op_Env = [], op_Cwd = ''/''\<rparr>, os_Root = Some \<lparr>or_Path = ''/m/rootfs'', or_Readonly = False\<rparr>, os_Mounts = [], os_Sysctl = []\<rparr>"

definition demo_storage :: Storage where
  "demo_storage = \<lparr>st_Driver = ''scsi'', st_DriverOptions = [], st_Source = ''0:0'', st_Fstype = ''ext4'', st_Options = [], st_MountPoint = ''/m''\<rparr>"

definition demo_agent_labels :: "hs_label list" where
  "demo_agent_labels = [HCreate ''c'' None [demo_storage] demo_oci, HStart ''c'' None,
     HExec ''c'' ''sh'' None (the (os_Process demo_oci)) None]"

definition demo_agent :: jsonBasedHyperstart where
  "demo_agent = the (hs_run demo_agent_labels (NewJsonBasedHyperstart 4244 1))"

lemma demo_agent_run: "hs_run demo_agent_labels (NewJsonBasedHyperstart 4244 1) = Some demo_agent" "(0 :: uint64) < 1"
  "unat (1 :: uint64) + 2 * length demo_agent_labels < 2 ^ 64"
proof -
  have "hs_run demo_agent_labels (NewJsonBasedHyperstart 4244 1) \<noteq> None" by code_simp
  then show "hs_run demo_agent_labels (NewJsonBasedHyperstart 4244 1) = Some demo_agent" by (auto simp: demo_agent_def)
  show "(0 :: uint64) < 1" by simp
  show "unat (1 :: uint64) + 2 * length demo_agent_labels < 2 ^ 64" by (simp add: demo_agent_labels_def)
qed

lemma demo_agent_facts:
  "gget (hs_procs demo_agent) (''c'', ''init'') = Some 0" "gget (hs_procs demo_agent) (''c'', ''sh'') = Some 1"
  "map ps_stdioSeq (hs_ps demo_agent) = [1, 3]" "map ps_stderrSeq (hs_ps demo_agent) = [2, 4]"
  "map ps_exitStatus (hs_ps demo_agent) = [None, None]" "map ps_waitChan (hs_ps demo_agent) = [None, None]"
  "map ps_outClosed (hs_ps demo_agent) = [False, False]" "map fst (hs_streamOuts demo_agent) = [1, 2, 3, 4]" "hs_blocked demo_agent = None"
  by code_simp+

lemma demo_agent_first:
  "length (hs_ps demo_agent) = 2" "ps_stdioSeq (hs_ps demo_agent ! 0) = 1" "ps_stderrSeq (hs_ps demo_agent ! 0) = 2"
  "ps_exitStatus (hs_ps demo_agent ! 0) = None" "ps_waitChan (hs_ps demo_agent ! 0) = None" "\<not> ps_outClosed (hs_ps demo_agent ! 0)"
  "gget (hs_streamOuts demo_agent) 1 \<noteq> None" "gget (hs_streamOuts demo_agent) 2 \<noteq> None"
proof -
  show len: "length (hs_ps demo_agent) = 2" using arg_cong [OF demo_agent_facts(3), of length] by simp
  show "ps_stdioSeq (hs_ps demo_agent ! 0) = 1" "ps_stderrSeq (hs_ps demo_agent ! 0) = 2"
    "ps_exitStatus (hs_ps demo_agent ! 0) = None" "ps_waitChan (hs_ps demo_agent ! 0) = None" "\<not> ps_outClosed (hs_ps demo_agent ! 0)"
    using demo_agent_facts(3-7) len by (cases "hs_ps demo_agent"; simp)+
  show "gget (hs_streamOuts demo_agent) 1 \<noteq> None" "gget (hs_streamOuts demo_agent) 2 \<noteq> None"
    unfolding gget_None_keys demo_agent_facts(8) by simp_all
qed


theorem exit_sent_once_witness: "ps_waitChan (hs_ps demo_agent ! 0) = None \<or> ps_waitChan (hs_ps demo_agent ! 0) = Some []"
  using exit_sent_once [OF demo_agent_run] demo_agent_facts(1) by blast

theorem exit_any_order_witness:
  "\<exists>h'. hs_run [HStream \<lparr>tm_Session = 1, tm_Message = []\<rparr>, HWait ''c'' ''init'', HExit ''c'' ''init'' 7] demo_agent = Some h' \<and>
     WaitProcess_receive 0 h' = Some 7"
  using exit_any_order [OF demo_agent_run demo_agent_facts(1) demo_agent_first(4-6) demo_agent_facts(9) _ _ refl,
      of "[HStream \<lparr>tm_Session = 1, tm_Message = []\<rparr>, HWait ''c'' ''init'', HExit ''c'' ''init'' 7]" 7] demo_agent_first(2,7,3,8)
  by auto

end
