(* ===== verification/Fanout.thy ===== *)
theory Fanout
  imports Api
begin

text \<open>
  The fan-out of the responses of a sandbox to its clients (\<^verbatim>\<open>hypervisor/fanout.go\<close>). A channel is an
  index in a heap of buffers with their closed flag; closing a closed channel is a panic, \<open>None\<close>.
  The goroutine of \<^verbatim>\<open>start\<close> is a transition per round of its loop; every transition is a section
  under the lock.
\<close>

record resp_chan =
  rc_buf :: "VmResponse list"
  rc_closed :: bool

record Fanout =
  fo_size :: nat
  fo_clients :: "nat list"
  fo_running :: bool
  fo_goroutines :: nat
  fo_chans :: "resp_chan list"

definition CreateFanout :: "nat \<Rightarrow> bool \<Rightarrow> Fanout" where
  "CreateFanout sz block =
     \<lparr>fo_size = sz, fo_clients = [], fo_running = (\<not> block), fo_goroutines = (if block then 0 else 1), fo_chans = []\<rparr>"

definition Acquire :: "Fanout \<Rightarrow> Fanout \<times> nat" where
  "Acquire fo =
     (let c = length (fo_chans fo)
      in (fo\<lparr>fo_chans := fo_chans fo @ [\<lparr>rc_buf = [], rc_closed = False\<rparr>], fo_clients := fo_clients fo @ [c], fo_running := True,
             fo_goroutines := (if fo_running fo then fo_goroutines fo else fo_goroutines fo + 1)\<rparr>, c))"

definition close_chan :: "nat \<Rightarrow> Fanout \<Rightarrow> Fanout option" where
  "close_chan c fo =
     (if rc_closed (fo_chans fo ! c) then None
      else Some (fo\<lparr>fo_chans := (fo_chans fo)[c := (fo_chans fo ! c)\<lparr>rc_closed := True\<rparr>]\<rparr>))"

fun close_chans :: "nat list \<Rightarrow> Fanout \<Rightarrow> Fanout option" where
  "close_chans [] fo = Some fo"
| "close_chans (c # cs) fo = (case close_chan c fo of None \<Rightarrow> None | Some fo' \<Rightarrow> close_chans cs fo')"

definition Release :: "nat \<Rightarrow> Fanout \<Rightarrow> Fanout option" where
  "Release client fo =
     (case close_chans (filter (\<lambda>c. c = client) (fo_clients fo)) fo of
        None \<Rightarrow> None
      | Some fo' \<Rightarrow> Some (fo'\<lparr>fo_clients := filter (\<lambda>c. c \<noteq> client) (fo_clients fo)\<rparr>))"

text \<open>A send that neither blocks nor panics: a full or closed channel drops the response.\<close>

definition UnblockSend :: "VmResponse \<Rightarrow> nat \<Rightarrow> Fanout \<Rightarrow> Fanout" where
  "UnblockSend r c fo =
     (let ch = fo_chans fo ! c in
      if rc_closed ch \<or> length (rc_buf ch) \<ge> fo_size fo then fo
      else fo\<lparr>fo_chans := (fo_chans fo)[c := ch\<lparr>rc_buf := rc_buf ch @ [r]\<rparr>]\<rparr>)"

text \<open>
  A round of the goroutine: a response of the sandbox, or \<open>None\<close> for the closed upstream channel or
  the close signal, which ends the goroutine.
\<close>

definition fan_round :: "VmResponse option \<Rightarrow> Fanout \<Rightarrow> Fanout option" where
  "fan_round rsp fo =
     (if fo_goroutines fo = 0 then Some fo
      else case rsp of
        Some r \<Rightarrow> Some (fold (UnblockSend r) (fo_clients fo) fo)
      | None \<Rightarrow>
          (case close_chans (fo_clients fo) fo of
             None \<Rightarrow> None
           | Some fo' \<Rightarrow> Some (fo'\<lparr>fo_clients := [], fo_running := False, fo_goroutines := fo_goroutines fo - 1\<rparr>)))"

text \<open>A client takes the next response; the second component is \<open>False\<close> when the channel is closed and empty.\<close>

definition fan_receive :: "nat \<Rightarrow> Fanout \<Rightarrow> (Fanout \<times> VmResponse option) option" where
  "fan_receive c fo =
     (case rc_buf (fo_chans fo ! c) of
        r # rs \<Rightarrow> Some (fo\<lparr>fo_chans := (fo_chans fo)[c := (fo_chans fo ! c)\<lparr>rc_buf := rs\<rparr>]\<rparr>, Some r)
      | [] \<Rightarrow> if rc_closed (fo_chans fo ! c) then Some (fo, None) else None)"

datatype fan_label = FAcquire | FRelease nat | FRound "VmResponse option" | FReceive nat

fun fan_exec :: "fan_label \<Rightarrow> Fanout \<Rightarrow> Fanout option" where
  "fan_exec FAcquire fo = Some (fst (Acquire fo))"
| "fan_exec (FRelease c) fo = Release c fo"
| "fan_exec (FRound r) fo = fan_round r fo"
| "fan_exec (FReceive c) fo = Some (case fan_receive c fo of None \<Rightarrow> fo | Some (fo', _) \<Rightarrow> fo')"

fun fan_run :: "fan_label list \<Rightarrow> Fanout \<Rightarrow> Fanout option" where
  "fan_run [] fo = Some fo"
| "fan_run (l # ls) fo = (case fan_exec l fo of None \<Rightarrow> None | Some fo' \<Rightarrow> fan_run ls fo')"

section \<open>Invariant\<close>

text \<open>The clients are exactly the open channels, and no buffer exceeds the size.\<close>

definition fan_inv :: "Fanout \<Rightarrow> bool" where
  "fan_inv fo \<longleftrightarrow> distinct (fo_clients fo) \<and>
     (\<forall>c. c \<in> set (fo_clients fo) \<longleftrightarrow> c < length (fo_chans fo) \<and> \<not> rc_closed (fo_chans fo ! c)) \<and>
     (\<forall>ch \<in> set (fo_chans fo). length (rc_buf ch) \<le> fo_size fo)"

definition fan_open :: "Fanout \<Rightarrow> nat set" where
  "fan_open fo = {c. c < length (fo_chans fo) \<and> \<not> rc_closed (fo_chans fo ! c)}"

definition fan_bounded :: "Fanout \<Rightarrow> bool" where
  "fan_bounded fo \<longleftrightarrow> (\<forall>ch \<in> set (fo_chans fo). length (rc_buf ch) \<le> fo_size fo)"

lemma fan_inv_alt: "fan_inv fo \<longleftrightarrow> distinct (fo_clients fo) \<and> set (fo_clients fo) = fan_open fo \<and> fan_bounded fo"
  by (auto simp: fan_inv_def fan_open_def fan_bounded_def)

lemma close_chans_open:
  assumes "distinct cs" "set cs \<subseteq> fan_open fo" "fan_bounded fo"
  shows "\<exists>fo'. close_chans cs fo = Some fo' \<and> fan_open fo' = fan_open fo - set cs \<and> fan_bounded fo' \<and>
    fo_clients fo' = fo_clients fo \<and> fo_size fo' = fo_size fo"
  using assms
proof (induction cs arbitrary: fo)
  case (Cons c cs)
  let ?fo = "fo\<lparr>fo_chans := (fo_chans fo)[c := (fo_chans fo ! c)\<lparr>rc_closed := True\<rparr>]\<rparr>"
  have c: "c < length (fo_chans fo)" "\<not> rc_closed (fo_chans fo ! c)" using Cons.prems(2) by (auto simp: fan_open_def)
  have st: "close_chan c fo = Some ?fo" using c by (simp add: close_chan_def)
  have op: "fan_open ?fo = fan_open fo - {c}" using c by (auto simp: fan_open_def nth_list_update split: if_splits)
  have "length (rc_buf (fo_chans fo ! c)) \<le> fo_size fo" using Cons.prems(3) c by (simp add: fan_bounded_def)
  then have bd: "fan_bounded ?fo"
    using Cons.prems(3) by (auto simp: fan_bounded_def dest!: set_update_subset_insert [THEN subsetD])
  have "set cs \<subseteq> fan_open ?fo" using Cons.prems(1,2) op by auto
  then obtain fo' where "close_chans cs ?fo = Some fo'" "fan_open fo' = fan_open ?fo - set cs" "fan_bounded fo'"
    "fo_clients fo' = fo_clients ?fo" "fo_size fo' = fo_size ?fo"
    using Cons.IH [OF _ _ bd] Cons.prems(1) by auto
  then show ?case using st op by auto
qed simp

lemma closed_upd_buf [simp]:
  "x < length chans \<Longrightarrow> rc_closed (chans[c := (chans ! c)\<lparr>rc_buf := b\<rparr>] ! x) = rc_closed (chans ! x)"
  by (cases "c = x") simp_all

lemma UnblockSend_frame:
  "fan_bounded fo \<Longrightarrow> fan_open (UnblockSend r c fo) = fan_open fo \<and> fan_bounded (UnblockSend r c fo) \<and>
     fo_clients (UnblockSend r c fo) = fo_clients fo \<and> fo_size (UnblockSend r c fo) = fo_size fo"
  by (auto simp: UnblockSend_def Let_def fan_open_def fan_bounded_def
      dest!: set_update_subset_insert [THEN subsetD] split: if_splits)

lemma fold_UnblockSend_frame:
  "fan_bounded fo \<Longrightarrow> fan_open (fold (UnblockSend r) cs fo) = fan_open fo \<and> fan_bounded (fold (UnblockSend r) cs fo) \<and>
     fo_clients (fold (UnblockSend r) cs fo) = fo_clients fo"
  by (induction cs arbitrary: fo) (simp_all add: UnblockSend_frame)

lemma fan_inv_exec: "fan_inv fo \<Longrightarrow> \<exists>fo'. fan_exec l fo = Some fo' \<and> fan_inv fo'"
proof (cases l)
  case FAcquire
  assume "fan_inv fo"
  then show ?thesis
    by (auto simp: FAcquire Acquire_def Let_def fan_inv_def nth_append less_Suc_eq split: if_splits)
next
  case (FRelease c)
  assume inv: "fan_inv fo"
  let ?cs = "filter (\<lambda>d. d = c) (fo_clients fo)"
  have "distinct ?cs" "set ?cs \<subseteq> fan_open fo" "fan_bounded fo" using inv by (auto simp: fan_inv_alt)
  then obtain fo' where "close_chans ?cs fo = Some fo'" "fan_open fo' = fan_open fo - set ?cs" "fan_bounded fo'"
    using close_chans_open by blast
  then show ?thesis using inv by (auto simp: FRelease Release_def fan_inv_alt fan_open_def fan_bounded_def)
next
  case (FRound r)
  assume inv: "fan_inv fo"
  then have b: "distinct (fo_clients fo)" "set (fo_clients fo) \<subseteq> fan_open fo" "fan_bounded fo" by (auto simp: fan_inv_alt)
  obtain fo' where "close_chans (fo_clients fo) fo = Some fo'" "fan_open fo' = fan_open fo - set (fo_clients fo)" "fan_bounded fo'"
    using close_chans_open [OF b] by blast
  then show ?thesis
    using inv fold_UnblockSend_frame [OF b(3)]
    by (cases r) (auto simp: FRound fan_round_def fan_inv_alt fan_open_def fan_bounded_def)
next
  case (FReceive c)
  assume inv: "fan_inv fo"
  show ?thesis
  proof (cases "rc_buf (fo_chans fo ! c)")
    case Nil
    then show ?thesis using inv by (simp add: FReceive fan_receive_def)
  next
    case (Cons r rs)
    let ?fo = "fo\<lparr>fo_chans := (fo_chans fo)[c := (fo_chans fo ! c)\<lparr>rc_buf := rs\<rparr>]\<rparr>"
    have "fan_open ?fo = fan_open fo" by (auto simp: fan_open_def)
    moreover have "fan_bounded ?fo"
    proof (cases "c < length (fo_chans fo)")
      case True
      then have "length (rc_buf (fo_chans fo ! c)) \<le> fo_size fo" using inv by (simp add: fan_inv_alt fan_bounded_def)
      then show ?thesis
        using inv Cons by (auto simp: fan_inv_alt fan_bounded_def dest!: set_update_subset_insert [THEN subsetD])
    qed (use inv in \<open>simp add: fan_inv_alt fan_bounded_def list_update_beyond\<close>)
    ultimately show ?thesis using inv Cons by (simp add: FReceive fan_receive_def fan_inv_alt)
  qed
qed

lemma fan_inv_run: "fan_inv fo \<Longrightarrow> \<exists>fo'. fan_run ls fo = Some fo' \<and> fan_inv fo'"
proof (induction ls arbitrary: fo)
  case (Cons l ls)
  then show ?case using fan_inv_exec [OF Cons.prems, of l] by auto
qed simp

section \<open>Properties\<close>

text \<open>
  C20: Whatever clients come and go and whenever the sandbox ends, the fan-out never closes a channel
  twice (which would panic), the clients it serves are exactly the open channels, and no channel
  holds more responses than its capacity.
\<close>

theorem fanout_safe:
  "\<exists>fo. fan_run ls (CreateFanout sz block) = Some fo \<and> distinct (fo_clients fo) \<and>
     (\<forall>c. c \<in> set (fo_clients fo) \<longleftrightarrow> c < length (fo_chans fo) \<and> \<not> rc_closed (fo_chans fo ! c)) \<and>
     list_all (\<lambda>ch. length (rc_buf ch) \<le> fo_size fo) (fo_chans fo)"
proof -
  have "fan_inv (CreateFanout sz block)" by (simp add: fan_inv_def CreateFanout_def)
  then obtain fo where "fan_run ls (CreateFanout sz block) = Some fo" "fan_inv fo" using fan_inv_run by blast
  then show ?thesis by (auto simp: fan_inv_def list_all_iff)
qed

end
