(* ===== verification/Vm.thy ===== *)
theory Vm
  imports Persistence Fanout HsProc
begin

text \<open>
  The handle of a virtual machine that clients use (\<^verbatim>\<open>hypervisor/vm.go\<close>): it forwards to the sandbox
  context, the driver and the agent, and waits for results and responses. The replies of driver
  and agent are arguments, the calls to them are logged in the context.
\<close>

record Vm =
  v_Id :: string
  v_ctx :: VmContext
  v_Cpu :: int
  v_Mem :: int
  v_clients :: "Fanout option"

section \<open>Start\<close>

definition GetResponseChan :: "Vm \<Rightarrow> Vm \<times> (string + nat)" where
  "GetResponseChan vm =
     (case v_clients vm of
        None \<Rightarrow> (vm, Inl ''No channels available'')
      | Some fo \<Rightarrow> (case Acquire fo of (fo', c) \<Rightarrow> (vm\<lparr>v_clients := Some fo'\<rparr>, Inr c)))"

definition ReleaseResponseChan :: "nat \<Rightarrow> Vm \<Rightarrow> Vm option" where
  "ReleaseResponseChan ch vm =
     (case v_clients vm of
        None \<Rightarrow> Some vm
      | Some fo \<Rightarrow> map_option (\<lambda>fo'. vm\<lparr>v_clients := Some fo'\<rparr>) (Release ch fo))"

text \<open>
  \<^verbatim>\<open>GetVm\<close>: without an id random names are tried until one has no directory, \<open>None\<close> while none of
  the tried names is free; \<open>started\<close> is the answer of the agent to the version request, which is
  sent only when the caller wants to wait for the start; \<open>err\<close> is the error of a failed \<^verbatim>\<open>InitContext\<close>.
\<close>

definition vm_id :: "(string \<Rightarrow> bool) \<Rightarrow> string list \<Rightarrow> string \<Rightarrow> string option" where
  "vm_id exists rnds vmId =
     (if vmId \<noteq> [] then Some vmId
      else find (\<lambda>i. \<not> exists (path_Join [BaseDir, i])) (map (\<lambda>r. ''vm-'' @ r) rnds))"

definition launch :: "string \<Rightarrow> BootConfig \<Rightarrow> init_env \<Rightarrow> string \<Rightarrow> DefaultVsockCidAllocator \<Rightarrow> (string + Vm) \<times> DefaultVsockCidAllocator" where
  "launch i b env err cids =
     (case InitContext i b env cids of
        (None, cids') \<Rightarrow> (Inl err, cids')
      | (Some ctx, cids') \<Rightarrow>
          (Inr \<lparr>v_Id = i, v_ctx = Launch ctx, v_Cpu = bc_CPU b, v_Mem = bc_Memory b, v_clients = Some (CreateFanout 128 False)\<rparr>, cids'))"

definition GetVm ::
  "(string \<Rightarrow> bool) \<Rightarrow> string list \<Rightarrow> string \<Rightarrow> BootConfig \<Rightarrow> bool \<Rightarrow> init_env \<Rightarrow> string \<Rightarrow> string option \<Rightarrow> DefaultVsockCidAllocator \<Rightarrow>
   ((string + Vm) \<times> DefaultVsockCidAllocator) option" where
  "GetVm exists rnds vmId b waitStarted env err started cids =
     (case vm_id exists rnds vmId of
        None \<Rightarrow> None
      | Some i \<Rightarrow>
          Some (case launch i b env err cids of
                  (Inl e, cids') \<Rightarrow> (Inl e, cids')
                | (Inr vm, cids') \<Rightarrow>
                    ((if waitStarted then (case started of Some e \<Rightarrow> Inl (''VM start failed: '' @ e) | None \<Rightarrow> Inr vm) else Inr vm), cids')))"

definition AssociateVm ::
  "('d \<Rightarrow> string option) \<Rightarrow> string option \<Rightarrow> (nat \<Rightarrow> string) \<Rightarrow> string option \<Rightarrow> DefaultVsockCidAllocator \<Rightarrow> string \<Rightarrow>
   string + 'd PersistInfo \<Rightarrow> (string + Vm) option \<times> DefaultVsockCidAllocator" where
  "AssociateVm load mkdir rnd agent cids vmId pack =
     (case VmAssociate load mkdir rnd agent cids vmId pack of
        (r, cids') \<Rightarrow>
          (map_option (\<lambda>r. case r of
              Inl e \<Rightarrow> Inl e
            | Inr ctx \<Rightarrow> Inr \<lparr>v_Id = vmId, v_ctx = ctx, v_Cpu = 0, v_Mem = 0, v_clients = Some (CreateFanout 128 False)\<rparr>) r, cids'))"

section \<open>Waiting for responses\<close>

text \<open>
  The goroutine of \<^verbatim>\<open>WaitResponse\<close> over what it receives: the responses of its channel, its close or
  the timeout. \<open>None\<close>: it still waits.
\<close>

datatype wait_item = WResponse VmResponse | WBroken | WTimeout

fun WaitResponse :: "(VmResponse \<Rightarrow> string option option) \<Rightarrow> wait_item list \<Rightarrow> string option option" where
  "WaitResponse match [] = None"
| "WaitResponse match (WBroken # _) = Some (Some ''Response Chan is broken'')"
| "WaitResponse match (WTimeout # _) = Some (Some ''timeout for waiting response'')"
| "WaitResponse match (WResponse r # items) =
     (case match r of Some err \<Rightarrow> Some err | None \<Rightarrow> WaitResponse match items)"

definition match_release :: "VmResponse \<Rightarrow> string option option" where
  "match_release r = (if rsp_Code r = E_VM_SHUTDOWN \<or> rsp_Code r = E_OK then Some None else None)"

definition match_shutdown :: "VmResponse \<Rightarrow> string option option" where
  "match_shutdown r = (if rsp_Code r = E_VM_SHUTDOWN then Some None else None)"

definition match_init :: "VmResponse \<Rightarrow> string option option" where
  "match_init r =
     (if rsp_Code r = E_OK then Some None
      else if rsp_Code r = E_FAILED \<or> rsp_Code r = E_VM_SHUTDOWN then Some (Some ''got failed event when wait init message'')
      else None)"

definition ReleaseVm :: "wait_item list \<Rightarrow> Vm \<Rightarrow> Vm \<times> string option option" where
  "ReleaseVm items vm =
     (if \<not> IsRunning (v_ctx vm) then (vm, Some None)
      else case SendVmEvent ReleaseVMCommand (v_ctx vm) of
        None \<Rightarrow> (vm, Some (Some (''VmContext('' @ sb_Id (v_ctx vm) @ ''): event handler already shutdown.'')))
      | Some ctx \<Rightarrow> (vm\<lparr>v_ctx := ctx\<rparr>, WaitResponse match_release items))"

definition WaitVm :: "wait_item list \<Rightarrow> string option option" where
  "WaitVm items = WaitResponse match_shutdown items"

definition WaitInit :: "wait_item list \<Rightarrow> Vm \<Rightarrow> Result option" where
  "WaitInit items vm =
     map_option (\<lambda>e. case e of Some m \<Rightarrow> NewResultBase (v_Id vm) False m
                             | None \<Rightarrow> NewResultBase (v_Id vm) True ''wait init message successfully'')
       (WaitResponse match_init items)"

definition Vm_Shutdown :: "wait_item list \<Rightarrow> Vm \<Rightarrow> Vm \<times> Result option" where
  "Vm_Shutdown items vm =
     (if \<not> IsRunning (v_ctx vm) then (vm, Some (NewResultBase (v_Id vm) False ''not in running state''))
      else case SendVmEvent (ShutdownCommand False) (v_ctx vm) of
        None \<Rightarrow> (vm, Some (NewResultBase (v_Id vm) False ''vm context already exited''))
      | Some ctx \<Rightarrow>
          (vm\<lparr>v_ctx := ctx\<rparr>,
           map_option (\<lambda>e. case e of Some m \<Rightarrow> NewResultBase (v_Id vm) False m
                                   | None \<Rightarrow> NewResultBase (v_Id vm) True ''shutdown vm successfully'')
             (WaitResponse match_shutdown items)))"

definition Kill :: "Vm \<Rightarrow> Vm" where
  "Kill vm = vm\<lparr>v_ctx := poweroffVM (v_ctx vm)\<rparr>"

definition InitSandbox :: "SandboxConfig option \<Rightarrow> string option \<Rightarrow> Vm \<Rightarrow> (Vm \<times> string option) option" where
  "InitSandbox config reply vm =
     map_option (\<lambda>(ctx, e). (vm\<lparr>v_ctx := ctx\<rparr>, e)) (startPod reply (SetNetworkEnvironment config (v_ctx vm)))"

section \<open>Requests that wait for a result\<close>

text \<open>
  The call of an operation of the sandbox with a fresh result channel of capacity one, from the
  goroutine that reads the channel behind the call. A second result sent during the call finds the
  channel full and its reader still in the call, under the lock of the sandbox.
\<close>

datatype 'r answer = Answer 'r | Waiting | Stuck

definition sent_results :: "nat \<Rightarrow> VmContext \<Rightarrow> VmContext \<Rightarrow> Result list" where
  "sent_results c before after = map snd (filter (\<lambda>p. fst p = c) (drop (length (sb_results before)) (sb_results after)))"

definition wait_result :: "nat \<Rightarrow> VmContext \<Rightarrow> VmContext \<Rightarrow> Result answer" where
  "wait_result c before after =
     (case sent_results c before after of [] \<Rightarrow> Waiting | [r] \<Rightarrow> Answer r | _ \<Rightarrow> Stuck)"

definition Vm_AddVolume :: "VolumeDescription \<Rightarrow> nat \<Rightarrow> Vm \<Rightarrow> (Vm \<times> Result answer) option" where
  "Vm_AddVolume vol c vm =
     map_option (\<lambda>ctx. (vm\<lparr>v_ctx := ctx\<rparr>, wait_result c (v_ctx vm) ctx)) (AddVolume vol (Some c) (v_ctx vm))"

definition Vm_RemoveContainer :: "string \<Rightarrow> nat \<Rightarrow> Vm \<Rightarrow> Vm \<times> Result answer" where
  "Vm_RemoveContainer i c vm =
     (let ctx = RemoveContainer i (Some c) (v_ctx vm) in (vm\<lparr>v_ctx := ctx\<rparr>, wait_result c (v_ctx vm) ctx))"

definition Vm_RemoveVolume :: "string \<Rightarrow> nat \<Rightarrow> Vm \<Rightarrow> Vm \<times> Result answer" where
  "Vm_RemoveVolume name c vm =
     (let ctx = RemoveVolume name (Some c) (v_ctx vm) in (vm\<lparr>v_ctx := ctx\<rparr>, wait_result c (v_ctx vm) ctx))"

text \<open>\<^verbatim>\<open>AddContainer\<close> up to the result of the sandbox, and behind it with the reply of the agent.\<close>

definition Vm_AddContainer :: "ContainerDescription \<Rightarrow> nat \<Rightarrow> Vm \<Rightarrow> (Vm \<times> Result answer) option" where
  "Vm_AddContainer d c vm =
     map_option (\<lambda>ctx. (vm\<lparr>v_ctx := ctx\<rparr>, wait_result c (v_ctx vm) ctx)) (AddContainer d (Some c) (v_ctx vm))"

definition Vm_AddContainer_added :: "ContainerDescription \<Rightarrow> Result \<Rightarrow> string option \<Rightarrow> Vm \<Rightarrow> Vm \<times> Result" where
  "Vm_AddContainer_added d ret reply vm =
     (if \<not> IsSuccess ret then (vm, ret)
      else case createContainer (cd_Id d) reply (v_ctx vm) of
        (ctx, None) \<Rightarrow> (vm\<lparr>v_ctx := ctx\<rparr>, ret)
      | (ctx, Some e) \<Rightarrow> (vm\<lparr>v_ctx := ctx\<rparr>, CommonErrorResult (NewCommonError (cd_Id d) e)))"

definition Vm_StartContainer :: "string \<Rightarrow> string option \<Rightarrow> Vm \<Rightarrow> Vm \<times> string option" where
  "Vm_StartContainer i reply vm =
     (case startContainer i reply (v_ctx vm) of
        (ctx, e) \<Rightarrow> (vm\<lparr>v_ctx := ctx\<rparr>, map_option ((@) ''Create new container failed: '') e))"

text \<open>
  \<^verbatim>\<open>batchWaitResult\<close>: an operation is started for each name once; then results are read until each name
  has one. \<open>rs\<close> are the results in the order in which they arrive; \<open>None\<close>: the loop still waits.
\<close>

fun batch_loop :: "string list \<Rightarrow> Result list \<Rightarrow> bool \<Rightarrow> (string, Result) gomap \<Rightarrow> (bool \<times> (string, Result) gomap) option" where
  "batch_loop [] rs success result = Some (success, result)"
| "batch_loop wl [] success result = None"
| "batch_loop wl (rsp # rs) success result =
     (let success' = (success \<and> IsSuccess rsp) in
      if ResultId rsp \<in> set wl
      then batch_loop (removeAll (ResultId rsp) wl) rs success' (gput (ResultId rsp) rsp result)
      else batch_loop wl rs success' result)"

definition batchWaitResult :: "string list \<Rightarrow> Result list \<Rightarrow> (bool \<times> (string, Result) gomap) option" where
  "batchWaitResult names rs = batch_loop (remdups names) rs True []"

section \<open>Network\<close>

definition Vm_AddRoute :: "string option \<Rightarrow> Vm \<Rightarrow> Vm \<times> string option" where
  "Vm_AddRoute reply vm = (vm\<lparr>v_ctx := log_call (AgAddRoute (getRoutes (v_ctx vm))) (v_ctx vm)\<rparr>, reply)"

text \<open>\<^verbatim>\<open>AddNic\<close> up to the result, and behind it; the same for \<^verbatim>\<open>DeleteNic\<close>, which asks the agent first.\<close>

definition AddNic :: "InterfaceDescription \<Rightarrow> nat \<Rightarrow> Vm \<Rightarrow> Vm \<times> Result answer" where
  "AddNic info c vm =
     (let ctx = AddInterface info (Some c) (v_ctx vm) in (vm\<lparr>v_ctx := ctx\<rparr>, wait_result c (v_ctx vm) ctx))"

definition AddNic_added :: "InterfaceDescription \<Rightarrow> Result option \<Rightarrow> string option \<Rightarrow> Vm \<Rightarrow> (Vm \<times> string option) option" where
  "AddNic_added info ev reply vm =
     (case ev of
        None \<Rightarrow> Some (vm, Some ''internal error'')
      | Some r \<Rightarrow>
          if \<not> IsSuccess r then Some (vm, Some ''allocate device failed'')
          else map_option (\<lambda>(ctx, e). (vm\<lparr>v_ctx := ctx\<rparr>, e)) (agentAddInterface (id_Id info) reply (v_ctx vm)))"

definition DeleteNic :: "string \<Rightarrow> string option \<Rightarrow> nat \<Rightarrow> Vm \<Rightarrow> Vm \<times> (string + Result answer)" where
  "DeleteNic i reply c vm =
     (case agentDeleteInterface i reply (v_ctx vm) of
        (ctx, Some e) \<Rightarrow> (vm\<lparr>v_ctx := ctx\<rparr>, Inl e)
      | (ctx, None) \<Rightarrow>
          (let ctx' = RemoveInterface i (Some c) ctx in (vm\<lparr>v_ctx := ctx'\<rparr>, Inr (wait_result c ctx ctx'))))"

definition DeleteNic_removed :: "Result option \<Rightarrow> string option" where
  "DeleteNic_removed ev =
     (case ev of None \<Rightarrow> Some ''internal error'' | Some r \<Rightarrow> if IsSuccess r then None else Some ''remove device failed'')"

definition UpdateNic :: "InterfaceDescription \<Rightarrow> string option list \<Rightarrow> Vm \<Rightarrow> (Vm \<times> string option) option" where
  "UpdateNic nif replies vm =
     (case agentUpdateInterface (id_Id nif) (id_Ip nif) (id_Mtu nif) replies (v_ctx vm) of
        None \<Rightarrow> None
      | Some (ctx, Some e) \<Rightarrow> Some (vm\<lparr>v_ctx := ctx\<rparr>, Some e)
      | Some (ctx, None) \<Rightarrow> map_option (\<lambda>(ctx', e). (vm\<lparr>v_ctx := ctx'\<rparr>, e)) (UpdateInterface nif ctx))"

definition GetIPAddrs :: "Vm \<Rightarrow> string list option" where
  "GetIPAddrs vm = (if \<not> IsRunning (v_ctx vm) then Some [] else getIPAddrs (v_ctx vm))"

section \<open>Size and pause\<close>

definition SetCpus :: "int \<Rightarrow> string option \<Rightarrow> Vm \<Rightarrow> Vm \<times> string option" where
  "SetCpus cpus reply vm =
     (if v_Cpu vm \<ge> cpus then (vm, None)
      else if \<not> IsRunning (v_ctx vm) then (vm, Some (ce_cause (NewNotReadyError (v_Id vm))))
      else (let vm1 = vm\<lparr>v_ctx := log_call (DrSetCpus cpus) (v_ctx vm)\<rparr>
            in case reply of None \<Rightarrow> (vm1\<lparr>v_Cpu := cpus\<rparr>, None) | Some e \<Rightarrow> (vm1, Some e)))"

definition AddMem :: "int \<Rightarrow> string option \<Rightarrow> Vm \<Rightarrow> Vm \<times> string option" where
  "AddMem totalMem reply vm =
     (if v_Mem vm \<ge> totalMem then (vm, None)
      else if \<not> IsRunning (v_ctx vm) then (vm, Some (ce_cause (NewNotReadyError (v_Id vm))))
      else (let vm1 = vm\<lparr>v_ctx := log_call (DrAddMem 1 (totalMem - v_Mem vm)) (v_ctx vm)\<rparr>
            in case reply of None \<Rightarrow> (vm1\<lparr>v_Mem := totalMem\<rparr>, None) | Some e \<Rightarrow> (vm1, Some e)))"

definition Vm_OnlineCpuMem :: "string option \<Rightarrow> Vm \<Rightarrow> Vm \<times> string option" where
  "Vm_OnlineCpuMem reply vm = (vm\<lparr>v_ctx := log_call AgOnlineCpuMem (v_ctx vm)\<rparr>, reply)"

text \<open>\<open>agent\<close> and \<open>driver\<close> are the replies of the agent and of the driver.\<close>

definition Pause :: "bool \<Rightarrow> string option \<Rightarrow> string option \<Rightarrow> Vm \<Rightarrow> Vm \<times> string option" where
  "Pause pause agent driver vm =
     (let ctx = v_ctx vm; target = (if pause then PauseStatePaused else PauseStateUnpaused) in
      if \<not> IsRunning ctx then (vm, Some (ce_cause (NewNotReadyError (v_Id vm))))
      else if sb_PauseState ctx = target then (vm, None)
      else (let ctx1 = (if pause then log_call AgPauseSync ctx else ctx) in
            case (if pause then agent else None) of
              Some e \<Rightarrow> (vm\<lparr>v_ctx := ctx1\<rparr>, Some e)
            | None \<Rightarrow>
                (let ctx2 = log_call (DrPause pause) ctx1 in
                 case driver of
                   Some e \<Rightarrow> (vm\<lparr>v_ctx := ctx2\<rparr>, Some e)
                 | None \<Rightarrow>
                     (let ctx3 = (if pause then ctx2 else log_call AgUnpause ctx2) in
                      case (if pause then None else agent) of
                        Some e \<Rightarrow> (vm\<lparr>v_ctx := ctx3\<rparr>, Some e)
                      | None \<Rightarrow> (vm\<lparr>v_ctx := ctx3\<lparr>sb_PauseState := target\<rparr>\<rparr>, None)))))"

definition Save :: "string \<Rightarrow> string option \<Rightarrow> Vm \<Rightarrow> Vm \<times> string option" where
  "Save path reply vm =
     (if \<not> IsRunning (v_ctx vm) \<or> sb_PauseState (v_ctx vm) \<noteq> PauseStatePaused
      then (vm, Some (ce_cause (NewNotReadyError (v_Id vm))))
      else (vm\<lparr>v_ctx := log_call (DrSave path) (v_ctx vm)\<rparr>, reply))"

definition ContainerList :: "Vm \<Rightarrow> string list option" where
  "ContainerList vm = (if IsRunning (v_ctx vm) then Some (containerList (v_ctx vm)) else None)"

definition Vm_Dump :: "string + 'd \<Rightarrow> uint64 \<Rightarrow> Vm \<Rightarrow> (string + 'd PersistInfo) option" where
  "Vm_Dump dr lastStreamSeq vm = dump dr lastStreamSeq (v_ctx vm)"

section \<open>Requests to the agent\<close>

definition KillContainer :: "string \<Rightarrow> int \<Rightarrow> string option \<Rightarrow> jsonBasedHyperstart \<Rightarrow> jsonBasedHyperstart \<times> string option" where
  "KillContainer container signal reply h = SignalProcess container ''init'' signal reply h"

definition Tty ::
  "string \<Rightarrow> string \<Rightarrow> int \<Rightarrow> int \<Rightarrow> string option \<Rightarrow> jsonBasedHyperstart \<Rightarrow> jsonBasedHyperstart \<times> string option" where
  "Tty containerId execId row column reply h =
     TtyWinResize containerId (if execId = [] then ''init'' else execId) (of_int row) (of_int column) reply h"

definition AddProcess ::
  "string \<Rightarrow> string \<Rightarrow> UserGroupInfo option \<Rightarrow> OciProcess \<Rightarrow> string option \<Rightarrow> Vm \<Rightarrow> jsonBasedHyperstart \<Rightarrow>
   jsonBasedHyperstart \<times> string option" where
  "AddProcess container i ugi oci reply vm h =
     (if \<not> IsRunning (v_ctx vm) then (h, Some (ce_cause (NewNotReadyError (v_Id vm))))
      else ExecProcess container i ugi oci reply h)"

end
