(* ===== verification/VmProps.thy ===== *)
theory VmProps
  imports Vm SandboxProps
begin

text \<open>
  Properties of the virtual-machine handle: waiting for a batch of results ends, and two requests
  that leave the sandbox or the agent in a state the client cannot get out of.
\<close>

section \<open>Waiting for a batch\<close>

lemma batch_loop_returns:
  assumes "set wl \<subseteq> ResultId ` set rs" "distinct wl" "set wl \<inter> set (gkeys result) = {}" "gwf result"
  shows "\<exists>ok res. batch_loop wl rs success result = Some (ok, res) \<and> set (gkeys res) = set (gkeys result) \<union> set wl \<and> gwf res \<and>
    (\<forall>n r. gget res n = Some r \<longrightarrow> gget result n = Some r \<or> n \<in> set wl \<and> find (\<lambda>r. ResultId r = n) rs = Some r) \<and>
    (ok \<longrightarrow> success \<and> (\<forall>n \<in> set wl. \<forall>r. gget res n = Some r \<longrightarrow> IsSuccess r))"
  using assms
proof (induction wl rs success result rule: batch_loop.induct)
  case (3 w wl rsp rs success result)
  let ?wl = "w # wl" and ?i = "ResultId rsp"
  show ?case
  proof (cases "?i \<in> set ?wl")
    case True
    let ?wl' = "removeAll ?i ?wl" and ?res = "gput ?i rsp result"
    have pre: "set ?wl' \<subseteq> ResultId ` set rs" "distinct ?wl'" "set ?wl' \<inter> set (gkeys ?res) = {}" "gwf ?res"
      using 3(3-6) gkeys_gput [of ?i rsp result] by (auto simp: distinct_removeAll)
    obtain ok res where r: "batch_loop ?wl' rs (success \<and> IsSuccess rsp) ?res = Some (ok, res)"
      "set (gkeys res) = set (gkeys ?res) \<union> set ?wl'" "gwf res"
      "\<forall>n r. gget res n = Some r \<longrightarrow> gget ?res n = Some r \<or> n \<in> set ?wl' \<and> find (\<lambda>r. ResultId r = n) rs = Some r"
      "ok \<longrightarrow> (success \<and> IsSuccess rsp) \<and> (\<forall>n \<in> set ?wl'. \<forall>r. gget res n = Some r \<longrightarrow> IsSuccess r)"
      using 3(1) [OF refl True pre] by blast
    have keys: "set (gkeys res) = set (gkeys result) \<union> set ?wl"
      using r(2) gkeys_gput [of ?i rsp result] True by auto
    have at: "gget res n = Some r \<Longrightarrow> gget result n = Some r \<or> n \<in> set ?wl \<and> find (\<lambda>r. ResultId r = n) (rsp # rs) = Some r" for n r
      using r(4) True by (cases "n = ?i") (auto split: if_splits)
    have "IsSuccess r'" if "ok" "n \<in> set ?wl" "gget res n = Some r'" for n r'
    proof (cases "n = ?i")
      case True
      have "n \<notin> set ?wl'" unfolding set_removeAll using True by blast
      then have "gget ?res n = Some r'" using r(4) that(3) by blast
      then show ?thesis using True r(5) that(1) by simp
    next
      case False
      have "n \<in> set ?wl'" unfolding set_removeAll using False that(2) by blast
      then show ?thesis using r(5) that(1,3) by blast
    qed
    then show ?thesis using True r keys at by (auto simp: Let_def)
  next
    case False
    have pre: "set ?wl \<subseteq> ResultId ` set rs" using 3(3) False by auto
    then show ?thesis using 3(2) [OF refl False pre 3(4-6)] False by (auto simp: Let_def) blast+
  qed
qed auto



section \<open>A request that never returns\<close>


definition demo_vm :: "VmContext \<Rightarrow> Vm" where
  "demo_vm ctx = \<lparr>v_Id = ''vm'', v_ctx = ctx, v_Cpu = 1, v_Mem = 128, v_clients = None\<rparr>"


section \<open>A pause that fails half way\<close>

text \<open>
  C38: When the hypervisor refuses a pause behind the agent's consent, \<^verbatim>\<open>Pause\<close> returns the error and
  the machine counts as running, so that \<^verbatim>\<open>Pause(false)\<close> does nothing and succeeds; but the agent, which
  was told to pause, refuses every further command.
\<close>

theorem failed_pause_blocks_agent:
  assumes "IsRunning (v_ctx vm)" "sb_PauseState (v_ctx vm) = PauseStateUnpaused"
    and cmd: "hq_Code p = hyperstartPauseSync" "cl_cmds s = []"
  shows "\<exists>vm1 s1. Pause True None (Some e) vm = (vm1, Some e) \<and> sb_calls (v_ctx vm1) = sb_calls (v_ctx vm) @ [AgPauseSync, DrPause True] \<and>
    (\<forall>a d. Pause False a d vm1 = (vm1, None)) \<and>
    ctl_step rewrite p took s = Some s1 \<and> (hq_result p, Synced) \<in> set (cl_results s1) \<and>
    (\<forall>c k. hq_Code c \<notin> {INIT_ACK, INIT_ERROR, INIT_NEXT, hyperstartPauseSync, hyperstartUnpause} \<longrightarrow>
      ctl_step rewrite c k s1 = Some (ctl_answer (hq_result c) (Refused ''the vm is pausing/paused'') s1))"
proof -
  have run: "IsRunning (log_call a ctx) = IsRunning ctx" for a ctx by (simp add: IsRunning_def log_call_def)
  let ?vm1 = "vm\<lparr>v_ctx := log_call (DrPause True) (log_call AgPauseSync (v_ctx vm))\<rparr>"
  have "Pause True None (Some e) vm = (?vm1, Some e)" using assms(1,2) by (simp add: Pause_def)
  moreover have "sb_calls (v_ctx ?vm1) = sb_calls (v_ctx vm) @ [AgPauseSync, DrPause True]" by (simp add: log_call_def)
  moreover have "Pause False a d ?vm1 = (?vm1, None)" for a d
    using assms(1,2) by (simp add: Pause_def run) (simp add: log_call_def)
  moreover obtain s1 where "ctl_step rewrite p took s = Some s1" "cl_paused s1" "(hq_result p, Synced) \<in> set (cl_results s1)"
    using cmd by (simp add: ctl_step_def init_codes ctl_synced_def ctl_answer_def ctl_write_def Let_def split: if_splits)
  moreover have "ctl_step rewrite c k s1 = Some (ctl_answer (hq_result c) (Refused ''the vm is pausing/paused'') s1)"
    if "hq_Code c \<notin> {INIT_ACK, INIT_ERROR, INIT_NEXT, hyperstartPauseSync, hyperstartUnpause}" "cl_paused s1" for c k s1
    using that by (simp add: ctl_step_def)
  ultimately show ?thesis by blast
qed

theorem failed_pause_blocks_agent_witness:
  "\<exists>vm1 s1. Pause True None (Some ''busy'') (demo_vm demo_state) = (vm1, Some ''busy'') \<and>
     ctl_step Some \<lparr>hq_Code = hyperstartPauseSync, hq_Message = None, hq_retMsg = [], hq_result = 1\<rparr> 0 (ctl_init 4244 False) = Some s1 \<and>
     ctl_step Some \<lparr>hq_Code = INIT_ONLINECPUMEM, hq_Message = Some [], hq_retMsg = [], hq_result = 2\<rparr> 0 s1 =
       Some (ctl_answer 2 (Refused ''the vm is pausing/paused'') s1)"
proof -
  let ?p = "\<lparr>hq_Code = hyperstartPauseSync, hq_Message = None, hq_retMsg = [], hq_result = 1\<rparr>"
    and ?c = "\<lparr>hq_Code = INIT_ONLINECPUMEM, hq_Message = Some [], hq_retMsg = [], hq_result = 2\<rparr>"
  have "IsRunning (v_ctx (demo_vm demo_state))" "sb_PauseState (v_ctx (demo_vm demo_state)) = PauseStateUnpaused" by code_simp+
  from failed_pause_blocks_agent [OF this, of ?p "ctl_init 4244 False" "''busy''" Some 0] obtain vm1 s1 where
    *: "Pause True None (Some ''busy'') (demo_vm demo_state) = (vm1, Some ''busy'')" "ctl_step Some ?p 0 (ctl_init 4244 False) = Some s1"
    "\<forall>c k. hq_Code c \<notin> {INIT_ACK, INIT_ERROR, INIT_NEXT, hyperstartPauseSync, hyperstartUnpause} \<longrightarrow>
      ctl_step Some c k s1 = Some (ctl_answer (hq_result c) (Refused ''the vm is pausing/paused'') s1)"
    by (auto simp: ctl_init_def)
  have "hq_Code ?c \<notin> {INIT_ACK, INIT_ERROR, INIT_NEXT, hyperstartPauseSync, hyperstartUnpause}" by (simp add: init_codes)
  then have "ctl_step Some ?c 0 s1 = Some (ctl_answer 2 (Refused ''the vm is pausing/paused'') s1)" using *(3) [rule_format, of ?c 0] by simp
  with *(1,2) show ?thesis by blast
qed

end
