(* ===== verification/Factory.thy ===== *)
theory Factory
  imports Vm "HOL-Library.Product_Lexorder" "HOL-Library.Multiset"
begin

text \<open>
  The factories of virtual machines (\<^verbatim>\<open>factory/\<close>, \<^verbatim>\<open>template/template.go\<close>): base factories that boot a
  machine or start one from a saved template, the cache of started machines, and the factories
  for clients, which choose a base machine and plug in the processors and the memory that it
  lacks. What \<^verbatim>\<open>hypervisor.GetVm\<close> returns for a boot configuration, and the replies of drivers,
  agents and system calls, are arguments.
\<close>

type_synonym vm_source = "BootConfig \<Rightarrow> bool \<Rightarrow> string + Vm"

section \<open>Templates\<close>

record TemplateVmConfig =
  tc_StatePath :: string
  tc_Driver :: string
  tc_Config :: BootConfig

datatype template_action =
    MkdirAll string
  | MountTmpfs string string
  | CreateFile string
  | StartVm string BootConfig
  | PauseVm
  | SaveVm string
  | WriteConfig string
  | KillVm
  | Unmount string
  | RemoveDir string

text \<open>\<open>unmounts\<close> says for each attempt whether the unmount fails; there are at most five.\<close>

fun unmount_loop :: "nat \<Rightarrow> bool list \<Rightarrow> string \<Rightarrow> template_action list" where
  "unmount_loop 0 fails path = []"
| "unmount_loop (Suc n) (True # fails) path = Unmount path # unmount_loop n fails path"
| "unmount_loop (Suc n) _ path = [Unmount path]"

definition Destroy :: "bool list \<Rightarrow> TemplateVmConfig \<Rightarrow> template_action list" where
  "Destroy fails t = unmount_loop 5 fails (tc_StatePath t) @ [RemoveDir (tc_StatePath t)]"

text \<open>
  The steps of \<^verbatim>\<open>CreateTemplateVM\<close> with the error of each: the first error ends them.
\<close>

fun template_steps :: "(template_action \<times> string option) list \<Rightarrow> template_action list \<times> string option" where
  "template_steps [] = ([], None)"
| "template_steps ((a, Some e) # steps) = ([a], Some e)"
| "template_steps ((a, None) # steps) = (case template_steps steps of (as, r) \<Rightarrow> (a # as, r))"

record template_env =
  te_mkdir :: "string option"
  te_mount :: "string option"
  te_create :: "string option"
  te_vm :: "string option"
  te_pause :: "string option"
  te_save :: "string option"
  te_write :: "string option"
  te_unmounts :: "bool list"

definition template_boot :: "string \<Rightarrow> BootConfig \<Rightarrow> BootConfig" where
  "template_boot statePath b = b\<lparr>bc_MemoryPath := statePath @ ''/memory'', bc_DevicesStatePath := statePath @ ''/state''\<rparr>"

definition CreateTemplateVM ::
  "string \<Rightarrow> string \<Rightarrow> string \<Rightarrow> BootConfig \<Rightarrow> template_env \<Rightarrow> template_action list \<times> (string + TemplateVmConfig)" where
  "CreateTemplateVM driver statePath vmName b env =
     (if bc_BootToBeTemplate b \<or> bc_BootFromTemplate b \<or> bc_MemoryPath b \<noteq> [] \<or> bc_DevicesStatePath b \<noteq> []
      then ([], Inl ''Error boot config for template'')
      else (let b1 = template_boot statePath b;
                config = \<lparr>tc_StatePath = statePath, tc_Driver = driver, tc_Config = b1\<lparr>bc_BootFromTemplate := True\<rparr>\<rparr>;
                (as, r) = template_steps
                  [(MkdirAll statePath, te_mkdir env),
                   (MountTmpfs statePath (''size='' @ itoa (bc_Memory b + 8) @ ''M''), te_mount env),
                   (CreateFile (statePath @ ''/memory''), te_create env),
                   (StartVm vmName (b1\<lparr>bc_BootToBeTemplate := True\<rparr>), te_vm env),
                   (PauseVm, te_pause env),
                   (SaveVm (statePath @ ''/state''), te_save env),
                   (WriteConfig (path_Join [statePath, ''config.json'']), te_write env)];
                kill = (if PauseVm \<in> set as then [KillVm] else [])
            in case r of
                 Some e \<Rightarrow> (as @ kill @ Destroy (te_unmounts env) config, Inl e)
               | None \<Rightarrow> (as @ kill, Inr config)))"

definition BootConfigFromTemplate :: "TemplateVmConfig \<Rightarrow> BootConfig" where
  "BootConfigFromTemplate t = tc_Config t"

definition NewVmFromTemplate :: "vm_source \<Rightarrow> TemplateVmConfig \<Rightarrow> string + Vm" where
  "NewVmFromTemplate get t = get (BootConfigFromTemplate t) False"

section \<open>Base factories\<close>

datatype base =
    Direct BootConfig
  | FromTemplate TemplateVmConfig
  | Cache nat base

fun base_Config :: "base \<Rightarrow> BootConfig" where
  "base_Config (Direct b) = b"
| "base_Config (FromTemplate t) = BootConfigFromTemplate t"
| "base_Config (Cache n b) = base_Config b"

definition cache_New :: "int \<Rightarrow> base \<Rightarrow> base" where
  "cache_New cacheSize b = (if cacheSize < 1 then b else Cache (nat cacheSize) b)"

text \<open>A template that cannot be created is replaced by a direct factory.\<close>

definition template_New :: "string + TemplateVmConfig \<Rightarrow> BootConfig \<Rightarrow> base" where
  "template_New created b = (case created of Inl e \<Rightarrow> Direct b | Inr t \<Rightarrow> FromTemplate t)"

text \<open>The second component lists the machines that were killed.\<close>

definition direct_GetBaseVm ::
  "vm_source \<Rightarrow> string option \<Rightarrow> string option \<Rightarrow> BootConfig \<Rightarrow> (string + Vm) \<times> Vm list" where
  "direct_GetBaseVm get agent driver config =
     (case get config True of
        Inl e \<Rightarrow> (Inl e, [])
      | Inr vm \<Rightarrow> (case Pause True agent driver vm of (vm1, None) \<Rightarrow> (Inr vm1, []) | (vm1, Some e) \<Rightarrow> (Inl e, [Kill vm1])))"

text \<open>The next machine of a base factory; a cache hands out what its workers got from the factory below.\<close>

fun GetBaseVm :: "vm_source \<Rightarrow> string option \<Rightarrow> string option \<Rightarrow> bool \<Rightarrow> base \<Rightarrow> string + Vm" where
  "GetBaseVm get agent driver closed (Direct b) = fst (direct_GetBaseVm get agent driver b)"
| "GetBaseVm get agent driver closed (FromTemplate t) = NewVmFromTemplate get t"
| "GetBaseVm get agent driver closed (Cache n b) =
     (if closed then Inl ''cache factory is closed'' else GetBaseVm get agent driver closed b)"

section \<open>Client factories\<close>

definition dummy_GetVm :: "vm_source \<Rightarrow> BootConfig \<Rightarrow> int \<Rightarrow> int \<Rightarrow> string + Vm" where
  "dummy_GetVm get boot cpu mem = get (boot\<lparr>bc_CPU := cpu, bc_Memory := mem\<rparr>) False"

text \<open>
  \<^verbatim>\<open>single.Factory.GetVm\<close>; \<open>base_vm\<close> is the machine of the base factory, the pair of \<open>pause\<close> the replies to the
  resume, \<open>cpus\<close> and \<open>mems\<close> those to the plugging. The variable \<^verbatim>\<open>err\<close> is that of the last plugging;
  what \<^verbatim>\<open>OnlineCpuMem\<close> returns is not looked at.
\<close>

definition single_GetVm ::
  "vm_source \<Rightarrow> BootConfig \<Rightarrow> string + Vm \<Rightarrow> string option \<times> string option \<Rightarrow> string option \<Rightarrow> string option \<Rightarrow> int \<Rightarrow> int \<Rightarrow>
   (string + Vm) \<times> Vm list" where
  "single_GetVm get config base_vm pause cpus mems cpu mem =
     (if bc_CPU config > cpu \<or> bc_Memory config > mem then (dummy_GetVm get config cpu mem, [])
      else case base_vm of
        Inl e \<Rightarrow> (Inl e, [])
      | Inr vm \<Rightarrow>
          (let vm0 = fst (Pause False (fst pause) (snd pause) vm);
               (vm1, err1) = (if v_Cpu vm0 < cpu then SetCpus cpu cpus vm0 else (vm0, None));
               (vm2, err2) = (if v_Mem vm1 < mem then AddMem mem mems vm1 else (vm1, err1));
               vm3 = (if v_Cpu vm0 < cpu \<or> v_Mem vm1 < mem then fst (Vm_OnlineCpuMem None vm2) else vm2)
           in case err2 of Some e \<Rightarrow> (Inl e, [Kill vm3]) | None \<Rightarrow> (Inr vm3, [])))"

definition base_key :: "base \<Rightarrow> int \<times> int" where
  "base_key b = (bc_CPU (base_Config b), bc_Memory (base_Config b))"

text \<open>
  The order of \<^verbatim>\<open>sortingFactory\<close>, reversed. \<^verbatim>\<open>sort.Sort\<close> leaves bases of equal size in some order; here it is
  the reverse of their order before.
\<close>

definition multi_New :: "base list \<Rightarrow> base list" where
  "multi_New bases = rev (sort_key base_key bases)"

definition fits :: "int \<Rightarrow> int \<Rightarrow> base \<Rightarrow> bool" where
  "fits cpu mem b \<longleftrightarrow> bc_CPU (base_Config b) \<le> cpu \<and> bc_Memory (base_Config b) \<le> mem"

definition multi_choice :: "base list \<Rightarrow> int \<Rightarrow> int \<Rightarrow> base option" where
  "multi_choice f cpu mem = find (fits cpu mem) f"

definition multi_GetVm ::
  "vm_source \<Rightarrow> base list \<Rightarrow> (base \<Rightarrow> string + Vm) \<Rightarrow> string option \<times> string option \<Rightarrow> string option \<Rightarrow> string option \<Rightarrow> int \<Rightarrow> int \<Rightarrow>
   (string + Vm) \<times> Vm list" where
  "multi_GetVm get f base_vm pause cpus mems cpu mem =
     (case multi_choice f cpu mem of
        Some b \<Rightarrow> single_GetVm get (base_Config b) (base_vm b) pause cpus mems cpu mem
      | None \<Rightarrow> (dummy_GetVm get (base_Config (hd f)) cpu mem, []))"

record FactoryConfig =
  fc_Cache :: int
  fc_Template :: bool
  fc_Cpu :: int
  fc_Memory :: int

datatype factory = SingleDummy BootConfig | Single base | Multi "base list"

definition config_base :: "(BootConfig \<Rightarrow> string + TemplateVmConfig) \<Rightarrow> BootConfig \<Rightarrow> FactoryConfig \<Rightarrow> base" where
  "config_base create bootConfig c =
     (let boot = bootConfig\<lparr>bc_CPU := fc_Cpu c, bc_Memory := fc_Memory c\<rparr>
      in cache_New (fc_Cache c) (if fc_Template c then template_New (create boot) boot else Direct boot))"

definition NewFromConfigs :: "(BootConfig \<Rightarrow> string + TemplateVmConfig) \<Rightarrow> BootConfig \<Rightarrow> FactoryConfig list \<Rightarrow> factory" where
  "NewFromConfigs create bootConfig configs =
     (case map (config_base create bootConfig) configs of
        [] \<Rightarrow> SingleDummy bootConfig
      | [b] \<Rightarrow> Single b
      | bases \<Rightarrow> Multi (multi_New bases))"

section \<open>The workers of the cache\<close>

text \<open>
  A worker gets a machine from the factory below, then waits until a client takes it or a close
  signal arrives. \<^verbatim>\<open>CloseFactory\<close> fills the signal channel, waits for the workers and closes the cache.
\<close>

datatype worker = Getting | Holding nat | Ended

datatype close_pc = NotClosing | Sending | AwaitWorkers | CacheClosed

record cacheFactory =
  ca_size :: nat
  ca_workers :: "worker list"
  ca_signals :: nat
  ca_pc :: close_pc
  ca_got :: "nat list"
  ca_handed :: "nat list"
  ca_killed :: "nat list"

definition cache_init :: "nat \<Rightarrow> cacheFactory" where
  "cache_init n = \<lparr>ca_size = n, ca_workers = replicate n Getting, ca_signals = 0, ca_pc = NotClosing, ca_got = [], ca_handed = [], ca_killed = []\<rparr>"

datatype cache_label = LowerVm nat nat | LowerError nat | TakeVm nat | TakeSignal nat | CloseCall | CloseStep

definition cache_close :: "cacheFactory \<Rightarrow> cacheFactory" where
  "cache_close c = (if ca_pc c = NotClosing then c\<lparr>ca_pc := Sending\<rparr> else c)"

text \<open>\<open>None\<close>: the step is not possible.\<close>

fun cache_step :: "cache_label \<Rightarrow> cacheFactory \<Rightarrow> cacheFactory option" where
  "cache_step (LowerVm w vm) c =
     (if w < length (ca_workers c) \<and> ca_workers c ! w = Getting
      then Some (c\<lparr>ca_workers := (ca_workers c)[w := Holding vm], ca_got := ca_got c @ [vm]\<rparr>) else None)"
| "cache_step (LowerError w) c =
     (if w < length (ca_workers c) \<and> ca_workers c ! w = Getting
      then Some (cache_close (c\<lparr>ca_workers := (ca_workers c)[w := Ended]\<rparr>)) else None)"
| "cache_step (TakeVm w) c =
     (if w < length (ca_workers c) then
        (case ca_workers c ! w of
           Holding vm \<Rightarrow> Some (c\<lparr>ca_workers := (ca_workers c)[w := Getting], ca_handed := ca_handed c @ [vm]\<rparr>)
         | _ \<Rightarrow> None)
      else None)"
| "cache_step (TakeSignal w) c =
     (if w < length (ca_workers c) \<and> ca_signals c > 0 then
        (case ca_workers c ! w of
           Holding vm \<Rightarrow> Some (c\<lparr>ca_workers := (ca_workers c)[w := Ended], ca_signals := ca_signals c - 1, ca_killed := ca_killed c @ [vm]\<rparr>)
         | _ \<Rightarrow> None)
      else None)"
| "cache_step CloseCall c = Some (cache_close c)"
| "cache_step CloseStep c =
     (case ca_pc c of
        Sending \<Rightarrow> if ca_signals c < ca_size c then Some (c\<lparr>ca_signals := ca_signals c + 1\<rparr>) else Some (c\<lparr>ca_pc := AwaitWorkers\<rparr>)
      | AwaitWorkers \<Rightarrow> if list_all (\<lambda>w. w = Ended) (ca_workers c) then Some (c\<lparr>ca_pc := CacheClosed\<rparr>) else None
      | _ \<Rightarrow> None)"

fun cache_run :: "cache_label list \<Rightarrow> cacheFactory \<Rightarrow> cacheFactory option" where
  "cache_run [] c = Some c"
| "cache_run (l # ls) c = (case cache_step l c of None \<Rightarrow> None | Some c' \<Rightarrow> cache_run ls c')"

section \<open>The size of the machines\<close>

text \<open>What the factories rely on: a machine has the size of its boot configuration.\<close>

locale vm_sizes =
  fixes get :: vm_source
  assumes get_size: "get b w = Inr vm \<Longrightarrow> v_Cpu vm = bc_CPU b \<and> v_Mem vm = bc_Memory b"
begin

lemma Pause_size: "v_Cpu (fst (Pause p a d vm)) = v_Cpu vm" "v_Mem (fst (Pause p a d vm)) = v_Mem vm"
  by (auto simp: Pause_def Let_def split: option.split)

lemma GetBaseVm_size:
  "GetBaseVm get agent driver closed b = Inr vm \<Longrightarrow> v_Cpu vm = bc_CPU (base_Config b) \<and> v_Mem vm = bc_Memory (base_Config b)"
proof (induction b)
  case (Direct b)
  then obtain vm0 where "get b True = Inr vm0" "vm = fst (Pause True agent driver vm0)"
    by (auto simp: direct_GetBaseVm_def split: sum.splits prod.splits option.splits)
  then show ?case using get_size Pause_size by auto
next
  case (FromTemplate t)
  then show ?case using get_size by (auto simp: NewVmFromTemplate_def)
qed (auto split: if_splits)

lemma single_size:
  assumes "fst (single_GetVm get (base_Config b) (GetBaseVm get agent driver closed b) pause None mems cpu mem) = Inr vm"
  shows "v_Cpu vm = cpu \<and> v_Mem vm = mem"
proof (cases "bc_CPU (base_Config b) > cpu \<or> bc_Memory (base_Config b) > mem")
  case True
  then have "get ((base_Config b)\<lparr>bc_CPU := cpu, bc_Memory := mem\<rparr>) False = Inr vm"
    using assms by (simp add: single_GetVm_def dummy_GetVm_def)
  then show ?thesis using get_size by fastforce
next
  case False
  then obtain vm0 where base: "GetBaseVm get agent driver closed b = Inr vm0"
    using assms by (auto simp: single_GetVm_def split: sum.splits)
  have sz: "v_Cpu vm0 = bc_CPU (base_Config b)" "v_Mem vm0 = bc_Memory (base_Config b)" using GetBaseVm_size [OF base] by auto
  define vm1 where "vm1 = fst (Pause False (fst pause) (snd pause) vm0)"
  have sz1: "v_Cpu vm1 \<le> cpu" "v_Mem vm1 \<le> mem" using False sz Pause_size by (simp_all add: vm1_def)
  show ?thesis
    using assms False base sz1 unfolding single_GetVm_def
    by (auto simp: vm1_def [symmetric] SetCpus_def AddMem_def Vm_OnlineCpuMem_def Let_def split: if_splits option.splits prod.splits)
qed

end

text \<open>The machines that \<^verbatim>\<open>hypervisor.GetVm\<close> boots.\<close>

definition booted :: "(string \<Rightarrow> bool) \<Rightarrow> string list \<Rightarrow> init_env \<Rightarrow> string \<Rightarrow> string option \<Rightarrow> DefaultVsockCidAllocator \<Rightarrow> vm_source" where
  "booted exists rnds env err started cids b w =
     (case GetVm exists rnds [] b w env err started cids of Some (r, _) \<Rightarrow> r | None \<Rightarrow> Inl [])"

interpretation booted_sizes: vm_sizes "booted exists rnds env err started cids"
  by unfold_locales
    (auto simp: booted_def GetVm_def launch_def split: option.splits sum.splits prod.splits if_splits)

section \<open>Properties\<close>

text \<open>
  C24: When a factory hands out a machine and the driver did not refuse to plug processors, the
  machine has exactly the number of processors and the memory that were asked for, whatever base
  factory is below and whether the machine was booted for the request or plugged up to it.
\<close>

theorem factory_size:
  assumes "fst (single_GetVm (booted exists rnds env err started cids) (base_Config b)
      (GetBaseVm (booted exists rnds env err started cids) agent driver closed b) pause None mems cpu mem) = Inr vm"
  shows "v_Cpu vm = cpu \<and> v_Mem vm = mem"
  by (rule booted_sizes.single_size [OF assms])

theorem factory_size_witness:
  "\<exists>vm. fst (single_GetVm (booted (\<lambda>_. False) [''x''] \<lparr>ie_mkdir = True, ie_driver = True, ie_vsock = True\<rparr> [] None NewDefaultVsockCidAllocator)
       (base_Config (Direct (empty_boot\<lparr>bc_CPU := 1, bc_Memory := 128\<rparr>)))
       (GetBaseVm (booted (\<lambda>_. False) [''x''] \<lparr>ie_mkdir = True, ie_driver = True, ie_vsock = True\<rparr> [] None NewDefaultVsockCidAllocator)
         None None False (Direct (empty_boot\<lparr>bc_CPU := 1, bc_Memory := 128\<rparr>)))
       (None, None) None None 2 256) = Inr vm \<and> v_Cpu vm = 2 \<and> v_Mem vm = 256"
proof -
  let ?get = "booted (\<lambda>_. False) [''x''] \<lparr>ie_mkdir = True, ie_driver = True, ie_vsock = True\<rparr> [] None NewDefaultVsockCidAllocator"
    and ?b = "Direct (empty_boot\<lparr>bc_CPU := 1, bc_Memory := 128\<rparr>)"
  have "case fst (single_GetVm ?get (base_Config ?b) (GetBaseVm ?get None None False ?b) (None, None) None None 2 256) of Inr _ \<Rightarrow> True | Inl _ \<Rightarrow> False"
    by code_simp
  then obtain vm where vm: "fst (single_GetVm ?get (base_Config ?b) (GetBaseVm ?get None None False ?b) (None, None) None None 2 256) = Inr vm"
    by (auto split: sum.splits)
  then show ?thesis using factory_size [OF vm] by blast
qed

text \<open>
  C39: When the driver refuses to plug the processors but plugs the memory, \<^verbatim>\<open>GetVm\<close> reports success
  and returns a machine with fewer processors than asked for.
\<close>

theorem cpu_error_hidden:
  assumes "bc_CPU config \<le> cpu" "bc_Memory config \<le> mem" "v_Cpu vm < cpu" "v_Mem vm < mem" "IsRunning (v_ctx vm)"
  shows "\<exists>vm'. single_GetVm get config (Inr vm) pause (Some e) None cpu mem = (Inr vm', []) \<and> v_Cpu vm' < cpu \<and> v_Mem vm' = mem"
proof -
  let ?vm0 = "fst (Pause False (fst pause) (snd pause) vm)"
  have "v_Cpu ?vm0 = v_Cpu vm" "v_Mem ?vm0 = v_Mem vm" using booted_sizes.Pause_size by simp_all
  moreover have "IsRunning (v_ctx ?vm0)"
    using assms(5) by (auto simp: Pause_def IsRunning_def log_call_def Let_def split: option.split)
  moreover have "IsRunning (log_call a ctx) = IsRunning ctx" for a ctx by (simp add: IsRunning_def log_call_def)
  ultimately show ?thesis
    using assms by (simp add: single_GetVm_def SetCpus_def AddMem_def Vm_OnlineCpuMem_def Let_def)
qed

theorem cpu_error_hidden_witness:
  "\<exists>vm'. single_GetVm (\<lambda>b w. Inl []) (empty_boot\<lparr>bc_CPU := 1, bc_Memory := 128\<rparr>)
     (booted (\<lambda>_. False) [''x''] \<lparr>ie_mkdir = True, ie_driver = True, ie_vsock = True\<rparr> [] None NewDefaultVsockCidAllocator
        (empty_boot\<lparr>bc_CPU := 1, bc_Memory := 128\<rparr>) True) (None, None) (Some ''refused'') None 4 512 = (Inr vm', []) \<and> v_Cpu vm' < 4"
proof -
  let ?r = "booted (\<lambda>_. False) [''x''] \<lparr>ie_mkdir = True, ie_driver = True, ie_vsock = True\<rparr> [] None NewDefaultVsockCidAllocator
        (empty_boot\<lparr>bc_CPU := 1, bc_Memory := 128\<rparr>) True"
  have "case ?r of Inr vm \<Rightarrow> IsRunning (v_ctx vm) | Inl _ \<Rightarrow> False" by code_simp
  then obtain vm where r: "?r = Inr vm" "IsRunning (v_ctx vm)" by (auto split: sum.splits)
  have sz: "v_Cpu vm = 1" "v_Mem vm = 128" using booted_sizes.get_size [OF r(1)] by simp_all
  then show ?thesis
    using cpu_error_hidden [of "empty_boot\<lparr>bc_CPU := 1, bc_Memory := 128\<rparr>" 4 512 vm "\<lambda>b w. Inl []" "(None, None)" "''refused''"] r by auto
qed



subsection \<open>No machine is lost\<close>

definition held_vm :: "worker \<Rightarrow> nat multiset" where
  "held_vm w = (case w of Holding vm \<Rightarrow> {#vm#} | _ \<Rightarrow> {#})"

definition live :: "worker \<Rightarrow> nat" where
  "live w = (if w = Ended then 0 else 1)"

definition cache_inv :: "cacheFactory \<Rightarrow> bool" where
  "cache_inv c \<longleftrightarrow> mset (ca_got c) = mset (ca_handed c) + mset (ca_killed c) + sum_list (map held_vm (ca_workers c)) \<and>
     length (ca_workers c) = ca_size c \<and>
     (ca_pc c = AwaitWorkers \<longrightarrow> sum_list (map live (ca_workers c)) \<le> ca_signals c) \<and>
     (ca_pc c = CacheClosed \<longrightarrow> list_all (\<lambda>w. w = Ended) (ca_workers c))"

lemma sum_list_upd: "k < length xs \<Longrightarrow> sum_list (xs[k := x]) + xs ! k = sum_list xs + (x :: 'a :: comm_monoid_add)"
proof (induction xs arbitrary: k)
  case (Cons y ys)
  show ?case
  proof (cases k)
    case (Suc j)
    then have "sum_list (ys[j := x]) + ys ! j = sum_list ys + x" using Cons by simp
    then show ?thesis using Suc by (simp add: add.assoc)
  qed (simp add: ac_simps)
qed simp

lemma workers_upd:
  assumes "w < length ws"
  shows "sum_list (map held_vm (ws[w := x])) + held_vm (ws ! w) = sum_list (map held_vm ws) + held_vm x"
    "sum_list (map live (ws[w := x])) + live (ws ! w) = sum_list (map live ws) + live x"
  using sum_list_upd [of w "map held_vm ws" "held_vm x"] sum_list_upd [of w "map live ws" "live x"] assms by (simp_all add: map_update)

lemma live_le: "sum_list (map live ws) \<le> length ws"
  by (induction ws) (simp_all add: live_def)

lemma cache_inv_step:
  assumes inv: "cache_inv c" and st: "cache_step l c = Some c'"
  shows "cache_inv c'"
proof (cases l)
  case (LowerVm w vm)
  then have w: "w < length (ca_workers c)" "ca_workers c ! w = Getting"
    and c': "c' = c\<lparr>ca_workers := (ca_workers c)[w := Holding vm], ca_got := ca_got c @ [vm]\<rparr>" using st by (auto split: if_splits)
  have "\<not> list_all (\<lambda>w. w = Ended) (ca_workers c)" using w by (auto simp: list_all_length)
  then show ?thesis using inv workers_upd [OF w(1), of "Holding vm"] w(2) by (auto simp: cache_inv_def c' held_vm_def live_def)
next
  case (LowerError w)
  then have w: "w < length (ca_workers c)" "ca_workers c ! w = Getting"
    and c': "c' = cache_close (c\<lparr>ca_workers := (ca_workers c)[w := Ended]\<rparr>)" using st by (auto split: if_splits)
  have "\<not> list_all (\<lambda>w. w = Ended) (ca_workers c)" using w by (auto simp: list_all_length)
  then show ?thesis using inv workers_upd [OF w(1), of Ended] w(2) by (auto simp: cache_inv_def c' cache_close_def held_vm_def live_def)
next
  case (TakeVm w)
  then obtain vm where w: "w < length (ca_workers c)" "ca_workers c ! w = Holding vm"
    and c': "c' = c\<lparr>ca_workers := (ca_workers c)[w := Getting], ca_handed := ca_handed c @ [vm]\<rparr>"
    using st by (auto split: if_splits worker.splits)
  have "\<not> list_all (\<lambda>w. w = Ended) (ca_workers c)" using w by (auto simp: list_all_length)
  then show ?thesis using inv workers_upd [OF w(1), of Getting] w(2) by (auto simp: cache_inv_def c' held_vm_def live_def)
next
  case (TakeSignal w)
  then obtain vm where w: "w < length (ca_workers c)" "ca_workers c ! w = Holding vm" "0 < ca_signals c"
    and c': "c' = c\<lparr>ca_workers := (ca_workers c)[w := Ended], ca_signals := ca_signals c - 1, ca_killed := ca_killed c @ [vm]\<rparr>"
    using st by (auto split: if_splits worker.splits)
  have "\<not> list_all (\<lambda>w. w = Ended) (ca_workers c)" using w by (auto simp: list_all_length)
  then show ?thesis using inv workers_upd [OF w(1), of Ended] w(2,3) by (auto simp: cache_inv_def c' held_vm_def live_def)
next
  case CloseCall
  then show ?thesis using inv st by (auto simp: cache_inv_def cache_close_def split: if_splits)
next
  case CloseStep
  then show ?thesis
    using inv st live_le [of "ca_workers c"] by (auto simp: cache_inv_def split: close_pc.splits if_splits)
qed

lemma cache_inv_init: "cache_inv (cache_init n)"
  by (induction n) (simp_all add: cache_inv_def cache_init_def held_vm_def)

lemma cache_inv_run: "cache_inv c \<Longrightarrow> cache_run ls c = Some c' \<Longrightarrow> cache_inv c'"
proof (induction ls arbitrary: c)
  case (Cons l ls)
  then show ?case using cache_inv_step [OF Cons.prems(1), of l] by (auto split: option.splits)
qed simp

text \<open>
  C19: No machine of the cache is lost: when the cache is closed every worker has ended, and every
  machine it got from the factory below was handed to a client or killed, exactly once. While
  \<^verbatim>\<open>CloseFactory\<close> waits for the workers there is a close signal for each that holds a machine.
\<close>

theorem cache_no_leak:
  assumes "cache_run ls (cache_init n) = Some c"
  shows "(ca_pc c = CacheClosed \<longrightarrow> mset (ca_got c) = mset (ca_handed c) + mset (ca_killed c) \<and> list_all (\<lambda>w. w = Ended) (ca_workers c)) \<and>
    (\<forall>w vm. ca_pc c = AwaitWorkers \<longrightarrow> w < length (ca_workers c) \<longrightarrow> ca_workers c ! w = Holding vm \<longrightarrow> cache_step (TakeSignal w) c \<noteq> None)"
proof -
  have inv: "cache_inv c" by (rule cache_inv_run [OF cache_inv_init assms])
  have "sum_list (map held_vm ws) = {#}" if "list_all (\<lambda>w. w = Ended) ws" for ws
    using that by (induction ws) (auto simp: held_vm_def)
  then have "mset (ca_got c) = mset (ca_handed c) + mset (ca_killed c) \<and> list_all (\<lambda>w. w = Ended) (ca_workers c)" if "ca_pc c = CacheClosed"
    using inv that by (simp add: cache_inv_def)
  moreover have "cache_step (TakeSignal w) c \<noteq> None"
    if "ca_pc c = AwaitWorkers" "w < length (ca_workers c)" "ca_workers c ! w = Holding vm" for w vm
  proof -
    have "live (ca_workers c ! w) \<le> sum_list (map live (ca_workers c))"
      using that(2) by (intro member_le_sum_list) auto
    then have "0 < ca_signals c" using inv that by (simp add: cache_inv_def live_def)
    then show ?thesis using that by simp
  qed
  ultimately show ?thesis by blast
qed

theorem cache_no_leak_witness:
  "\<exists>c. cache_run [LowerVm 0 7, LowerVm 1 8, TakeVm 0, LowerVm 0 9, CloseCall, CloseStep, CloseStep, CloseStep, TakeSignal 1, TakeSignal 0, CloseStep]
     (cache_init 2) = Some c \<and> ca_pc c = CacheClosed \<and> mset (ca_got c) = mset (ca_handed c) + mset (ca_killed c)"
proof -
  let ?ls = "[LowerVm 0 7, LowerVm 1 8, TakeVm 0, LowerVm 0 9, CloseCall, CloseStep, CloseStep, CloseStep, TakeSignal 1, TakeSignal 0, CloseStep]"
  have "map_option ca_pc (cache_run ?ls (cache_init 2)) = Some CacheClosed" by code_simp
  then obtain c where c: "cache_run ?ls (cache_init 2) = Some c" "ca_pc c = CacheClosed" by auto
  then show ?thesis using cache_no_leak [OF c(1)] by blast
qed

end
