(* ===== verification/Qmp.thy ===== *)
theory Qmp
  imports Lifecycle
begin

text \<open>
  The QMP connection of the QEMU driver (\<^verbatim>\<open>hypervisor/qemu/qmp_handler.go\<close>): the goroutine of
  \<^verbatim>\<open>qmpHandler\<close> takes messages from the channel \<^verbatim>\<open>qc.qmp\<close> and queues sessions, one goroutine of
  \<^verbatim>\<open>qmpCommander\<close> at a time sends the commands of the first session and waits for a reply to each,
  \<^verbatim>\<open>qmpReceiver\<close> reads the socket and \<^verbatim>\<open>qmpInitializer\<close> makes the handshake. Each goroutine is a part
  of the state, a step is what one of them does between two waits. The channel \<^verbatim>\<open>qc.qmp\<close> and the
  feedback channel hold 128 messages: a send to a full channel is \<open>Blocked\<close>, a send to a closed one
  \<open>Crashed\<close>. What the socket delivers is part of the labels; the functions \<^verbatim>\<open>respond\<close> of the
  sessions are named by what they do, and their calls are recorded.
\<close>

section \<open>Messages\<close>

datatype json = JNull | JBool bool | JNum int | JStr string | JArr "json list" | JObj "(string \<times> json) list"

record QmpCommand =
  qc_Execute :: string
  qc_Arguments :: "(string, json) gomap"
  qc_Scm :: "int option"

text \<open>
  The functions that are called with the result of a session: \<^verbatim>\<open>defaultRespond\<close> with its result channel
  and event, a send of the error to a channel, and the one of \<^verbatim>\<open>SetCpus\<close>.
\<close>

datatype qmp_respond = DefaultRespond nat "VmEvent option" | RespondError nat | RespondCpus int nat

record QmpSession =
  qs_commands :: "QmpCommand list"
  qs_respond :: qmp_respond

record QmpFinish =
  qf_success :: bool
  qf_reason :: "(string, json) gomap"
  qf_respond :: "qmp_respond option"

datatype QmpInteraction =
    QmpInit
  | QmpQuit
  | QmpTimeout
  | QmpInternalError string
  | SessionMsg QmpSession
  | FinishMsg QmpFinish
  | QmpResult "(string, json) gomap"
  | QmpError "(string, json) gomap"
  | QmpEvent string

definition QMP_EVENT_SHUTDOWN :: string where "QMP_EVENT_SHUTDOWN = ''SHUTDOWN''"

definition session_Finish :: "QmpSession \<Rightarrow> QmpFinish" where
  "session_Finish s = \<lparr>qf_success = True, qf_reason = [], qf_respond = Some (qs_respond s)\<rparr>"

definition error_Finish :: "(string, json) gomap \<Rightarrow> qmp_respond \<Rightarrow> QmpFinish" where
  "error_Finish cause r = \<lparr>qf_success = False, qf_reason = cause, qf_respond = Some r\<rparr>"

definition qmpFail :: "string \<Rightarrow> qmp_respond option \<Rightarrow> QmpFinish" where
  "qmpFail err r = \<lparr>qf_success = False, qf_reason = [(''error'', JStr err)], qf_respond = r\<rparr>"

text \<open>
  A message of QEMU, given the fields of its object: an event, a result or an error; \<open>Inl\<close> when a field has
  the wrong type, \<open>Inr None\<close> when it is none of the three, for which \<^verbatim>\<open>qmp.msg\<close> stays nil. The time
  stamp and the data of an event are not read by anyone.
\<close>

definition UnmarshalJSON :: "(string, json) gomap \<Rightarrow> string + QmpInteraction option" where
  "UnmarshalJSON tmp =
     (let err = Inl ''json: cannot unmarshal'' in
      case gget tmp ''event'' of
        Some t \<Rightarrow> (case t of JStr s \<Rightarrow> Inr (Some (QmpEvent s)) | JNull \<Rightarrow> Inr (Some (QmpEvent [])) | _ \<Rightarrow> err)
      | None \<Rightarrow>
          (case gget tmp ''return'' of
             Some r \<Rightarrow> (case r of
                 JStr s \<Rightarrow> Inr (Some (QmpResult [(''return'', JStr s)]))
               | JObj m \<Rightarrow> Inr (Some (QmpResult m))
               | JNull \<Rightarrow> Inr (Some (QmpResult []))
               | _ \<Rightarrow> err)
           | None \<Rightarrow>
               (case gget tmp ''error'' of
                  Some e \<Rightarrow> (case e of JObj m \<Rightarrow> Inr (Some (QmpError m)) | JNull \<Rightarrow> Inr (Some (QmpError [])) | _ \<Rightarrow> err)
                | None \<Rightarrow> Inr None)))"

section \<open>State\<close>

datatype qmp_handler = Initializing | MainLoop

text \<open>A commander: the commands not yet accepted, how often the first was sent, and its last error.\<close>

record commander =
  cm_session :: QmpSession
  cm_todo :: "QmpCommand list"
  cm_repeat :: nat
  cm_error :: "(string, json) gomap option"
  cm_waiting :: bool

text \<open>
  \<open>qp_sent\<close>, \<open>qp_wire\<close> and \<open>qp_answers\<close> record the sessions that were submitted, the commands written to the
  socket and the calls of the respond functions.
\<close>

record qmp =
  qp_handler :: "qmp_handler option"
  qp_chan :: "QmpInteraction list"
  qp_closed :: bool
  qp_buf :: "QmpSession list"
  qp_res :: "QmpInteraction list"
  qp_commanders :: "commander list"
  qp_initializer :: bool
  qp_timer :: bool
  qp_receiver :: bool
  qp_waitQmp :: bool
  qp_closing :: bool
  qp_cpus :: int
  qp_hub :: "VmEvent list"
  qp_sent :: "QmpSession list"
  qp_wire :: "QmpCommand list"
  qp_answers :: "(qmp_respond \<times> string option) list"

definition qmp_init :: "int \<Rightarrow> qmp" where
  "qmp_init cpus =
     \<lparr>qp_handler = Some Initializing, qp_chan = [], qp_closed = False, qp_buf = [], qp_res = [], qp_commanders = [],
      qp_initializer = True, qp_timer = True, qp_receiver = False, qp_waitQmp = False, qp_closing = False, qp_cpus = cpus,
      qp_hub = [], qp_sent = [], qp_wire = [], qp_answers = []\<rparr>"

definition chanSize :: nat where "chanSize = 128"

definition qmp_send :: "QmpInteraction \<Rightarrow> qmp \<Rightarrow> qmp outcome" where
  "qmp_send msg q =
     (if qp_closed q then Crashed
      else if length (qp_chan q) \<ge> chanSize then Blocked
      else Next (q\<lparr>qp_chan := qp_chan q @ [msg]\<rparr>))"

definition close_wait :: "qmp \<Rightarrow> qmp outcome" where
  "close_wait q = (if qp_waitQmp q then Crashed else Next (q\<lparr>qp_waitQmp := True\<rparr>))"

text \<open>A command of the sandbox enters the queue.\<close>

definition submit :: "QmpSession \<Rightarrow> qmp \<Rightarrow> qmp outcome" where
  "submit s q = qmp_send (SessionMsg s) (q\<lparr>qp_sent := qp_sent q @ [s]\<rparr>)"

section \<open>The goroutines\<close>

text \<open>\<open>None\<close> is a run-time panic.\<close>

record handshake =
  hk_connect :: "string option"
  hk_welcome :: "string option"
  hk_write :: "string option"
  hk_response :: "string + (string, json) gomap"

definition handshake_msg :: "handshake \<Rightarrow> QmpInteraction option" where
  "handshake_msg h =
     (case (hk_connect h, hk_welcome h, hk_write h) of
        (Some e, _, _) \<Rightarrow> Some (FinishMsg (qmpFail e None))
      | (None, Some e, _) \<Rightarrow> Some (FinishMsg (qmpFail e None))
      | (None, None, Some e) \<Rightarrow> Some (FinishMsg (qmpFail e None))
      | (None, None, None) \<Rightarrow>
          (case hk_response h of
             Inl e \<Rightarrow> Some (FinishMsg (qmpFail e None))
           | Inr tmp \<Rightarrow>
               (case UnmarshalJSON tmp of
                  Inl e \<Rightarrow> Some (FinishMsg (qmpFail e None))
                | Inr None \<Rightarrow> None
                | Inr (Some (QmpResult _)) \<Rightarrow> Some QmpInit
                | Inr (Some _) \<Rightarrow> Some (FinishMsg (qmpFail ''handshake failed'' None)))))"

definition qmpInitializer :: "handshake \<Rightarrow> qmp \<Rightarrow> qmp outcome" where
  "qmpInitializer h q =
     (if \<not> qp_initializer q then Blocked
      else case handshake_msg h of
        None \<Rightarrow> Crashed
      | Some msg \<Rightarrow> qmp_send msg (q\<lparr>qp_initializer := False\<rparr>))"

text \<open>A round of the receiver with the next message of the socket, or the error of reading it.\<close>

definition receiver_failed :: "string \<Rightarrow> qmp \<Rightarrow> qmp outcome" where
  "receiver_failed e q =
     (case qmp_send (QmpInternalError e) q of
        Next q' \<Rightarrow> close_wait (q'\<lparr>qp_receiver := False\<rparr>) | o' \<Rightarrow> o')"

definition qmpReceiver :: "string + (string, json) gomap \<Rightarrow> qmp \<Rightarrow> qmp outcome" where
  "qmpReceiver raw q =
     (if \<not> qp_receiver q then Blocked
      else case raw of
        Inl e \<Rightarrow> receiver_failed e q
      | Inr tmp \<Rightarrow>
          (case UnmarshalJSON tmp of
             Inl e \<Rightarrow> receiver_failed e q
           | Inr None \<Rightarrow> Crashed
           | Inr (Some msg) \<Rightarrow>
               (case qmp_send msg q of
                  Next q' \<Rightarrow> if msg = QmpEvent QMP_EVENT_SHUTDOWN then close_wait (q'\<lparr>qp_receiver := False\<rparr>) else Next q'
                | o' \<Rightarrow> o')))"

definition start_commander :: "QmpSession \<Rightarrow> qmp \<Rightarrow> qmp" where
  "start_commander s q =
     q\<lparr>qp_commanders := qp_commanders q @
        [\<lparr>cm_session = s, cm_todo = qs_commands s, cm_repeat = 0, cm_error = None, cm_waiting = False\<rparr>]\<rparr>"

definition end_commander :: "nat \<Rightarrow> qmp \<Rightarrow> qmp" where
  "end_commander i q = q\<lparr>qp_commanders := take i (qp_commanders q) @ drop (Suc i) (qp_commanders q)\<rparr>"

definition set_commander :: "nat \<Rightarrow> commander \<Rightarrow> qmp \<Rightarrow> qmp" where
  "set_commander i c q = q\<lparr>qp_commanders := (qp_commanders q)[i := c]\<rparr>"

text \<open>
  A step of a commander: it writes the first command it has left, at most three times, or takes the
  reply to it; behind the last command, or the third refusal, it reports the end of the session.
\<close>

definition qmpCommander :: "nat \<Rightarrow> qmp \<Rightarrow> qmp outcome" where
  "qmpCommander i q =
     (if i \<ge> length (qp_commanders q) then Blocked
      else (let c = qp_commanders q ! i in
        if cm_waiting c then
          (case qp_res q of
             [] \<Rightarrow> Blocked
           | msg # rest \<Rightarrow>
               (let q1 = q\<lparr>qp_res := rest\<rparr> in
                case msg of
                  QmpResult _ \<Rightarrow> Next (set_commander i (c\<lparr>cm_todo := tl (cm_todo c), cm_repeat := 0, cm_error := None, cm_waiting := False\<rparr>) q1)
                | QmpError e \<Rightarrow> Next (set_commander i (c\<lparr>cm_repeat := cm_repeat c + 1, cm_error := Some e, cm_waiting := False\<rparr>) q1)
                | QmpInternalError _ \<Rightarrow> Next (end_commander i q1)
                | _ \<Rightarrow> Next (set_commander i (c\<lparr>cm_repeat := cm_repeat c + 1, cm_waiting := False\<rparr>) q1)))
        else
          (case cm_todo c of
             [] \<Rightarrow> qmp_send (FinishMsg (session_Finish (cm_session c))) (end_commander i q)
           | cmd # _ \<Rightarrow>
               if cm_repeat c < 3
               then Next (set_commander i (c\<lparr>cm_waiting := True\<rparr>) (q\<lparr>qp_wire := qp_wire q @ [cmd]\<rparr>))
               else (case cm_error c of
                       None \<Rightarrow> Crashed
                     | Some e \<Rightarrow> qmp_send (FinishMsg (error_Finish e (qs_respond (cm_session c)))) (end_commander i q)))))"

definition respond :: "qmp_respond \<Rightarrow> string option \<Rightarrow> qmp \<Rightarrow> qmp" where
  "respond r err q =
     (let q1 = q\<lparr>qp_answers := qp_answers q @ [(r, err)]\<rparr> in
      case r of RespondCpus cpus _ \<Rightarrow> if err = None then q1\<lparr>qp_cpus := cpus\<rparr> else q1 | _ \<Rightarrow> q1)"

text \<open>The text of a failed session: \<open>None\<close> when the entry \<^verbatim>\<open>error\<close> is not a string, which panics.\<close>

definition fail_reason :: "(string, json) gomap \<Rightarrow> string option" where
  "fail_reason reason =
     (case gget reason ''error'' of None \<Rightarrow> Some ''unknown'' | Some (JStr s) \<Rightarrow> Some s | Some _ \<Rightarrow> None)"

definition finish_session :: "QmpFinish \<Rightarrow> qmp \<Rightarrow> qmp outcome" where
  "finish_session r q =
     (case (if qf_success r then Some None else map_option Some (fail_reason (qf_reason r)), qf_respond r, qp_buf q) of
        (Some err, Some f, _ # rest) \<Rightarrow>
          (let q1 = (respond f err q)\<lparr>qp_buf := rest\<rparr> in Next (case rest of [] \<Rightarrow> q1 | s # _ \<Rightarrow> start_commander s q1))
      | _ \<Rightarrow> Crashed)"

definition feed_back :: "QmpInteraction \<Rightarrow> qmp \<Rightarrow> qmp outcome" where
  "feed_back msg q = (if length (qp_res q) \<ge> chanSize then Blocked else Next (q\<lparr>qp_res := qp_res q @ [msg]\<rparr>))"

fun qmp_loop :: "QmpInteraction \<Rightarrow> qmp \<Rightarrow> qmp outcome" where
  "qmp_loop (SessionMsg s) q =
     (let q1 = q\<lparr>qp_buf := qp_buf q @ [s]\<rparr> in Next (if length (qp_buf q1) = 1 then start_commander s q1 else q1))"
| "qmp_loop (FinishMsg r) q = finish_session r q"
| "qmp_loop (QmpResult m) q = feed_back (QmpResult m) q"
| "qmp_loop (QmpError m) q = feed_back (QmpError m) q"
| "qmp_loop (QmpEvent t) q =
     Next (if t = QMP_EVENT_SHUTDOWN then q\<lparr>qp_handler := None, qp_hub := qp_hub q @ [VmExit]\<rparr> else q)"
| "qmp_loop (QmpInternalError c) q =
     (case feed_back (QmpInternalError c) q of
        Next q1 \<Rightarrow> Next (q1\<lparr>qp_handler := None, qp_hub := qp_hub q1 @ [Interrupted c]\<rparr>)
      | o' \<Rightarrow> o')"
| "qmp_loop QmpQuit q = Next (q\<lparr>qp_handler := None\<rparr>)"
| "qmp_loop _ q = Next q"

fun initializing :: "QmpInteraction \<Rightarrow> qmp \<Rightarrow> qmp outcome" where
  "initializing QmpInit q =
     (let q1 = q\<lparr>qp_timer := False, qp_handler := Some MainLoop, qp_receiver := True\<rparr>
      in Next (case qp_buf q1 of [] \<Rightarrow> q1 | s # _ \<Rightarrow> start_commander s q1))"
| "initializing (FinishMsg f) q =
     (if qf_success f then Next q
      else case gget (qf_reason f) ''error'' of
        Some (JStr e) \<Rightarrow>
          close_wait (q\<lparr>qp_timer := False, qp_hub := qp_hub q @ [InitFailedEvent e], qp_handler := None\<rparr>)
      | _ \<Rightarrow> Crashed)"
| "initializing QmpTimeout q = Next (q\<lparr>qp_hub := qp_hub q @ [InitFailedEvent ''QMP Init timeout'']\<rparr>)"
| "initializing (SessionMsg s) q = Next (q\<lparr>qp_buf := qp_buf q @ [s]\<rparr>)"
| "initializing _ q = Next q"

text \<open>A round of \<^verbatim>\<open>qmpHandler\<close>; the closed channel ends it when nothing is left in it.\<close>

definition qmpHandler :: "qmp \<Rightarrow> qmp outcome" where
  "qmpHandler q =
     (case (qp_handler q, qp_chan q) of
        (None, _) \<Rightarrow> Blocked
      | (Some h, []) \<Rightarrow> if qp_closed q then Next (q\<lparr>qp_handler := None\<rparr>) else Blocked
      | (Some Initializing, msg # rest) \<Rightarrow> initializing msg (q\<lparr>qp_chan := rest\<rparr>)
      | (Some MainLoop, msg # rest) \<Rightarrow> qmp_loop msg (q\<lparr>qp_chan := rest\<rparr>))"

section \<open>Runs\<close>

datatype qmp_label =
    QSubmit QmpSession
  | QHandshake handshake
  | QTimer
  | QReceive "string + (string, json) gomap"
  | QHandle
  | QCommand nat
  | QClose
  | QCloseWait

text \<open>\<^verbatim>\<open>Close\<close> sends the quit message, then waits for the end of the receiver and closes the channel.\<close>

fun qmp_exec :: "qmp_label \<Rightarrow> qmp \<Rightarrow> qmp outcome" where
  "qmp_exec (QSubmit s) q = submit s q"
| "qmp_exec (QHandshake h) q = qmpInitializer h q"
| "qmp_exec QTimer q = (if qp_timer q then qmp_send QmpTimeout (q\<lparr>qp_timer := False\<rparr>) else Blocked)"
| "qmp_exec (QReceive raw) q = qmpReceiver raw q"
| "qmp_exec QHandle q = qmpHandler q"
| "qmp_exec (QCommand i) q = qmpCommander i q"
| "qmp_exec QClose q = qmp_send QmpQuit (q\<lparr>qp_closing := True\<rparr>)"
| "qmp_exec QCloseWait q =
     (if \<not> qp_closing q \<or> \<not> qp_waitQmp q then Blocked else if qp_closed q then Crashed else Next (q\<lparr>qp_closed := True\<rparr>))"

fun qmp_run :: "qmp_label list \<Rightarrow> qmp \<Rightarrow> qmp outcome" where
  "qmp_run [] q = Next q"
| "qmp_run (l # ls) q = (case qmp_exec l q of Next q' \<Rightarrow> qmp_run ls q' | o' \<Rightarrow> o')"

end
