(* ===== verification/QmpProps.thy ===== *)
theory QmpProps
  imports Qmp
begin

text \<open>
  Properties of the QMP connection: sessions are carried out one at a time in the order of their
  arrival and answered once; a session on a working connection is answered; and what happens when
  QEMU refuses a command or the connection breaks.
\<close>

section \<open>Invariant\<close>

fun sess_of :: "QmpInteraction list \<Rightarrow> QmpSession list" where
  "sess_of [] = []"
| "sess_of (SessionMsg s # ms) = s # sess_of ms"
| "sess_of (_ # ms) = sess_of ms"

fun fin_of :: "QmpInteraction list \<Rightarrow> QmpFinish list" where
  "fin_of [] = []"
| "fin_of (FinishMsg f # ms) = f # fin_of ms"
| "fin_of (_ # ms) = fin_of ms"

fun inits_of :: "QmpInteraction list \<Rightarrow> nat" where
  "inits_of [] = 0"
| "inits_of (QmpInit # ms) = Suc (inits_of ms)"
| "inits_of (_ # ms) = inits_of ms"

lemma sess_of_snoc: "sess_of (ms @ [m]) = sess_of ms @ sess_of [m]"
  by (induction ms rule: sess_of.induct) simp_all

lemma fin_of_snoc: "fin_of (ms @ [m]) = fin_of ms @ fin_of [m]"
  by (induction ms rule: fin_of.induct) simp_all

lemma inits_of_snoc: "inits_of (ms @ [m]) = inits_of ms + inits_of [m]"
  by (induction ms rule: inits_of.induct) simp_all

lemmas of_snoc = sess_of_snoc fin_of_snoc inits_of_snoc

text \<open>Each command, in order, one to three times in a row.\<close>

definition attempts :: "QmpCommand list \<Rightarrow> QmpCommand list \<Rightarrow> bool" where
  "attempts cs w \<longleftrightarrow> (\<exists>ks. length ks = length cs \<and> set ks \<subseteq> {1..3} \<and> w = concat (map2 replicate ks cs))"

lemma attempts_Nil [simp]: "attempts [] []"
  by (simp add: attempts_def)

lemma attempts_snoc:
  assumes "attempts cs w" "1 \<le> k" "k \<le> 3"
  shows "attempts (cs @ [c]) (w @ replicate k c)"
proof -
  obtain ks where "length ks = length cs" "set ks \<subseteq> {1..3}" "w = concat (map2 replicate ks cs)"
    using assms(1) by (auto simp: attempts_def)
  then show ?thesis using assms(2,3) by (auto simp: attempts_def intro!: exI [of _ "ks @ [k]"])
qed

text \<open>What a commander has written for its session, and what the running session has altogether.\<close>

definition written :: "commander \<Rightarrow> QmpCommand list \<Rightarrow> bool" where
  "written c w \<longleftrightarrow> (\<exists>pre w0. qs_commands (cm_session c) = pre @ cm_todo c \<and> attempts pre w0 \<and>
     w = w0 @ replicate (cm_repeat c + (if cm_waiting c then 1 else 0)) (hd (cm_todo c)) \<and>
     cm_repeat c \<le> 3 \<and> (cm_waiting c \<longrightarrow> cm_repeat c < 3 \<and> cm_todo c \<noteq> []) \<and> (cm_todo c = [] \<longrightarrow> cm_repeat c = 0))"

definition current :: "qmp \<Rightarrow> QmpCommand list \<Rightarrow> bool" where
  "current q w \<longleftrightarrow> (case (qp_commanders q, fin_of (qp_chan q)) of
      ([], []) \<Rightarrow> qp_buf q = [] \<and> w = []
    | ([c], []) \<Rightarrow> qp_buf q \<noteq> [] \<and> cm_session c = hd (qp_buf q) \<and> written c w
    | ([], [f]) \<Rightarrow> qp_buf q \<noteq> [] \<and> qf_respond f = Some (qs_respond (hd (qp_buf q))) \<and>
        (qf_success f \<longrightarrow> attempts (qs_commands (hd (qp_buf q))) w)
    | _ \<Rightarrow> False)"

definition is_reply :: "QmpInteraction \<Rightarrow> bool" where
  "is_reply m \<longleftrightarrow> (case m of QmpResult _ \<Rightarrow> True | QmpError _ \<Rightarrow> True | _ \<Rightarrow> False)"

text \<open>The queue of sessions, and the part of the socket's output that belongs to each answered session.\<close>

definition queue_ok :: "qmp \<Rightarrow> bool" where
  "queue_ok q \<longleftrightarrow> map qs_respond (take (length (qp_answers q)) (qp_sent q)) = map fst (qp_answers q) \<and>
     drop (length (qp_answers q)) (qp_sent q) = qp_buf q @ sess_of (qp_chan q)"

definition wire_ok :: "qmp \<Rightarrow> QmpCommand list list \<Rightarrow> QmpCommand list \<Rightarrow> bool" where
  "wire_ok q ws w \<longleftrightarrow> qp_wire q = concat ws @ w \<and> length ws = length (qp_answers q) \<and>
     (\<forall>i < length ws. snd (qp_answers q ! i) = None \<longrightarrow> attempts (qs_commands (qp_sent q ! i)) (ws ! i))"

definition phase_ok :: "qmp \<Rightarrow> QmpCommand list \<Rightarrow> bool" where
  "phase_ok q w \<longleftrightarrow> (case qp_handler q of
      Some Initializing \<Rightarrow> qp_commanders q = [] \<and> qp_res q = [] \<and> w = [] \<and>
        (if qp_initializer q then 1 else 0) + inits_of (qp_chan q) + length (fin_of (qp_chan q)) \<le> 1
    | Some MainLoop \<Rightarrow> \<not> qp_initializer q \<and> inits_of (qp_chan q) = 0 \<and> list_all is_reply (qp_res q) \<and> current q w
    | None \<Rightarrow> length (qp_commanders q) \<le> 1)"

definition qmp_inv :: "qmp \<Rightarrow> bool" where
  "qmp_inv q \<longleftrightarrow> queue_ok q \<and> (\<exists>ws w. wire_ok q ws w \<and> phase_ok q w)"

lemma queue_length: "queue_ok q \<Longrightarrow> length (qp_answers q) \<le> length (qp_sent q)"
  unfolding queue_ok_def by (metis length_map length_take min.cobounded1)

lemma qmp_inv_init: "qmp_inv (qmp_init cpus)"
  by (simp add: qmp_inv_def qmp_init_def queue_ok_def wire_ok_def phase_ok_def)

lemma current_cong:
  "qp_commanders q' = qp_commanders q \<Longrightarrow> fin_of (qp_chan q') = fin_of (qp_chan q) \<Longrightarrow> qp_buf q' = qp_buf q \<Longrightarrow> current q' w = current q w"
  by (simp only: current_def)

text \<open>Fields the invariant does not depend on, and messages that it does not look at.\<close>

lemma qmp_inv_cong:
  assumes "qmp_inv q" "qp_handler q' = qp_handler q" "sess_of (qp_chan q') = sess_of (qp_chan q)" "fin_of (qp_chan q') = fin_of (qp_chan q)"
    "inits_of (qp_chan q') = inits_of (qp_chan q)" "qp_buf q' = qp_buf q" "qp_res q' = qp_res q"
    "qp_commanders q' = qp_commanders q" "qp_initializer q' = qp_initializer q" "qp_sent q' = qp_sent q" "qp_wire q' = qp_wire q"
    "qp_answers q' = qp_answers q"
  shows "qmp_inv q'"
  using assms by (simp only: qmp_inv_def queue_ok_def wire_ok_def phase_ok_def current_def)

lemma qmp_inv_send:
  assumes "qmp_inv q" "qmp_send m q = Next q'" "sess_of [m] = []" "fin_of [m] = []" "inits_of [m] = 0"
  shows "qmp_inv q'"
proof -
  have q': "q' = q\<lparr>qp_chan := qp_chan q @ [m]\<rparr>" using assms(2) by (auto simp: qmp_send_def split: if_splits)
  show ?thesis by (rule qmp_inv_cong [OF assms(1)]) (simp_all add: q' of_snoc assms)
qed

lemma close_wait_inv: "qmp_inv q \<Longrightarrow> close_wait q = Next q' \<Longrightarrow> qmp_inv q'"
  by (auto simp: close_wait_def split: if_splits intro: qmp_inv_cong)

lemma submit_inv:
  assumes inv: "qmp_inv q" and st: "submit s q = Next q'"
  shows "qmp_inv q'"
proof -
  have q': "q' = q\<lparr>qp_sent := qp_sent q @ [s], qp_chan := qp_chan q @ [SessionMsg s]\<rparr>"
    using st by (auto simp: submit_def qmp_send_def split: if_splits)
  have le: "length (qp_answers q) \<le> length (qp_sent q)" using inv queue_length by (auto simp: qmp_inv_def)
  have "queue_ok q'" using inv le by (auto simp: qmp_inv_def queue_ok_def q' of_snoc)
  moreover obtain ws w where w: "wire_ok q ws w" "phase_ok q w" using inv by (auto simp: qmp_inv_def)
  have "wire_ok q' ws w" using w(1) le by (auto simp: wire_ok_def q' nth_append)
  moreover have "phase_ok q' w"
    using w(2) current_cong [of q' q w] by (auto simp: phase_ok_def q' of_snoc split: option.splits qmp_handler.splits)
  ultimately show ?thesis by (auto simp: qmp_inv_def)
qed

lemma handshake_msg_of:
  "handshake_msg h = Some m \<Longrightarrow> sess_of [m] = [] \<and> inits_of [m] + length (fin_of [m]) = 1"
  by (auto simp: handshake_msg_def split: option.splits sum.splits QmpInteraction.splits)

lemma initializer_inv:
  assumes inv: "qmp_inv q" and st: "qmpInitializer h q = Next q'"
  shows "qmp_inv q'"
proof -
  obtain m where m: "handshake_msg h = Some m" "qp_initializer q"
    and q': "q' = q\<lparr>qp_initializer := False, qp_chan := qp_chan q @ [m]\<rparr>"
    using st by (auto simp: qmpInitializer_def qmp_send_def split: if_splits option.splits)
  obtain ws w where w: "queue_ok q" "wire_ok q ws w" "phase_ok q w" using inv by (auto simp: qmp_inv_def)
  have "queue_ok q'" "wire_ok q' ws w" using w(1,2) handshake_msg_of [OF m(1)] by (auto simp: queue_ok_def wire_ok_def q' of_snoc)
  moreover have "phase_ok q' w"
    using w(3) m(2) handshake_msg_of [OF m(1)] by (auto simp: phase_ok_def q' of_snoc split: option.splits qmp_handler.splits)
  ultimately show ?thesis by (auto simp: qmp_inv_def)
qed

lemma UnmarshalJSON_of:
  "UnmarshalJSON tmp = Inr (Some m) \<Longrightarrow> sess_of [m] = [] \<and> fin_of [m] = [] \<and> inits_of [m] = 0"
  by (auto simp: UnmarshalJSON_def Let_def split: option.splits json.splits)

lemma receiver_failed_inv: "qmp_inv q \<Longrightarrow> receiver_failed e q = Next q' \<Longrightarrow> qmp_inv q'"
  unfolding receiver_failed_def
  by (auto split: outcome.splits elim!: close_wait_inv [rotated] intro: qmp_inv_cong [OF qmp_inv_send])

lemma receiver_inv:
  assumes inv: "qmp_inv q" and st: "qmpReceiver raw q = Next q'"
  shows "qmp_inv q'"
proof (cases "\<exists>e. receiver_failed e q = Next q'")
  case True
  then show ?thesis using receiver_failed_inv [OF inv] by blast
next
  case False
  then obtain tmp m q1 where m: "UnmarshalJSON tmp = Inr (Some m)" "qmp_send m q = Next q1"
    "(if m = QmpEvent QMP_EVENT_SHUTDOWN then close_wait (q1\<lparr>qp_receiver := False\<rparr>) else Next q1) = Next q'"
    using st by (auto simp: qmpReceiver_def split: if_splits sum.splits option.splits outcome.splits)
  have "qmp_inv q1" using qmp_inv_send [OF inv m(2)] UnmarshalJSON_of [OF m(1)] by simp
  then have "qmp_inv (q1\<lparr>qp_receiver := False\<rparr>)" "qmp_inv q1" by (auto intro: qmp_inv_cong)
  then show ?thesis using m(3) close_wait_inv by (auto split: if_splits)
qed

lemma currentD:
  assumes "current q w"
  shows "qp_commanders q = [] \<and> fin_of (qp_chan q) = [] \<and> qp_buf q = [] \<and> w = [] \<or>
    (\<exists>c. qp_commanders q = [c] \<and> fin_of (qp_chan q) = [] \<and> qp_buf q \<noteq> [] \<and> cm_session c = hd (qp_buf q) \<and> written c w) \<or>
    (\<exists>f. qp_commanders q = [] \<and> fin_of (qp_chan q) = [f] \<and> qp_buf q \<noteq> [] \<and> qf_respond f = Some (qs_respond (hd (qp_buf q))) \<and>
       (qf_success f \<longrightarrow> attempts (qs_commands (hd (qp_buf q))) w))"
  using assms by (auto simp: current_def split: list.splits)

lemma written_start: "written \<lparr>cm_session = s, cm_todo = qs_commands s, cm_repeat = 0, cm_error = None, cm_waiting = False\<rparr> []"
  by (auto simp: written_def intro!: exI [of _ "[]"])

lemma written_send:
  assumes "written c w" "\<not> cm_waiting c" "cm_todo c = cmd # cs" "cm_repeat c < 3"
  shows "written (c\<lparr>cm_waiting := True\<rparr>) (w @ [cmd])"
proof -
  obtain pre w0 where "qs_commands (cm_session c) = pre @ cm_todo c" "attempts pre w0" "w = w0 @ replicate (cm_repeat c) cmd"
    using assms by (auto simp: written_def)
  then show ?thesis
    using assms(3,4) by (auto simp: written_def replicate_append_same [symmetric] intro!: exI [of _ pre] exI [of _ w0])
qed

lemma written_accept:
  assumes "written c w" "cm_waiting c"
  shows "written (c\<lparr>cm_todo := tl (cm_todo c), cm_repeat := 0, cm_error := None, cm_waiting := False\<rparr>) w"
proof -
  obtain pre w0 cmd cs where *: "qs_commands (cm_session c) = pre @ cm_todo c" "attempts pre w0" "cm_todo c = cmd # cs"
    "w = w0 @ replicate (Suc (cm_repeat c)) cmd" "cm_repeat c < 3"
    using assms by (cases "cm_todo c") (auto simp: written_def)
  then have "attempts (pre @ [cmd]) w" using attempts_snoc [OF *(2), of "Suc (cm_repeat c)" cmd] by simp
  then show ?thesis using * by (auto simp: written_def intro!: exI [of _ "pre @ [cmd]"] exI [of _ w])
qed

lemma written_retry:
  assumes "written c w" "cm_waiting c"
  shows "written (c\<lparr>cm_repeat := cm_repeat c + 1, cm_error := e, cm_waiting := False\<rparr>) w"
  using assms by (auto simp: written_def)

lemma written_done:
  assumes "written c w" "\<not> cm_waiting c" "cm_todo c = []"
  shows "attempts (qs_commands (cm_session c)) w"
  using assms by (auto simp: written_def)

text \<open>A step of the commander that runs, with what it adds to the socket.\<close>

lemma commander_main:
  assumes inv: "qmp_inv q" and main: "qp_handler q = Some MainLoop" and st: "qmpCommander i q = Next q'"
  shows "qmp_inv q'"
proof -
  obtain ws w where w: "queue_ok q" "wire_ok q ws w" "phase_ok q w" using inv by (auto simp: qmp_inv_def)
  have ph: "\<not> qp_initializer q" "inits_of (qp_chan q) = 0" "list_all is_reply (qp_res q)" "current q w"
    using w(3) main by (simp_all add: phase_ok_def)
  have "i < length (qp_commanders q)" using st by (auto simp: qmpCommander_def split: if_splits)
  then obtain c where c: "qp_commanders q = [c]" "i = 0" "fin_of (qp_chan q) = []" "qp_buf q \<noteq> []" "cm_session c = hd (qp_buf q)" "written c w"
    using currentD [OF ph(4)] by auto
  have new: "qmp_inv q1" if "qp_handler q1 = Some MainLoop" "qp_chan q1 = qp_chan q" "qp_buf q1 = qp_buf q" "list_all is_reply (qp_res q1)"
    "qp_commanders q1 = [c1]" "cm_session c1 = cm_session c" "\<not> qp_initializer q1" "qp_sent q1 = qp_sent q" "qp_answers q1 = qp_answers q"
    "qp_wire q1 = qp_wire q @ w'" "written c1 (w @ w')" for q1 c1 w'
  proof -
    have "queue_ok q1" "wire_ok q1 ws (w @ w')" using w(1,2) that by (simp_all add: queue_ok_def wire_ok_def)
    moreover have "phase_ok q1 (w @ w')" using that ph c by (simp add: phase_ok_def current_def)
    ultimately show ?thesis by (auto simp: qmp_inv_def)
  qed
  have fin: "qmp_inv q1" if "qmp_send (FinishMsg f) (end_commander i q) = Next q1" "qf_respond f = Some (qs_respond (cm_session c))"
    "qf_success f \<Longrightarrow> attempts (qs_commands (cm_session c)) w" for f q1
  proof -
    have q1: "q1 = (end_commander i q)\<lparr>qp_chan := qp_chan q @ [FinishMsg f]\<rparr>"
      using that(1) by (auto simp: qmp_send_def end_commander_def split: if_splits)
    have "queue_ok q1" "wire_ok q1 ws w" using w(1,2) by (simp_all add: queue_ok_def wire_ok_def q1 end_commander_def of_snoc)
    moreover have "phase_ok q1 w" using that(2,3) ph c main by (simp add: phase_ok_def current_def q1 end_commander_def of_snoc)
    ultimately show ?thesis by (auto simp: qmp_inv_def)
  qed
  show ?thesis
  proof (cases "cm_waiting c")
    case True
    then obtain m rest where m: "qp_res q = m # rest" using st c by (auto simp: qmpCommander_def split: list.splits)
    then have "is_reply m" "list_all is_reply rest" using ph(3) by auto
    then show ?thesis
      using st c True m main ph(1) written_accept [OF c(6) True] written_retry [OF c(6) True]
      by (cases m) (auto simp: qmpCommander_def set_commander_def is_reply_def intro!: new [where w' = "[]"])
  next
    case False
    show ?thesis
    proof (cases "cm_todo c")
      case Nil
      then have "qmp_send (FinishMsg (session_Finish (cm_session c))) (end_commander i q) = Next q'"
        using st c False by (simp add: qmpCommander_def)
      then show ?thesis using written_done [OF c(6) False Nil] by (auto simp: session_Finish_def intro: fin)
    next
      case (Cons cmd cs)
      show ?thesis
      proof (cases "cm_repeat c < 3")
        case True
        then show ?thesis
          using st c main ph(1,3) Cons False written_send [OF c(6) False Cons True]
          by (auto simp: qmpCommander_def set_commander_def intro!: new [where w' = "[cmd]"])
      next
        case rep: False
        then obtain e where "qmp_send (FinishMsg (error_Finish e (qs_respond (cm_session c)))) (end_commander i q) = Next q'"
          using st c False Cons by (auto simp: qmpCommander_def split: option.splits)
        then show ?thesis by (rule fin) (simp_all add: error_Finish_def)
      qed
    qed
  qed
qed

text \<open>When the handler has ended, only the socket is still written.\<close>

lemma inv_ended:
  assumes "qmp_inv q" "qp_handler q' = None" "length (qp_commanders q') \<le> 1" "qp_buf q' = qp_buf q"
    "sess_of (qp_chan q') = sess_of (qp_chan q)" "qp_sent q' = qp_sent q" "qp_answers q' = qp_answers q" "qp_wire q' = qp_wire q @ w'"
  shows "qmp_inv q'"
proof -
  obtain ws w where "queue_ok q" "wire_ok q ws w" using assms(1) by (auto simp: qmp_inv_def)
  then have "queue_ok q'" "wire_ok q' ws (w @ w')" "phase_ok q' (w @ w')"
    using assms by (auto simp: queue_ok_def wire_ok_def phase_ok_def)
  then show ?thesis by (auto simp: qmp_inv_def)
qed

lemma commanders_le:
  assumes "qmp_inv q"
  shows "length (qp_commanders q) \<le> 1"
proof -
  obtain w where "phase_ok q w" using assms by (auto simp: qmp_inv_def)
  then show ?thesis using currentD by (fastforce simp: phase_ok_def split: option.splits qmp_handler.splits)
qed

lemma commander_frame:
  assumes "qmpCommander i q = Next q'" "length (qp_commanders q) \<le> 1"
  shows "qp_handler q' = qp_handler q \<and> length (qp_commanders q') \<le> 1 \<and> qp_buf q' = qp_buf q \<and> sess_of (qp_chan q') = sess_of (qp_chan q) \<and>
    qp_sent q' = qp_sent q \<and> qp_answers q' = qp_answers q \<and> (\<exists>w'. qp_wire q' = qp_wire q @ w')"
  using assms
  by (auto simp: qmpCommander_def set_commander_def end_commander_def qmp_send_def of_snoc Let_def
      split: if_splits list.splits QmpInteraction.splits option.splits)

lemma commander_inv:
  assumes inv: "qmp_inv q" and st: "qmpCommander i q = Next q'"
  shows "qmp_inv q'"
proof -
  consider "qp_handler q = None" | "qp_handler q = Some MainLoop" | "qp_handler q = Some Initializing"
    by (cases "qp_handler q"; cases "the (qp_handler q)") auto
  then show ?thesis
  proof cases
    case 1
    then show ?thesis using commander_frame [OF st commanders_le [OF inv]] inv_ended [OF inv] by metis
  next
    case 2
    then show ?thesis by (rule commander_main [OF inv _ st])
  next
    case 3
    then have "qp_commanders q = []" using inv by (auto simp: qmp_inv_def phase_ok_def)
    then show ?thesis using st by (simp add: qmpCommander_def)
  qed
qed

lemma initializing_inv:
  assumes inv: "qmp_inv q" and h: "qp_handler q = Some Initializing" "qp_chan q = m # rest"
    and st: "initializing m (q\<lparr>qp_chan := rest\<rparr>) = Next q'"
  shows "qmp_inv q'"
proof -
  obtain ws w where w: "queue_ok q" "wire_ok q ws w" "phase_ok q w" using inv by (auto simp: qmp_inv_def)
  have ph: "qp_commanders q = []" "qp_res q = []" "w = []"
    "(if qp_initializer q then 1 else 0) + inits_of (m # rest) + length (fin_of (m # rest)) \<le> 1"
    using w(3) h by (simp_all add: phase_ok_def)
  show ?thesis
  proof (cases m)
    case QmpInit
    have q': "q' = (let q1 = q\<lparr>qp_chan := rest, qp_timer := False, qp_handler := Some MainLoop, qp_receiver := True\<rparr>
        in case qp_buf q of [] \<Rightarrow> q1 | s # _ \<Rightarrow> start_commander s q1)"
      using st QmpInit by (simp add: Let_def)
    have "queue_ok q'" "wire_ok q' ws []" using w(1,2) ph(3) QmpInit h(2)
      by (auto simp: queue_ok_def wire_ok_def q' Let_def start_commander_def split: list.splits)
    moreover have "phase_ok q' []" using ph QmpInit written_start
      by (auto simp: phase_ok_def current_def q' Let_def start_commander_def split: list.splits if_splits)
    ultimately show ?thesis by (auto simp: qmp_inv_def)
  next
    case (FinishMsg f)
    show ?thesis
    proof (cases "qf_success f")
      case True
      have q': "q' = q\<lparr>qp_chan := rest\<rparr>" using True st FinishMsg by simp
      have "queue_ok q'" "wire_ok q' ws w" "phase_ok q' w"
        using w ph h FinishMsg by (auto simp: queue_ok_def wire_ok_def phase_ok_def q' split: if_splits)
      then show ?thesis by (auto simp: qmp_inv_def)
    next
      case False
      then obtain e where "close_wait (q\<lparr>qp_chan := rest, qp_timer := False, qp_hub := qp_hub q @ [InitFailedEvent e], qp_handler := None\<rparr>) = Next q'"
        using st FinishMsg by (auto split: option.splits json.splits)
      moreover have "qmp_inv (q\<lparr>qp_chan := rest, qp_timer := False, qp_hub := qp_hub q @ [InitFailedEvent e], qp_handler := None\<rparr>)"
        using ph(1) h(2) FinishMsg by (intro inv_ended [OF inv, where w' = "[]"]) simp_all
      ultimately show ?thesis using close_wait_inv by blast
    qed
  next
    case (SessionMsg s)
    have q': "q' = q\<lparr>qp_chan := rest, qp_buf := qp_buf q @ [s]\<rparr>" using st SessionMsg by simp
    have "queue_ok q'" "wire_ok q' ws w" "phase_ok q' w"
      using w ph h SessionMsg by (auto simp: queue_ok_def wire_ok_def phase_ok_def q')
    then show ?thesis by (auto simp: qmp_inv_def)
  qed (use st h in \<open>auto intro!: qmp_inv_cong [OF inv]\<close>)
qed

lemma finish_inv:
  assumes inv: "qmp_inv q" and h: "qp_handler q = Some MainLoop" "qp_chan q = FinishMsg f # rest"
    and st: "finish_session f (q\<lparr>qp_chan := rest\<rparr>) = Next q'"
  shows "qmp_inv q'"
proof -
  obtain ws w where w: "queue_ok q" "wire_ok q ws w" "phase_ok q w" using inv by (auto simp: qmp_inv_def)
  have ph: "\<not> qp_initializer q" "inits_of rest = 0" "list_all is_reply (qp_res q)" "current q w"
    using w(3) h by (simp_all add: phase_ok_def)
  obtain b bs where b: "qp_buf q = b # bs" "qp_commanders q = []" "fin_of rest = []" "qf_respond f = Some (qs_respond b)"
    "qf_success f \<longrightarrow> attempts (qs_commands b) w"
    using currentD [OF ph(4)] h(2) by (auto simp: neq_Nil_conv)
  obtain err where err: "err = None \<longrightarrow> qf_success f"
    and q': "q' = (let q1 = (respond (qs_respond b) err (q\<lparr>qp_chan := rest\<rparr>))\<lparr>qp_buf := bs\<rparr> in case bs of [] \<Rightarrow> q1 | s # _ \<Rightarrow> start_commander s q1)"
    using st b by (auto simp: finish_session_def Let_def split: if_splits option.splits)
  have f: "qp_answers q' = qp_answers q @ [(qs_respond b, err)]" "qp_chan q' = rest" "qp_sent q' = qp_sent q" "qp_wire q' = qp_wire q" "qp_buf q' = bs"
    "qp_handler q' = Some MainLoop" "qp_res q' = qp_res q" "qp_initializer q' = qp_initializer q"
    "qp_commanders q' = (case bs of [] \<Rightarrow> [] | s # _ \<Rightarrow> [\<lparr>cm_session = s, cm_todo = qs_commands s, cm_repeat = 0, cm_error = None, cm_waiting = False\<rparr>])"
    using h b by (auto simp: q' Let_def respond_def start_commander_def split: qmp_respond.splits list.splits)
  let ?n = "length (qp_answers q)"
  have d: "drop ?n (qp_sent q) = b # bs @ sess_of rest" using w(1) b h by (simp add: queue_ok_def)
  then have n: "?n < length (qp_sent q)" "qp_sent q ! ?n = b" by (metis drop_eq_Nil2 leI list.distinct(1), metis nth_via_drop)
  have "take (Suc ?n) (qp_sent q) = take ?n (qp_sent q) @ [b]" using n take_Suc_conv_app_nth by metis
  moreover have "drop (Suc ?n) (qp_sent q) = bs @ sess_of rest" using d by (metis drop_Suc list.sel(3) tl_drop)
  ultimately have "queue_ok q'" using w(1) by (simp add: queue_ok_def f)
  moreover have "wire_ok q' (ws @ [w]) []"
    using w(2) b(5) err n by (auto simp: wire_ok_def f nth_append less_Suc_eq)
  moreover have "phase_ok q' []" using ph b written_start by (auto simp: phase_ok_def current_def f split: list.splits)
  ultimately show ?thesis by (auto simp: qmp_inv_def)
qed

lemma session_inv:
  assumes inv: "qmp_inv q" and h: "qp_handler q = Some MainLoop" "qp_chan q = SessionMsg s # rest"
    and st: "qmp_loop (SessionMsg s) (q\<lparr>qp_chan := rest\<rparr>) = Next q'"
  shows "qmp_inv q'"
proof -
  obtain ws w where w: "queue_ok q" "wire_ok q ws w" "phase_ok q w" using inv by (auto simp: qmp_inv_def)
  have ph: "\<not> qp_initializer q" "inits_of rest = 0" "list_all is_reply (qp_res q)" "current q w"
    using w(3) h by (simp_all add: phase_ok_def)
  have q': "q' = (let q1 = q\<lparr>qp_chan := rest, qp_buf := qp_buf q @ [s]\<rparr> in if qp_buf q = [] then start_commander s q1 else q1)"
    using st by (auto simp: Let_def)
  have "queue_ok q'" "wire_ok q' ws w" using w(1,2) h by (auto simp: queue_ok_def wire_ok_def q' Let_def start_commander_def)
  moreover have "current q' w"
    using currentD [OF ph(4)] h written_start by (auto simp: current_def q' Let_def start_commander_def)
  then have "phase_ok q' w" using ph h by (auto simp: phase_ok_def q' Let_def start_commander_def)
  ultimately show ?thesis by (auto simp: qmp_inv_def)
qed

lemma loop_inv:
  assumes inv: "qmp_inv q" and h: "qp_handler q = Some MainLoop" "qp_chan q = m # rest" and st: "qmp_loop m (q\<lparr>qp_chan := rest\<rparr>) = Next q'"
  shows "qmp_inv q'"
proof -
  note le = commanders_le [OF inv]
  have reply: "qmp_inv q'" if "is_reply m" "feed_back m (q\<lparr>qp_chan := rest\<rparr>) = Next q'"
  proof -
    have q': "q' = q\<lparr>qp_chan := rest, qp_res := qp_res q @ [m]\<rparr>" using that(2) by (auto simp: feed_back_def split: if_splits)
    obtain ws w where w: "queue_ok q" "wire_ok q ws w" "phase_ok q w" using inv by (auto simp: qmp_inv_def)
    have m: "sess_of (m # rest) = sess_of rest" "fin_of (m # rest) = fin_of rest" "inits_of (m # rest) = inits_of rest"
      using that(1) by (auto simp: is_reply_def split: QmpInteraction.splits)
    have "queue_ok q'" "wire_ok q' ws w" using w(1,2) h m by (simp_all add: queue_ok_def wire_ok_def q')
    moreover have "phase_ok q' w" using w(3) h m that(1) current_cong [of q' q w] by (simp add: phase_ok_def q')
    ultimately show ?thesis by (auto simp: qmp_inv_def)
  qed
  show ?thesis
  proof (cases m)
    case (SessionMsg s)
    then show ?thesis using session_inv [OF inv h(1)] h(2) st by simp
  next
    case (FinishMsg f)
    then show ?thesis using finish_inv [OF inv h(1)] h(2) st by simp
  next
    case (QmpInternalError c)
    then show ?thesis
      using st h(2) le by (auto simp: feed_back_def split: if_splits intro!: inv_ended [OF inv, where w' = "[]"])
  next
    case QmpQuit
    then show ?thesis using st h(2) le by (auto intro!: inv_ended [OF inv, where w' = "[]"])
  next
    case (QmpEvent t)
    show ?thesis
    proof (cases "t = QMP_EVENT_SHUTDOWN")
      case True
      then show ?thesis using st h le QmpEvent by (auto intro!: inv_ended [OF inv, where w' = "[]"])
    next
      case False
      then show ?thesis using st h QmpEvent by (auto intro!: qmp_inv_cong [OF inv])
    qed
  next
    case QmpInit
    then have "inits_of (qp_chan q) = 0" using inv h by (auto simp: qmp_inv_def phase_ok_def)
    then show ?thesis using QmpInit h(2) by simp
  next
    case (QmpResult r)
    then show ?thesis using st reply by (simp add: is_reply_def)
  next
    case (QmpError r)
    then show ?thesis using st reply by (simp add: is_reply_def)
  qed (use st h in \<open>auto intro!: qmp_inv_cong [OF inv]\<close>)
qed

lemma handler_inv:
  assumes inv: "qmp_inv q" and st: "qmpHandler q = Next q'"
  shows "qmp_inv q'"
proof (cases "qp_chan q")
  case Nil
  then have "q' = q\<lparr>qp_handler := None\<rparr>" using st by (auto simp: qmpHandler_def split: option.splits if_splits qmp_handler.splits)
  then show ?thesis using commanders_le [OF inv] by (intro inv_ended [OF inv, where w' = "[]"]) simp_all
next
  case (Cons m rest)
  then show ?thesis
    using st initializing_inv [OF inv _ Cons] loop_inv [OF inv _ Cons] by (auto simp: qmpHandler_def split: option.splits qmp_handler.splits)
qed

lemma exec_inv:
  assumes inv: "qmp_inv q" and st: "qmp_exec l q = Next q'"
  shows "qmp_inv q'"
proof -
  have keep: "qmp_inv (q\<lparr>qp_timer := False\<rparr>)" "qmp_inv (q\<lparr>qp_closing := True\<rparr>)" "qmp_inv (q\<lparr>qp_closed := True\<rparr>)"
    using inv by (auto intro: qmp_inv_cong)
  show ?thesis
    using st submit_inv [OF inv] initializer_inv [OF inv] receiver_inv [OF inv] handler_inv [OF inv] commander_inv [OF inv]
      qmp_inv_send [OF keep(1)] qmp_inv_send [OF keep(2)] keep(3)
    by (cases l) (auto split: if_splits)
qed

lemma run_inv: "qmp_inv q \<Longrightarrow> qmp_run ls q = Next q' \<Longrightarrow> qmp_inv q'"
proof (induction ls arbitrary: q)
  case (Cons l ls)
  then show ?case using exec_inv by (auto split: outcome.splits)
qed simp

section \<open>A working connection\<close>

definition idle :: "qmp \<Rightarrow> bool" where
  "idle q \<longleftrightarrow> qp_handler q = Some MainLoop \<and> qp_chan q = [] \<and> \<not> qp_closed q \<and> qp_buf q = [] \<and> qp_res q = [] \<and> qp_commanders q = [] \<and> qp_receiver q"

text \<open>The steps for a command that QEMU replies to with \<open>reply\<close>, and for a session of accepted commands.\<close>

definition command_labels :: "(string, json) gomap \<Rightarrow> qmp_label list" where
  "command_labels reply = [QCommand 0, QReceive (Inr reply), QHandle, QCommand 0]"

definition session_labels :: "(string, json) gomap \<Rightarrow> QmpSession \<Rightarrow> qmp_label list" where
  "session_labels ok s = [QSubmit s, QHandle] @ concat (map (\<lambda>_. command_labels ok) (qs_commands s)) @ [QCommand 0, QHandle]"

lemma qmp_run_append: "qmp_run (xs @ ys) q = (case qmp_run xs q of Next q' \<Rightarrow> qmp_run ys q' | o' \<Rightarrow> o')"
  by (induction xs arbitrary: q) (auto split: outcome.splits)

text \<open>The state in which the only commander is about to write its next command.\<close>

definition ready :: "commander \<Rightarrow> qmp \<Rightarrow> bool" where
  "ready c q \<longleftrightarrow> qp_handler q = Some MainLoop \<and> qp_chan q = [] \<and> \<not> qp_closed q \<and> qp_buf q = [cm_session c] \<and> qp_res q = [] \<and>
     qp_commanders q = [c] \<and> qp_receiver q \<and> \<not> cm_waiting c"

lemma submit_idle:
  assumes "idle q"
  shows "\<exists>q'. qmp_run [QSubmit s, QHandle] q = Next q' \<and>
    ready \<lparr>cm_session = s, cm_todo = qs_commands s, cm_repeat = 0, cm_error = None, cm_waiting = False\<rparr> q' \<and>
    qp_wire q' = qp_wire q \<and> qp_answers q' = qp_answers q \<and> qp_cpus q' = qp_cpus q"
  using assms
  by (simp add: idle_def ready_def submit_def qmp_send_def chanSize_def qmpHandler_def start_commander_def)

lemma command_ok:
  assumes "ready c q" "cm_todo c = cmd # cs" "cm_repeat c < 3" "UnmarshalJSON ok = Inr (Some (QmpResult r))"
  shows "\<exists>q'. qmp_run (command_labels ok) q = Next q' \<and> ready (c\<lparr>cm_todo := cs, cm_repeat := 0, cm_error := None\<rparr>) q' \<and>
    qp_wire q' = qp_wire q @ [cmd] \<and> qp_answers q' = qp_answers q \<and> qp_cpus q' = qp_cpus q"
  using assms
  by (simp add: ready_def command_labels_def qmp_send_def chanSize_def qmpHandler_def qmpCommander_def qmpReceiver_def set_commander_def feed_back_def)

lemma command_refused:
  assumes "ready c q" "cm_todo c = cmd # cs" "cm_repeat c < 3" "UnmarshalJSON no = Inr (Some (QmpError e))"
  shows "\<exists>q'. qmp_run (command_labels no) q = Next q' \<and> ready (c\<lparr>cm_repeat := cm_repeat c + 1, cm_error := Some e\<rparr>) q' \<and>
    qp_wire q' = qp_wire q @ [cmd] \<and> qp_answers q' = qp_answers q"
  using assms
  by (simp add: ready_def command_labels_def qmp_send_def chanSize_def qmpHandler_def qmpCommander_def qmpReceiver_def set_commander_def feed_back_def)

text \<open>The processor count behind a session that succeeded.\<close>

definition cpus_after :: "qmp_respond \<Rightarrow> int \<Rightarrow> int" where
  "cpus_after r n = (case r of RespondCpus m _ \<Rightarrow> m | _ \<Rightarrow> n)"

lemma finish_ok:
  assumes "ready c q" "cm_todo c = []"
  shows "\<exists>q'. qmp_run [QCommand 0, QHandle] q = Next q' \<and> idle q' \<and> qp_wire q' = qp_wire q \<and>
    qp_answers q' = qp_answers q @ [(qs_respond (cm_session c), None)] \<and> qp_cpus q' = cpus_after (qs_respond (cm_session c)) (qp_cpus q)"
  using assms
  by (auto simp: cpus_after_def ready_def idle_def qmp_send_def chanSize_def qmpHandler_def qmpCommander_def end_commander_def finish_session_def
      session_Finish_def respond_def Let_def split: qmp_respond.split)

lemma finish_refused:
  assumes "ready c q" "cm_todo c = cmd # cs" "cm_repeat c = 3" "cm_error c = Some e" "fail_reason e = Some why"
  shows "\<exists>q'. qmp_run [QCommand 0, QHandle] q = Next q' \<and> idle q' \<and> qp_wire q' = qp_wire q \<and>
    qp_answers q' = qp_answers q @ [(qs_respond (cm_session c), Some why)]"
  using assms
  by (auto simp: ready_def idle_def qmp_send_def chanSize_def qmpHandler_def qmpCommander_def end_commander_def finish_session_def
      error_Finish_def respond_def Let_def split: qmp_respond.split)

lemma commands_ok:
  assumes "UnmarshalJSON ok = Inr (Some (QmpResult r))"
  shows "ready c q \<Longrightarrow> cm_todo c = cs \<Longrightarrow> cm_repeat c = 0 \<Longrightarrow>
    \<exists>q' c'. qmp_run (concat (map (\<lambda>_. command_labels ok) cs)) q = Next q' \<and> ready c' q' \<and> cm_todo c' = [] \<and> cm_session c' = cm_session c \<and>
      qp_wire q' = qp_wire q @ cs \<and> qp_answers q' = qp_answers q \<and> qp_cpus q' = qp_cpus q"
proof (induction cs arbitrary: c q)
  case (Cons cmd cs)
  obtain q1 where q1: "qmp_run (command_labels ok) q = Next q1" "ready (c\<lparr>cm_todo := cs, cm_repeat := 0, cm_error := None\<rparr>) q1"
    "qp_wire q1 = qp_wire q @ [cmd]" "qp_answers q1 = qp_answers q" "qp_cpus q1 = qp_cpus q"
    using command_ok [OF Cons.prems(1,2) _ assms] Cons.prems(3) by auto
  then show ?case using Cons.IH [OF q1(2)] by (auto simp: qmp_run_append)
qed auto

lemma session_ok:
  assumes "UnmarshalJSON ok = Inr (Some (QmpResult r))" "idle q"
  shows "\<exists>q'. qmp_run (session_labels ok s) q = Next q' \<and> idle q' \<and> qp_wire q' = qp_wire q @ qs_commands s \<and>
    qp_answers q' = qp_answers q @ [(qs_respond s, None)] \<and> qp_cpus q' = cpus_after (qs_respond s) (qp_cpus q)"
proof -
  let ?c = "\<lparr>cm_session = s, cm_todo = qs_commands s, cm_repeat = 0, cm_error = None, cm_waiting = False\<rparr>"
  obtain q1 where q1: "qmp_run [QSubmit s, QHandle] q = Next q1" "ready ?c q1" "qp_wire q1 = qp_wire q" "qp_answers q1 = qp_answers q" "qp_cpus q1 = qp_cpus q"
    using submit_idle [OF assms(2), of s] by blast
  obtain q2 c' where q2: "qmp_run (concat (map (\<lambda>_. command_labels ok) (qs_commands s))) q1 = Next q2" "ready c' q2" "cm_todo c' = []"
    "cm_session c' = s" "qp_wire q2 = qp_wire q1 @ qs_commands s" "qp_answers q2 = qp_answers q1" "qp_cpus q2 = qp_cpus q1"
    using commands_ok [OF assms(1) q1(2)] by auto
  show ?thesis
    using finish_ok [OF q2(2,3)] q1 q2 unfolding session_labels_def qmp_run_append by auto
qed

section \<open>Properties\<close>

text \<open>
  C13: Over every history of the connection the sessions are answered in the order in which they were
  submitted, each at most once and by its own respond function; the others are still in the queue,
  in order. At most one commander runs, so the commands of different sessions do not mix: the
  output of the socket is cut into a piece for each answered session, followed by that of the
  running one, and the piece of a session answered with success has each of its commands, in order
  and one to three times in a row.
\<close>

theorem qmp_sessions_in_order:
  assumes "qmp_run ls (qmp_init cpus) = Next q"
  shows "map fst (qp_answers q) @ map qs_respond (qp_buf q @ sess_of (qp_chan q)) = map qs_respond (qp_sent q) \<and>
    length (qp_commanders q) \<le> 1 \<and>
    (\<exists>ws w. qp_wire q = concat ws @ w \<and> length ws = length (qp_answers q) \<and>
      (\<forall>i < length ws. snd (qp_answers q ! i) = None \<longrightarrow> attempts (qs_commands (qp_sent q ! i)) (ws ! i)))"
proof -
  have inv: "qmp_inv q" by (rule run_inv [OF qmp_inv_init assms])
  have "map qs_respond (take n (qp_sent q)) @ map qs_respond (drop n (qp_sent q)) = map qs_respond (qp_sent q)" for n
    by (metis append_take_drop_id map_append)
  then have "map fst (qp_answers q) @ map qs_respond (qp_buf q @ sess_of (qp_chan q)) = map qs_respond (qp_sent q)"
    using inv by (metis qmp_inv_def queue_ok_def)
  moreover have "\<exists>ws w. wire_ok q ws w" using inv by (auto simp: qmp_inv_def)
  ultimately show ?thesis using commanders_le [OF inv] by (simp add: wire_ok_def)
qed


text \<open>
  QEMU describes a refused command in the fields \<^verbatim>\<open>class\<close> and \<^verbatim>\<open>desc\<close> of its error, but the handler
  looks for a field \<^verbatim>\<open>error\<close>: a session whose command is refused three times fails with the reason
  \<^verbatim>\<open>unknown\<close>, whatever QEMU said.
\<close>

lemma qmp_reason_lost:
  assumes "idle q" "UnmarshalJSON no = Inr (Some (QmpError cause))" "gget cause ''error'' = None" "qs_commands s = cmd # cs"
  shows "\<exists>q'. qmp_run ([QSubmit s, QHandle] @ command_labels no @ command_labels no @ command_labels no @ [QCommand 0, QHandle]) q = Next q' \<and>
    idle q' \<and> qp_wire q' = qp_wire q @ [cmd, cmd, cmd] \<and> qp_answers q' = qp_answers q @ [(qs_respond s, Some ''unknown'')]"
proof -
  let ?c = "\<lparr>cm_session = s, cm_todo = qs_commands s, cm_repeat = 0, cm_error = None, cm_waiting = False\<rparr>"
  obtain q1 where q1: "qmp_run [QSubmit s, QHandle] q = Next q1" "ready ?c q1" "qp_wire q1 = qp_wire q" "qp_answers q1 = qp_answers q"
    using submit_idle [OF assms(1), of s] by blast
  note ref = command_refused [OF _ _ _ assms(2), where cmd = cmd and cs = cs]
  obtain q2 where q2: "qmp_run (command_labels no) q1 = Next q2" "ready (?c\<lparr>cm_repeat := 1, cm_error := Some cause\<rparr>) q2"
    "qp_wire q2 = qp_wire q1 @ [cmd]" "qp_answers q2 = qp_answers q1" using ref [OF q1(2)] assms(4) by auto
  obtain q3 where q3: "qmp_run (command_labels no) q2 = Next q3" "ready (?c\<lparr>cm_repeat := 2, cm_error := Some cause\<rparr>) q3"
    "qp_wire q3 = qp_wire q2 @ [cmd]" "qp_answers q3 = qp_answers q2" using ref [OF q2(2)] assms(4) by (auto simp: numeral_2_eq_2)
  obtain q4 where q4: "qmp_run (command_labels no) q3 = Next q4" "ready (?c\<lparr>cm_repeat := 3, cm_error := Some cause\<rparr>) q4"
    "qp_wire q4 = qp_wire q3 @ [cmd]" "qp_answers q4 = qp_answers q3" using ref [OF q3(2)] assms(4) by (auto simp: numeral_3_eq_3)
  have "fail_reason cause = Some ''unknown''" using assms(3) by (simp add: fail_reason_def)
  then show ?thesis
    using finish_refused [OF q4(2), of cmd cs cause] assms(4) q1 q2 q3 q4 unfolding qmp_run_append by auto
qed

lemma ended_exec:
  assumes "qp_handler q = None" "qmp_exec l q = Next q'"
  shows "qp_handler q' = None \<and> qp_answers q' = qp_answers q \<and> (\<exists>ms. qp_chan q' = qp_chan q @ ms)"
proof (cases l)
  case (QReceive raw)
  then show ?thesis
    using assms by (auto simp: qmpReceiver_def receiver_failed_def close_wait_def qmp_send_def
        split: if_splits sum.splits option.splits outcome.splits)
next
  case (QCommand i)
  then show ?thesis
    using assms by (auto simp: qmpCommander_def set_commander_def end_commander_def qmp_send_def Let_def
        split: if_splits list.splits QmpInteraction.splits option.splits)
qed (use assms in \<open>auto simp: submit_def qmpInitializer_def qmpHandler_def qmp_send_def split: if_splits option.splits\<close>)

lemma ended_run: "qp_handler q = None \<Longrightarrow> qmp_run ls q = Next q' \<Longrightarrow> qp_handler q' = None \<and> qp_answers q' = qp_answers q"
proof (induction ls arbitrary: q)
  case (Cons l ls)
  obtain q1 where q1: "qmp_exec l q = Next q1" "qmp_run ls q1 = Next q'" using Cons.prems(2) by (auto split: outcome.splits)
  then show ?case using ended_exec [OF Cons.prems(1) q1(1)] Cons.IH [of q1] by simp
qed simp

text \<open>
  C40: When the connection breaks, the handler ends and no session is answered any more: not the one
  that was under way, not those in the queue and not those submitted later, so a client that waits
  for its answer waits for ever.
\<close>

theorem broken_connection_answers_none:
  assumes "qp_handler q = Some MainLoop" "qp_chan q = QmpInternalError e # rest" "qmp_run (QHandle # ls) q = Next q'"
  shows "qp_answers q' = qp_answers q \<and> qp_handler q' = None"
proof -
  obtain q1 where q1: "qmpHandler q = Next q1" "qmp_run ls q1 = Next q'" using assms(3) by (auto split: outcome.splits)
  have "qp_handler q1 = None" "qp_answers q1 = qp_answers q"
    using q1(1) assms(1,2) by (auto simp: qmpHandler_def feed_back_def split: if_splits)
  then show ?thesis using ended_run [OF _ q1(2)] by simp
qed

text \<open>
  Closing the driver races with the commander: one that has got the last reply of its session
  when the handler quits reports the end of the session to a closed channel, which panics.
\<close>

definition demo_session :: QmpSession where
  "demo_session = \<lparr>qs_commands = [\<lparr>qc_Execute = ''stop'', qc_Arguments = [], qc_Scm = None\<rparr>], qs_respond = RespondError 1\<rparr>"

definition greeting :: handshake where
  "greeting = \<lparr>hk_connect = None, hk_welcome = None, hk_write = None, hk_response = Inr [(''return'', JObj [])]\<rparr>"

definition close_race :: "qmp_label list" where
  "close_race = [QHandshake greeting, QHandle, QSubmit demo_session, QHandle] @ command_labels [(''return'', JObj [])] @
     [QClose, QHandle, QReceive (Inl ''closed''), QCloseWait]"

lemma close_races_commander:
  "\<exists>q. qmp_run close_race (qmp_init 1) = Next q \<and> length (qp_commanders q) = 1 \<and> qp_answers q = [] \<and> qmp_exec (QCommand 0) q = Crashed"
proof -
  have "case qmp_run close_race (qmp_init 1) of
      Next q \<Rightarrow> length (qp_commanders q) = 1 \<and> qp_answers q = [] \<and> (case qmp_exec (QCommand 0) q of Crashed \<Rightarrow> True | _ \<Rightarrow> False) | _ \<Rightarrow> False"
    by code_simp
  then show ?thesis by (auto split: outcome.splits)
qed

section \<open>Instances\<close>

definition connected :: qmp where
  "connected = (qmp_init 1)\<lparr>qp_handler := Some MainLoop, qp_initializer := False, qp_timer := False, qp_receiver := True\<rparr>"

lemma connected_run: "qmp_run [QHandshake greeting, QHandle] (qmp_init 1) = Next connected"
  by code_simp

lemma connected_idle: "idle connected"
  by (simp add: idle_def connected_def qmp_init_def)

theorem qmp_sessions_in_order_witness:
  "\<exists>q. qmp_run ([QHandshake greeting, QHandle] @ session_labels [(''return'', JObj [])] demo_session) (qmp_init 1) = Next q \<and>
     map fst (qp_answers q) @ map qs_respond (qp_buf q @ sess_of (qp_chan q)) = [RespondError 1] \<and> length (qp_commanders q) \<le> 1"
proof -
  let ?ls = "[QHandshake greeting, QHandle] @ session_labels [(''return'', JObj [])] demo_session"
  have "case qmp_run ?ls (qmp_init 1) of Next q \<Rightarrow> map qs_respond (qp_sent q) = [RespondError 1] | _ \<Rightarrow> False" by code_simp
  then obtain q where q: "qmp_run ?ls (qmp_init 1) = Next q" "map qs_respond (qp_sent q) = [RespondError 1]"
    by (auto split: outcome.splits)
  then show ?thesis using qmp_sessions_in_order [OF q(1)] by auto
qed


theorem broken_connection_answers_none_witness:
  "\<exists>q q'. qmp_run [QSubmit demo_session, QHandle, QCommand 0, QReceive (Inl ''EOF'')] connected = Next q \<and> length (qp_buf q) = 1 \<and>
     qmp_run [QHandle, QCommand 0] q = Next q' \<and> qp_answers q' = []"
proof -
  have "case qmp_run [QSubmit demo_session, QHandle, QCommand 0, QReceive (Inl ''EOF'')] connected of
      Next q \<Rightarrow> qp_handler q = Some MainLoop \<and> qp_chan q = [QmpInternalError ''EOF''] \<and> length (qp_buf q) = 1 \<and> qp_answers q = [] \<and>
        (case qmp_run [QHandle, QCommand 0] q of Next _ \<Rightarrow> True | _ \<Rightarrow> False) | _ \<Rightarrow> False"
    by code_simp
  then obtain q q' where q: "qmp_run [QSubmit demo_session, QHandle, QCommand 0, QReceive (Inl ''EOF'')] connected = Next q"
    "qp_handler q = Some MainLoop" "qp_chan q = [QmpInternalError ''EOF'']" "length (qp_buf q) = 1" "qp_answers q = []"
    "qmp_run [QHandle, QCommand 0] q = Next q'"
    by (auto split: outcome.splits)
  then show ?thesis using broken_connection_answers_none [OF q(2,3,6)] by auto
qed

end
