(* ===== verification/Qemu.thy ===== *)
theory Qemu
  imports QmpProps Persistence
begin

text \<open>
  The QEMU driver (\<^verbatim>\<open>hypervisor/qemu/qemu.go\<close>, \<^verbatim>\<open>qemu_amd64.go\<close>, \<^verbatim>\<open>qemu_process.go\<close>, \<^verbatim>\<open>qmp_wrapper.go\<close>,
  \<^verbatim>\<open>qmp_wrapper_amd64.go\<close>) over the QMP connection: the command line, the sessions of the operations,
  the watch dog, and saving and loading the driver's part of a sandbox. An operation that sends a
  session is the session it sends; \<^verbatim>\<open>fork\<close>, files, tap devices and signals are arguments.
\<close>

section \<open>Context\<close>

record QemuDriver =
  qd_executable :: string
  qd_hasVsock :: bool

record QemuLogFile =
  ql_Name :: string
  ql_Offset :: int

text \<open>The processor count \<^verbatim>\<open>qc.cpus\<close> is the component \<open>qp_cpus\<close> of the connection.\<close>

record QemuContext =
  qx_driver :: QemuDriver
  qx_qmp :: qmp
  qx_wdt :: "string list"
  qx_qmpSockName :: string
  qx_qemuPidFile :: string
  qx_qemuLogFile :: QemuLogFile
  qx_process :: "int option"

definition QmpSockName :: string where "QmpSockName = ''qmp.sock''"
definition QemuPidFile :: string where "QemuPidFile = ''pidfile''"
definition QemuLogDir :: string where "QemuLogDir = ''/var/log/hyper/qemu''"

text \<open>\<^verbatim>\<open>strings.Index\<close>, with \<open>None\<close> for -1.\<close>

fun str_Index :: "string \<Rightarrow> string \<Rightarrow> nat option" where
  "str_Index [] sub = (if sub = [] then Some 0 else None)"
| "str_Index (c # cs) sub = (if take (length sub) (c # cs) = sub then Some 0 else map_option Suc (str_Index cs sub))"

text \<open>The name of the log file: \<open>None\<close> is the panic of a slice from -1.\<close>

definition qemu_log :: "string \<Rightarrow> string option" where
  "qemu_log homeDir =
     map_option (\<lambda>i. path_Join [QemuLogDir, drop i (take (length homeDir - 1) homeDir) @ ''.log'']) (str_Index homeDir ''vm-'')"

definition qemu_InitContext :: "QemuDriver \<Rightarrow> string \<Rightarrow> QemuContext option" where
  "qemu_InitContext qd homeDir =
     map_option (\<lambda>logFile.
       \<lparr>qx_driver = qd, qx_qmp = qmp_init 0, qx_wdt = [], qx_qmpSockName = path_Join [homeDir, QmpSockName],
        qx_qemuPidFile = path_Join [homeDir, QemuPidFile], qx_qemuLogFile = \<lparr>ql_Name = logFile, ql_Offset = 0\<rparr>, qx_process = None\<rparr>)
       (qemu_log homeDir)"

definition qemu_Dump :: "QemuContext \<Rightarrow> string + (string, json) gomap" where
  "qemu_Dump qc =
     (case qx_process qc of
        None \<Rightarrow> Inl ''can not serialize qemu context: no process running''
      | Some pid \<Rightarrow>
          Inr [(''hypervisor'', JStr ''qemu''), (''qmpSock'', JStr (qx_qmpSockName qc)),
               (''log'', JObj [(''name'', JStr (ql_Name (qx_qemuLogFile qc))), (''offset'', JNum (ql_Offset (qx_qemuLogFile qc)))]),
               (''pid'', JNum pid)])"

text \<open>The log file of the saved data; \<open>None\<close> is an error of the JSON decoder.\<close>

definition load_log :: "json \<Rightarrow> QemuLogFile option" where
  "load_log l =
     (case l of
        JNull \<Rightarrow> Some \<lparr>ql_Name = [], ql_Offset = 0\<rparr>
      | JObj m \<Rightarrow>
          (case (gget m ''name'', gget m ''offset'') of
             (n, off) \<Rightarrow>
               (let nm = (case n of None \<Rightarrow> Some [] | Some JNull \<Rightarrow> Some [] | Some (JStr s) \<Rightarrow> Some s | _ \<Rightarrow> None);
                    o' = (case off of None \<Rightarrow> Some 0 | Some JNull \<Rightarrow> Some 0 | Some (JNum k) \<Rightarrow> Some k | _ \<Rightarrow> None)
                in case (nm, o') of (Some s, Some k) \<Rightarrow> Some \<lparr>ql_Name = s, ql_Offset = k\<rparr> | _ \<Rightarrow> None))
      | _ \<Rightarrow> None)"

text \<open>\<open>alive\<close> is the answer of the process to signal 0, \<open>jerr\<close> the text of a decoding error.\<close>

definition qemu_LoadContext :: "QemuDriver \<Rightarrow> (int \<Rightarrow> string option) \<Rightarrow> string \<Rightarrow> (string, json) gomap \<Rightarrow> string + QemuContext" where
  "qemu_LoadContext qd alive jerr persisted =
     (if gget persisted ''hypervisor'' \<noteq> Some (JStr ''qemu'') then Inl ''wrong driver type in persist info''
      else case gget persisted ''qmpSock'' of
        None \<Rightarrow> Inl ''cannot read the qmp socket info from persist info''
      | Some (JStr sock) \<Rightarrow>
          (case gget persisted ''pid'' of
             None \<Rightarrow> Inl ''cannot read the pid info from persist info''
           | Some (JNum p) \<Rightarrow>
               (case alive p of
                  Some e \<Rightarrow> Inl (''signal 0 on Qemu process('' @ itoa p @ '') failed: '' @ e)
                | None \<Rightarrow>
                    (case gget persisted ''log'' of
                       None \<Rightarrow> Inl ''cannot read the qemu log filename info from persist info''
                     | Some l \<Rightarrow>
                         (case load_log l of
                            None \<Rightarrow> Inl (''wrong qemu log filename type in persist info: '' @ jerr)
                          | Some lf \<Rightarrow>
                              Inr \<lparr>qx_driver = qd, qx_qmp = qmp_init 0, qx_wdt = [], qx_qmpSockName = sock, qx_qemuPidFile = [],
                                   qx_qemuLogFile = lf, qx_process = Some p\<rparr>)))
           | Some _ \<Rightarrow> Inl ''wrong pid field type in persist info'')
      | Some _ \<Rightarrow> Inl ''wrong sock name type in persist info'')"

section \<open>Sessions\<close>

definition cmd :: "string \<Rightarrow> (string \<times> json) list \<Rightarrow> QmpCommand" where
  "cmd ex args = \<lparr>qc_Execute = ex, qc_Arguments = args, qc_Scm = None\<rparr>"

text \<open>\<^verbatim>\<open>utils.DiskId2Name\<close>; Go's remainder has the sign of the dividend.\<close>

definition rem26 :: "int \<Rightarrow> int" where
  "rem26 i = (if i \<ge> 0 then i mod 26 else - ((- i) mod 26))"

function DiskId2Name :: "int \<Rightarrow> string" where
  "DiskId2Name i =
     (let ch = char_of (nat (97 + rem26 i)) in if i < 26 then [ch] else DiskId2Name (i div 26 - 1) @ [ch])"
  by pat_completeness auto
termination by (relation "measure nat") auto

declare DiskId2Name.simps [simp del]

definition scsiId2Name :: "int \<Rightarrow> string" where
  "scsiId2Name i = ''sd'' @ DiskId2Name i"

text \<open>What \<^verbatim>\<open>defaultRespond\<close> sends to its result channel.\<close>

fun defaultRespond :: "VmEvent option \<Rightarrow> string option \<Rightarrow> VmEvent option option" where
  "defaultRespond callback None = map_option Some callback"
| "defaultRespond callback (Some err) = Some (map_option DeviceFailed callback)"

definition qmpQemuQuit :: "nat \<Rightarrow> QmpSession" where
  "qmpQemuQuit hub = \<lparr>qs_commands = [cmd ''quit'' []], qs_respond = DefaultRespond hub None\<rparr>"

definition newDiskAddSession :: "string \<Rightarrow> string \<Rightarrow> int \<Rightarrow> bool \<Rightarrow> nat \<Rightarrow> QmpSession" where
  "newDiskAddSession filename format i readonly result =
     (let args = ''drive_add dummy file='' @ filename @ '',if=none,id='' @ ''drive'' @ itoa i @ '',format='' @ format @ '',cache=writeback'' @
            (if readonly then '',readonly'' else [])
      in \<lparr>qs_commands =
            [cmd ''human-monitor-command'' [(''command-line'', JStr args)],
             cmd ''device_add''
               [(''driver'', JStr ''scsi-hd''), (''bus'', JStr ''scsi0.0''), (''scsi-id'', JStr (itoa i)),
                (''drive'', JStr (''drive'' @ itoa i)), (''id'', JStr (''scsi-disk'' @ itoa i))]],
          qs_respond = DefaultRespond result (Some (BlockdevInsertedEvent (scsiId2Name i) []))\<rparr>)"

definition newDiskDelSession :: "int \<Rightarrow> VmEvent \<Rightarrow> nat \<Rightarrow> QmpSession" where
  "newDiskDelSession i callback result =
     \<lparr>qs_commands =
        [cmd ''human-monitor-command'' [(''command-line'', JStr (''drive_del drive'' @ itoa i))],
         cmd ''device_del'' [(''id'', JStr (''scsi-disk'' @ itoa i))]],
      qs_respond = DefaultRespond result (Some callback)\<rparr>"

definition newNetworkDelSession :: "string \<Rightarrow> VmEvent \<Rightarrow> nat \<Rightarrow> QmpSession" where
  "newNetworkDelSession device callback result =
     \<lparr>qs_commands = [cmd ''device_del'' [(''id'', JStr device)], cmd ''netdev_del'' [(''id'', JStr device)]],
      qs_respond = DefaultRespond result (Some callback)\<rparr>"

text \<open>The verb \<^verbatim>\<open>%x\<close>.\<close>

definition hex_digit :: "nat \<Rightarrow> char" where
  "hex_digit n = char_of (if n < 10 then 48 + n else 87 + n)"

fun xtoa :: "nat \<Rightarrow> string" where
  "xtoa n = (if n < 16 then [hex_digit n] else xtoa (n div 16) @ [hex_digit (n mod 16)])"

declare xtoa.simps [simp del]

definition hex_int :: "int \<Rightarrow> string" where
  "hex_int i = (if i < 0 then ''-'' @ xtoa (nat (- i)) else xtoa (nat i))"

text \<open>\<open>vhost\<close> is \<^verbatim>\<open>ctx.Boot.EnableVhostUser\<close>, \<open>homeDir\<close> the directory of the sandbox.\<close>

definition net_backend :: "bool \<Rightarrow> string \<Rightarrow> int \<Rightarrow> HostNicInfo \<Rightarrow> GuestNicInfo \<Rightarrow> QmpCommand list" where
  "net_backend vhost homeDir fd host guest =
     (let dev = gn_Device guest; chardevId = dev @ ''-chardev'' in
      if vhost then
        [cmd ''chardev-add''
           [(''id'', JStr chardevId),
            (''backend'', JObj
               [(''type'', JStr ''socket''),
                (''data'', JObj
                   [(''addr'', JObj [(''type'', JStr ''unix''), (''data'', JObj [(''path'', JStr (homeDir @ ''/'' @ hn_Id host))])]),
                    (''wait'', JBool False), (''server'', JBool True)])])],
         cmd ''netdev_add''
           [(''type'', JStr ''vhost-user''), (''id'', JStr dev), (''chardev'', JStr chardevId), (''vhostforce'', JBool True)]]
      else if fd > 0 then
        [(cmd ''getfd'' [(''fdname'', JStr (''fd'' @ dev))])\<lparr>qc_Scm := Some fd\<rparr>,
         cmd ''netdev_add'' [(''type'', JStr ''tap''), (''id'', JStr dev), (''fd'', JStr (''fd'' @ dev))]]
      else if hn_Device host \<noteq> [] then
        [cmd ''netdev_add'' [(''type'', JStr ''tap''), (''id'', JStr dev), (''ifname'', JStr (hn_Device host)), (''script'', JStr ''no'')]]
      else [])"

definition newNetworkAddSession :: "bool \<Rightarrow> string \<Rightarrow> int \<Rightarrow> HostNicInfo \<Rightarrow> GuestNicInfo \<Rightarrow> nat \<Rightarrow> QmpSession" where
  "newNetworkAddSession vhost homeDir fd host guest result =
     \<lparr>qs_commands = net_backend vhost homeDir fd host guest @
        [cmd ''device_add''
           [(''driver'', JStr ''virtio-net-pci''), (''netdev'', JStr (gn_Device guest)), (''mac'', JStr (hn_Mac host)),
            (''bus'', JStr ''pci.0''), (''addr'', JStr (''0x'' @ hex_int (gn_Busaddr guest))), (''id'', JStr (gn_Device guest))]],
      qs_respond = DefaultRespond result
        (Some (NetDevInsertedEvent (hn_Id host) (gn_Index guest) (gn_Device guest) (gn_Busaddr guest) fd))\<rparr>"

section \<open>Operations\<close>

definition qemu_Pause :: "bool \<Rightarrow> nat \<Rightarrow> QmpSession" where
  "qemu_Pause pause result = \<lparr>qs_commands = [cmd (if pause then ''stop'' else ''cont'') []], qs_respond = RespondError result\<rparr>"

text \<open>
  The file name of a Ceph volume. A map of options is never empty when there is one, so that the
  empty list stands for the nil map.
\<close>

definition escape_colon :: "string \<Rightarrow> string" where
  "escape_colon m = concat (map (\<lambda>c. if c = CHR '':'' then [CHR 0x5C, CHR '':''] else [c]) m)"

definition rbd_filename :: "string \<Rightarrow> (string, string) gomap \<Rightarrow> string" where
  "rbd_filename filename opts =
     (let get = (\<lambda>k. case gget opts k of Some v \<Rightarrow> v | None \<Rightarrow> []);
          auth = (if get ''keyring'' \<noteq> [] \<and> get ''user'' \<noteq> [] then '':id='' @ get ''user'' @ '':key='' @ get ''keyring'' else []);
          mons = map escape_colon (split_on CHR '';'' (get ''monitors''))
      in filename @ auth @ '':mon_host='' @ hd mons @ concat (map (\<lambda>m. CHR '';'' # m) (tl mons)))"

definition qemu_AddDisk :: "DiskDescriptor \<Rightarrow> nat \<Rightarrow> QmpSession" where
  "qemu_AddDisk d result =
     newDiskAddSession
       (if dd_Format d = ''rbd'' \<and> dd_Options d \<noteq> [] then rbd_filename (dd_Filename d) (dd_Options d)
        else dd_Filename d)
       (dd_Format d) (dd_ScsiId d) (dd_ReadOnly d) result"

definition qemu_RemoveDisk :: "DiskDescriptor \<Rightarrow> VmEvent \<Rightarrow> nat \<Rightarrow> QmpSession" where
  "qemu_RemoveDisk d callback result = newDiskDelSession (dd_ScsiId d) callback result"

text \<open>
  \<open>tap\<close> is what making the tap device or the vhost port gives, with -1 as the descriptor of the
  latter. \<open>None\<close>: the device failed and no session is sent.
\<close>

definition qemu_AddNic :: "VmContext \<Rightarrow> HostNicInfo \<Rightarrow> GuestNicInfo \<Rightarrow> string + int \<Rightarrow> nat \<Rightarrow> QmpSession option" where
  "qemu_AddNic ctx host guest tap waitChan =
     (case tap of
        Inl e \<Rightarrow> None
      | Inr fd \<Rightarrow>
          Some (newNetworkAddSession (bc_EnableVhostUser (sb_Boot ctx)) (sb_HomeDir ctx)
                  (if bc_EnableVhostUser (sb_Boot ctx) then -1 else fd) host guest waitChan))"

text \<open>The goroutine that waits for the outcome closes the descriptor of a failed device.\<close>

definition nic_done :: "int \<Rightarrow> VmEvent option \<Rightarrow> int list \<times> VmEvent option" where
  "nic_done fd ev = (case ev of None \<Rightarrow> ([fd], None) | Some (DeviceFailed e) \<Rightarrow> ([fd], ev) | Some _ \<Rightarrow> ([], ev))"

definition qemu_RemoveNic :: "InterfaceCreated \<Rightarrow> VmEvent \<Rightarrow> nat \<Rightarrow> QmpSession" where
  "qemu_RemoveNic n callback result = newNetworkDelSession (ic_NewName n) callback result"

text \<open>\<open>Inl\<close> is an answer without a session.\<close>

definition qemu_SetCpus :: "int \<Rightarrow> nat \<Rightarrow> qmp \<Rightarrow> string option + QmpSession" where
  "qemu_SetCpus cpus result q =
     (let currcpus = qp_cpus q in
      if cpus < currcpus then Inl (Some (''can't reduce cpus number from '' @ itoa currcpus @ '' to '' @ itoa cpus))
      else if cpus = currcpus then Inl None
      else Inr \<lparr>qs_commands = map (\<lambda>i. cmd ''cpu-add'' [(''id'', JNum i)]) [currcpus..cpus - 1], qs_respond = RespondCpus cpus result\<rparr>)"

text \<open>The size is shifted in 64 bits.\<close>

definition qemu_AddMem :: "int \<Rightarrow> int \<Rightarrow> nat \<Rightarrow> QmpSession" where
  "qemu_AddMem slot sz result =
     \<lparr>qs_commands =
        [cmd ''object-add''
           [(''qom-type'', JStr ''memory-backend-ram''), (''id'', JStr (''mem'' @ itoa slot)),
            (''props'', JObj [(''size'', JNum (sint (push_bit 20 (word_of_int sz :: 64 word))))])],
         cmd ''device_add'' [(''driver'', JStr ''pc-dimm''), (''id'', JStr (''dimm'' @ itoa slot)), (''memdev'', JStr (''mem'' @ itoa slot))]],
      qs_respond = RespondError result\<rparr>"

definition qemu_Save :: "string \<Rightarrow> bool \<Rightarrow> nat \<Rightarrow> QmpSession" where
  "qemu_Save path toBeTemplate result =
     \<lparr>qs_commands =
        (if toBeTemplate
         then [cmd ''migrate-set-capabilities''
                 [(''capabilities'', JArr [JObj [(''capability'', JStr ''bypass-shared-memory''), (''state'', JBool True)]])]]
         else []) @ [cmd ''migrate'' [(''uri'', JStr (''exec:cat>'' @ path))]],
      qs_respond = RespondError result\<rparr>"

section \<open>The process\<close>

definition DefaultMaxCpus :: int where "DefaultMaxCpus = 8"
definition DefaultMaxMem :: int where "DefaultMaxMem = 32768"

text \<open>
  The command line, for a boot configuration that is not nil, as every caller of \<^verbatim>\<open>InitContext\<close> gives
  one; \<open>kvm\<close> says that \<^verbatim>\<open>/dev/kvm\<close> exists. The pieces are in the order of the source.
\<close>

definition machine_params :: "bool \<Rightarrow> string list" where
  "machine_params kvm =
     (if kvm then [''-machine'', ''pc-i440fx-2.1,accel=kvm,usb=off'', ''-global'', ''kvm-pit.lost_tick_policy=discard'', ''-cpu'', ''host'']
      else [''-machine'', ''pc-i440fx-2.1,usb=off'', ''-cpu'', ''core2duo''])"

definition kernel_cmdline :: "bool \<Rightarrow> string" where
  "kernel_cmdline kvm = ''console=ttyS0 panic=1 no_timer_check iommu=off'' @ (if kvm then [] else '' clocksource=acpi_pm notsc'')"

definition firmware_params :: "bool \<Rightarrow> BootConfig \<Rightarrow> string list" where
  "firmware_params kvm boot =
     (let pflash = (\<lambda>f. [''-drive'', ''if=pflash,file='' @ f @ '',readonly=on'']);
          kernel = [''-kernel'', bc_Kernel boot, ''-initrd'', bc_Initrd boot, ''-append'', kernel_cmdline kvm] in
      if bc_Bios boot \<noteq> [] \<and> bc_Cbfs boot \<noteq> [] then pflash (bc_Bios boot) @ pflash (bc_Cbfs boot)
      else if bc_Bios boot \<noteq> [] then [''-bios'', bc_Bios boot] @ kernel
      else if bc_Cbfs boot \<noteq> [] then pflash (bc_Cbfs boot)
      else kernel)"

definition memory_params :: "BootConfig \<Rightarrow> string list" where
  "memory_params boot =
     (let node = ''node,nodeid=0,cpus=0-'' @ itoa (DefaultMaxCpus - 1); mem = itoa (bc_Memory boot) in
      if bc_EnableVhostUser boot then
        [''-object'', ''memory-backend-file,id=hyper-memory,size='' @ mem @ ''M,mem-path='' @ bc_MemoryPath boot @ '',share=on'',
         ''-numa'', node @ '',memdev=hyper-memory'']
      else if bc_BootToBeTemplate boot \<or> bc_BootFromTemplate boot then
        [''-object'', ''memory-backend-file,id=hyper-template-memory,size='' @ mem @ ''M,mem-path='' @ bc_MemoryPath boot @
           (if bc_BootToBeTemplate boot then '',share=on'' else []),
         ''-numa'', node @ '',memdev=hyper-template-memory''] @
        (if bc_BootFromTemplate boot then [''-S'', ''-incoming'', ''exec:cat '' @ bc_DevicesStatePath boot] else [])
      else [''-numa'', node @ '',mem='' @ mem])"

definition channel_params :: "VmContext \<Rightarrow> string list" where
  "channel_params ctx =
     (let chardev = (\<lambda>i path. [''-chardev'', ''socket,id=charch'' @ i @ '',path='' @ path @ '',server,nowait'']);
          port = (\<lambda>nr i name. [''-device'', ''virtserialport,bus=virtio-serial0.0,nr='' @ nr @ '',chardev=charch'' @ i @ '',id=channel'' @ i @ '',name='' @ name]) in
      if bc_EnableVsock (sb_Boot ctx) then []
      else if bc_KataAgent (sb_Boot ctx) then chardev ''0'' (sb_KataSockName ctx) @ port ''1'' ''0'' ''agent.channel.0''
      else chardev ''0'' (sb_HyperSockName ctx) @ port ''1'' ''0'' ''sh.hyper.channel.0'' @
           chardev ''1'' (sb_TtySockName ctx) @ port ''2'' ''1'' ''sh.hyper.channel.1'')"

definition boot_memory :: "BootConfig \<Rightarrow> BootConfig" where
  "boot_memory boot = (if bc_EnableVhostUser boot then boot\<lparr>bc_MemoryPath := ''/dev/hugepages''\<rparr> else boot)"

definition arguments :: "bool \<Rightarrow> QemuContext \<Rightarrow> VmContext \<Rightarrow> QemuContext \<times> VmContext \<times> string list" where
  "arguments kvm qc ctx0 =
     (let ctx = ctx0\<lparr>sb_Boot := boot_memory (sb_Boot ctx0)\<rparr>; boot = sb_Boot ctx in
      (qc\<lparr>qx_qmp := (qx_qmp qc)\<lparr>qp_cpus := bc_CPU boot\<rparr>\<rparr>, ctx,
       machine_params kvm @ firmware_params kvm boot @
       [''-realtime'', ''mlock=off'', ''-no-user-config'', ''-nodefaults'', ''-no-hpet'',
        ''-rtc'', ''base=utc,clock=vm,driftfix=slew'', ''-no-reboot'', ''-display'', ''none'', ''-boot'', ''strict=on'',
        ''-m'', ''size='' @ itoa (bc_Memory boot) @ '',slots=1,maxmem='' @ itoa DefaultMaxMem @ ''M'',
        ''-smp'', ''cpus='' @ itoa (bc_CPU boot) @ '',maxcpus='' @ itoa DefaultMaxCpus] @
       memory_params boot @
       [''-qmp'', ''unix:'' @ qx_qmpSockName qc @ '',server,nowait'', ''-serial'', ''unix:'' @ sb_ConsoleSockName ctx @ '',server,nowait'',
        ''-device'', ''virtio-serial-pci,id=virtio-serial0,bus=pci.0,addr=0x2'', ''-device'', ''virtio-scsi-pci,id=scsi0,bus=pci.0,addr=0x3'',
        ''-fsdev'', ''local,id=virtio9p,path='' @ sb_ShareDir ctx @ '',security_model=none'',
        ''-device'', ''virtio-9p-pci,fsdev=virtio9p,mount_tag='' @ ShareDirTag] @
       channel_params ctx))"

text \<open>
  The watch dog over the messages of its channel, \<open>None\<close> when it is closed, with the answer of the
  process to being killed: the events it sends and whether it still runs.
\<close>

fun watchDog :: "int option \<Rightarrow> bool \<Rightarrow> string option list \<Rightarrow> VmEvent list \<times> bool" where
  "watchDog process killed [] = ([], True)"
| "watchDog process killed (None # msgs) = ([], False)"
| "watchDog process killed (Some msg # msgs) =
     (if msg = ''quit'' then ([], False)
      else if msg = ''kill'' then ([VmKilledEvent (process \<noteq> None \<and> killed)], False)
      else watchDog process killed msgs)"

text \<open>
  The two loops over the pid file, over what each round finds: \<open>None\<close> the timeout, \<open>Some (Inl True)\<close> the
  file, or its content, is not there yet, \<open>Some (Inl False)\<close> another error. The result \<open>None\<close>: still trying.
\<close>

fun poll :: "string \<Rightarrow> string \<Rightarrow> (bool + 'a) option list \<Rightarrow> (string + 'a) option" where
  "poll late failed [] = None"
| "poll late failed (None # rs) = Some (Inl late)"
| "poll late failed (Some (Inl True) # rs) = poll late failed rs"
| "poll late failed (Some (Inl False) # rs) = Some (Inl failed)"
| "poll late failed (Some (Inr x) # rs) = Some (Inr x)"

record launch_env =
  le_kvm :: bool
  le_run :: bool
  le_open :: "(bool + unit) option list"
  le_read :: "(bool + uint32) option list"
  le_find :: bool

definition launch_args :: "bool \<Rightarrow> QemuContext \<Rightarrow> VmContext \<Rightarrow> QemuContext \<times> VmContext \<times> string list" where
  "launch_args kvm qc ctx =
     (case arguments kvm qc ctx of
        (qc1, ctx1, args0) \<Rightarrow>
          (let args = args0 @ [''-daemonize'', ''-pidfile'', qx_qemuPidFile qc, ''-D'', ql_Name (qx_qemuLogFile qc)] in
           if bc_EnableVsock (sb_Boot ctx1) \<and> qd_hasVsock (qx_driver qc) \<and> sb_GuestCid ctx1 > 0
           then (case NextPciAddr ctx1 of
                   (ctx2, addr) \<Rightarrow>
                     (qc1, ctx2, args @ [''-device'',
                        ''vhost-vsock-pci,id=vsock0,bus=pci.0,addr='' @ hex_int addr @ '',guest-cid='' @ utoa (unat (sb_GuestCid ctx2))]))
           else (qc1, ctx1, args)))"

text \<open>\<open>Inl\<close> is the event of a failed start; the result \<open>None\<close>: the goroutine still waits for the pid.\<close>

definition launchQemu :: "launch_env \<Rightarrow> QemuContext \<Rightarrow> VmContext \<Rightarrow> (QemuContext \<times> VmContext \<times> VmEvent option) option" where
  "launchQemu env qc ctx =
     (if qd_executable (qx_driver qc) = [] then Some (qc, ctx, Some (VmStartFailEvent ''can not find qemu executable''))
      else case launch_args (le_kvm env) qc ctx of
        (qc1, ctx1, args) \<Rightarrow>
          if \<not> le_run env then Some (qc1, ctx1, Some (VmStartFailEvent ''try to start qemu failed''))
          else (case poll ''pid file not exist, timeout'' ''open pid file failed'' (le_open env) of
            None \<Rightarrow> None
          | Some (Inl e) \<Rightarrow> Some (qc1, ctx1, Some (VmStartFailEvent e))
          | Some (Inr _) \<Rightarrow>
              (case poll ''read pid file timeout'' ''read pid file failed'' (le_read env) of
                 None \<Rightarrow> None
               | Some (Inl e) \<Rightarrow> Some (qc1, ctx1, Some (VmStartFailEvent e))
               | Some (Inr pid) \<Rightarrow>
                   if le_find env then Some (qc1\<lparr>qx_process := Some (uint pid)\<rparr>, ctx1, None)
                   else Some (qc1, ctx1, Some (VmStartFailEvent ''watch qemu process failed'')))))"

section \<open>Device names\<close>

definition letters :: "string \<Rightarrow> bool" where
  "letters w \<longleftrightarrow> w \<noteq> [] \<and> list_all (\<lambda>c. 97 \<le> (of_char c :: nat) \<and> (of_char c :: nat) < 123) w"

text \<open>The number of a name, reading its letters as digits from 1 to 26.\<close>

definition name_id :: "string \<Rightarrow> int" where
  "name_id w = foldl (\<lambda>a c. a * 26 + (int (of_char c) - 96)) 0 w - 1"

lemma name_id_snoc: "name_id (w @ [c]) = (name_id w + 1) * 26 + int (of_char c) - 97"
  by (simp add: name_id_def)

lemma of_char_letter: "0 \<le> i \<Longrightarrow> i < 26 \<Longrightarrow> int (of_char (char_of (nat (97 + i)))) = 97 + i"
  by (simp add: of_char_of nat_less_iff take_bit_nat_eq_self)

lemma DiskId2Name_letters:
  assumes "0 \<le> i"
  shows "letters (DiskId2Name i) \<and> name_id (DiskId2Name i) = i"
  using assms
proof (induction i rule: DiskId2Name.induct)
  case (1 i)
  let ?c = "char_of (nat (97 + i mod 26)) :: char"
  have c: "int (of_char ?c) = 97 + i mod 26" using of_char_letter [of "i mod 26"] by simp
  then have l: "97 \<le> (of_char ?c :: nat)" "(of_char ?c :: nat) < 123" using pos_mod_bound [of 26 i] pos_mod_sign [of 26 i] by linarith+
  have r: "rem26 i = i mod 26" using 1(2) by (simp add: rem26_def)
  show ?case
  proof (cases "i < 26")
    case True
    then show ?thesis
      using 1(2) c l r by (subst (1 2) DiskId2Name.simps) (simp add: letters_def name_id_def)
  next
    case False
    then have "letters (DiskId2Name (i div 26 - 1))" "name_id (DiskId2Name (i div 26 - 1)) = i div 26 - 1"
      using 1(1) [OF refl] by auto
    then show ?thesis
      using False c l r by (subst (1 2) DiskId2Name.simps) (simp add: letters_def name_id_snoc)
  qed
qed

lemma name_id_nonneg: "letters w \<Longrightarrow> 0 \<le> name_id w"
proof (induction w rule: rev_induct)
  case (snoc c w)
  then show ?case by (cases "w = []") (auto simp: letters_def name_id_snoc name_id_def)
qed (simp add: letters_def)

lemma DiskId2Name_name_id: "letters w \<Longrightarrow> DiskId2Name (name_id w) = w"
proof (induction w rule: rev_induct)
  case (snoc c w)
  have c: "97 \<le> (of_char c :: nat)" "(of_char c :: nat) < 123" using snoc.prems by (auto simp: letters_def)
  define k where "k = int (of_char c) - 97"
  have k: "0 \<le> k" "k < 26" "char_of (nat (97 + k)) = c" using c by (auto simp: k_def)
  show ?case
  proof (cases "w = []")
    case True
    have "name_id [c] = k" by (simp add: name_id_def k_def)
    then show ?thesis using True k by (simp add: DiskId2Name.simps [of k] rem26_def)
  next
    case False
    then have w: "letters w" using snoc.prems by (simp add: letters_def)
    have i: "name_id (w @ [c]) = (name_id w + 1) * 26 + k" by (simp add: name_id_snoc k_def)
    have ge: "26 \<le> name_id (w @ [c])" using i k(1) name_id_nonneg [OF w] by simp
    have "name_id (w @ [c]) mod 26 = k" unfolding i by (simp only: mod_mult_self3 mod_pos_pos_trivial k)
    moreover have "name_id (w @ [c]) div 26 - 1 = name_id w" using i k by simp
    ultimately show ?thesis using ge k(3) snoc.IH [OF w] by (subst DiskId2Name.simps) (simp add: rem26_def)
  qed
qed (simp add: letters_def)

section \<open>Processors\<close>

definition cpu_add :: "int \<Rightarrow> QmpCommand" where
  "cpu_add i = cmd ''cpu-add'' [(''id'', JNum i)]"

text \<open>Requests for processor counts, one after the other, on a connection with QEMU replying \<open>ok\<close>.\<close>

fun set_cpus_all :: "(string, json) gomap \<Rightarrow> int list \<Rightarrow> qmp \<Rightarrow> qmp outcome" where
  "set_cpus_all ok [] q = Next q"
| "set_cpus_all ok (m # ms) q =
     (case qemu_SetCpus m 0 q of
        Inl _ \<Rightarrow> set_cpus_all ok ms q
      | Inr s \<Rightarrow> (case qmp_run (session_labels ok s) q of Next q' \<Rightarrow> set_cpus_all ok ms q' | o' \<Rightarrow> o'))"

lemma fold_max_ge: "(n :: int) \<le> fold max ms n"
proof (induction ms arbitrary: n)
  case (Cons m ms)
  have "max m n \<le> fold max ms (max m n)" by (rule Cons.IH)
  then show ?case by simp
qed simp

lemma upto_append: "i \<le> j \<Longrightarrow> j \<le> k \<Longrightarrow> [i..j - 1] @ [j..k - 1] = [i..k - (1::int)]"
  using upto_split1 [of i j "k - 1"] by (cases "j \<le> k - 1") auto

section \<open>Properties\<close>

text \<open>
  C27: The names of SCSI disks number them without gaps or repetitions: different ids have different
  names, and every word over the letters from a to z is the name of exactly one id.
\<close>

theorem scsi_names_bijective:
  "bij_betw scsiId2Name {0..} ((@) ''sd'' ` {w. letters w})"
proof (rule bij_betw_byWitness [where f' = "\<lambda>n. name_id (drop 2 n)"])
  show "\<forall>i \<in> {0..}. name_id (drop 2 (scsiId2Name i)) = i" using DiskId2Name_letters by (simp add: scsiId2Name_def)
  show "\<forall>n \<in> (@) ''sd'' ` {w. letters w}. scsiId2Name (name_id (drop 2 n)) = n" using DiskId2Name_name_id by (auto simp: scsiId2Name_def)
  show "scsiId2Name ` {0..} \<subseteq> (@) ''sd'' ` {w. letters w}" using DiskId2Name_letters by (auto simp: scsiId2Name_def)
  show "(\<lambda>n. name_id (drop 2 n)) ` (@) ''sd'' ` {w. letters w} \<subseteq> {0..}" using name_id_nonneg by auto
qed



text \<open>
  C31: What the driver saves of a running machine is enough to load it again: socket, log file and
  process are the same. The processor count is not saved, though: a loaded driver believes that
  there is none and, asked for more, adds the processors from number 0 on that the machine has.
\<close>

theorem reloaded_driver:
  assumes "qx_process qc = Some pid" "alive pid = None" "0 < m"
  shows "\<exists>saved qc'. qemu_Dump qc = Inr saved \<and> qemu_LoadContext d alive jerr saved = Inr qc' \<and>
    qx_qmpSockName qc' = qx_qmpSockName qc \<and> qx_qemuLogFile qc' = qx_qemuLogFile qc \<and> qx_process qc' = Some pid \<and>
    qemu_SetCpus m 0 (qx_qmp qc') = Inr \<lparr>qs_commands = map cpu_add [0..m - 1], qs_respond = RespondCpus m 0\<rparr>"
  using assms by (simp add: qemu_Dump_def qemu_LoadContext_def load_log_def qemu_SetCpus_def qmp_init_def cpu_add_def)

definition demo_qemu :: QemuContext where
  "demo_qemu = \<lparr>qx_driver = \<lparr>qd_executable = ''qemu'', qd_hasVsock = False\<rparr>, qx_qmp = connected, qx_wdt = [], qx_qmpSockName = ''/run/qmp.sock'',
     qx_qemuPidFile = ''/run/pidfile'', qx_qemuLogFile = \<lparr>ql_Name = ''/log'', ql_Offset = 5\<rparr>, qx_process = Some 42\<rparr>"

theorem reloaded_driver_witness:
  "\<exists>saved qc'. qemu_Dump demo_qemu = Inr saved \<and> qemu_LoadContext (qx_driver demo_qemu) (\<lambda>_. None) [] saved = Inr qc' \<and>
     qp_cpus (qx_qmp demo_qemu) = 1 \<and> (\<exists>s. qemu_SetCpus 2 0 (qx_qmp qc') = Inr s \<and> hd (qs_commands s) = cpu_add 0)"
proof -
  have "qx_process demo_qemu = Some 42" "qp_cpus (qx_qmp demo_qemu) = 1" by (simp_all add: demo_qemu_def connected_def qmp_init_def)
  then show ?thesis
    using reloaded_driver [of demo_qemu 42 "\<lambda>_. None" 2 "qx_driver demo_qemu" "[]"] by (auto simp: upto.simps)
qed

text \<open>Machines whose ids differ in the last character only share a log file.\<close>

lemma qemu_log_shared:
  assumes "str_Index (dir @ [a]) ''vm-'' = str_Index (dir @ [b]) ''vm-''"
  shows "qemu_log (dir @ [a]) = qemu_log (dir @ [b])"
  using assms by (simp add: qemu_log_def)

end
