(* ===== verification/Spec2Isabelle.thy ===== *)
theory Spec2Isabelle
  imports Vsock Telnet BytesPipe IpAllocator HostNet HyperApi DiskSteps SandboxProps NetSlots Persistence VolumeInv Restore HsCtl HsProcInv VmProps Factory Qemu
begin

text \<open>
  A verification development of \<^verbatim>\<open>runv\<close>.
\<close>

end
